(* ===== verification/Prelude.thy ===== *)
theory Prelude
  imports Main "HOL-Library.Word"
begin

text \<open>
  Shared vocabulary of the development.

  A Go function may return, panic, end the process (every \<open>logger.Error\<close> and
  \<open>logger.Errorf\<close> calls \<open>os.Exit(1)\<close>) or never return (an endless loop or a channel
  operation that nobody answers). The type \<open>outcome\<close> makes the four cases values, and
  \<open>and_then\<close> is sequential composition: the first operation that does not return
  decides the outcome of the whole. Error results of Go are not outcomes: a function
  that returns \<open>(x, err)\<close> yields an \<open>Inl\<close>/\<open>Inr\<close> sum inside \<open>Ret\<close>.
\<close>

datatype go_panic =
    NilDereference
  | IndexOutOfRange
  | SliceBounds
  | NegativeShift
  | DivideByZero
  | MakeChanSize
  | NilHandler

datatype 'a outcome = Ret 'a | Panic go_panic | Exit | Stuck

fun and_then :: "'a outcome \<Rightarrow> ('a \<Rightarrow> 'b outcome) \<Rightarrow> 'b outcome" where
  "and_then (Ret x) f = f x"
| "and_then (Panic p) f = Panic p"
| "and_then Exit f = Exit"
| "and_then Stuck f = Stuck"

definition returns :: "'a outcome \<Rightarrow> bool" where
  "returns m = (case m of Ret _ \<Rightarrow> True | _ \<Rightarrow> False)"

type_synonym u8 = "8 word"
type_synonym u32 = "32 word"
type_synonym u64 = "64 word"
type_synonym i64 = "64 word"

named_theorems outcome_simps \<open>rewriting outcomes\<close>

lemma and_then_assoc [outcome_simps]:
  "and_then (and_then m f) g = and_then m (\<lambda>x. and_then (f x) g)"
  by (cases m) simp_all

lemma and_then_Ret_right [outcome_simps]: "and_then m Ret = m"
  by (cases m) simp_all

lemma and_then_eq_Ret [outcome_simps]:
  "and_then m f = Ret y \<longleftrightarrow> (\<exists>x. m = Ret x \<and> f x = Ret y)"
  by (cases m) simp_all

lemma and_then_Stuck [outcome_simps]:
  "and_then m f = Stuck \<longleftrightarrow> m = Stuck \<or> (\<exists>x. m = Ret x \<and> f x = Stuck)"
  by (cases m) simp_all

lemma returns_simps [simp]:
  "returns (Ret x)" "\<not> returns (Panic p)" "\<not> returns Exit" "\<not> returns Stuck"
  by (simp_all add: returns_def)

lemma returns_iff: "returns m \<longleftrightarrow> (\<exists>x. m = Ret x)"
  by (cases m) simp_all

text \<open>A \<open>for\<close> loop over a slice whose body can fail to return.\<close>

fun fold_outcome :: "('a \<Rightarrow> 's \<Rightarrow> 's outcome) \<Rightarrow> 'a list \<Rightarrow> 's \<Rightarrow> 's outcome" where
  "fold_outcome f [] s = Ret s"
| "fold_outcome f (x # xs) s = and_then (f x s) (fold_outcome f xs)"

lemma fold_outcome_append:
  "fold_outcome f (xs @ ys) s = and_then (fold_outcome f xs s) (fold_outcome f ys)"
proof (induction xs arbitrary: s)
  case (Cons x xs)
  have "and_then (f x s) (fold_outcome f (xs @ ys))
      = and_then (f x s) (\<lambda>s'. and_then (fold_outcome f xs s') (fold_outcome f ys))"
    by (cases "f x s") (simp_all add: Cons.IH)
  then show ?case by (simp add: and_then_assoc)
qed simp

text \<open>What every step of a loop keeps, the loop keeps.\<close>

lemma fold_outcome_keeps:
  assumes "fold_outcome f xs s = Ret s'" "P s" "\<And>x s s'. x \<in> set xs \<Longrightarrow> P s \<Longrightarrow> f x s = Ret s' \<Longrightarrow> P s'"
  shows "P s'"
  using assms
proof (induction xs arbitrary: s)
  case (Cons x xs)
  then obtain s1 where s1: "f x s = Ret s1" "fold_outcome f xs s1 = Ret s'" by (auto simp: and_then_eq_Ret)
  have "P s1" using Cons.prems(3) [OF _ Cons.prems(2) s1(1)] by simp
  then show ?case by (rule Cons.IH [OF s1(2)]) (rule Cons.prems(3), simp_all)
qed simp

lemma fold_outcome_map: "fold_outcome f (map g xs) = fold_outcome (\<lambda>x. f (g x)) xs"
proof (induction xs)
  case (Cons x xs)
  show ?case by (rule ext) (simp add: Cons.IH)
qed (simp add: fun_eq_iff)

lemma fold_outcome_Ret:
  "(\<And>x s. x \<in> set xs \<Longrightarrow> f x s = Ret (g x s)) \<Longrightarrow> fold_outcome f xs s = Ret (fold g xs s)"
  by (induction xs arbitrary: s) simp_all

subsection \<open>Lists and maps\<close>

lemma take_Suc_nth_map:
  "map f [0..<Suc n] = map f [0..<n] @ [f n]"
  by simp

lemma map_upt_eq_iff:
  "map f [0..<n] = map g [0..<n] \<longleftrightarrow> (\<forall>i<n. f i = g i)"
  by (auto simp: map_eq_conv)

lemma sum_case_same [simp]: "(case x of Inl e \<Rightarrow> Inl e | Inr v \<Rightarrow> Inr v) = x"
  by (cases x) simp_all

end
