(* ===== verification/GoStd.thy ===== *)
theory GoStd
  imports Prelude
begin

text \<open>
  The parts of Go's standard library that the program computes with, modelled as the
  library defines them: \<open>strings.Split\<close> on a one-byte separator, \<open>strconv.Atoi\<close>,
  \<open>strconv.ParseUint\<close> and \<open>strconv.Itoa\<close>, \<open>net.SplitHostPort\<close>, \<open>sort.Search\<close>,
  \<open>crc32.ChecksumIEEE\<close>, \<open>binary.BigEndian\<close> for 16-bit values, shifts of machine
  integers and \<open>http.Header.Get\<close>. A Go string is a byte sequence, here a \<open>char list\<close>.
  The lemmas are the facts the components use: what splitting a joined string gives,
  that \<open>Atoi\<close> inverts \<open>Itoa\<close>, that the binary search finds the first index.
\<close>

unbundle bit_operations_syntax

subsection \<open>Strings\<close>

fun Split :: "string \<Rightarrow> char \<Rightarrow> string list" where
  "Split [] sep = [[]]"
| "Split (x # xs) sep =
     (if x = sep then [] # Split xs sep
      else (case Split xs sep of [] \<Rightarrow> [[x]] | s # ss \<Rightarrow> (x # s) # ss))"

lemma Split_not_Nil [simp]: "Split s sep \<noteq> []"
  by (cases s) (simp_all split: list.splits)

lemma Split_no_sep: "sep \<notin> set s \<Longrightarrow> Split s sep = [s]"
  by (induction s) auto

lemma Split_append:
  "sep \<notin> set s \<Longrightarrow> Split (s @ sep # t) sep = s # Split t sep"
  by (induction s) auto

lemma hd_Split: "hd (Split s sep) = takeWhile (\<lambda>c. c \<noteq> sep) s"
proof (induction s)
  case (Cons x s)
  then show ?case by (cases "Split s sep") auto
qed simp

text \<open>\<open>strings.IndexByte\<close> and \<open>strings.LastIndexByte\<close>; \<open>None\<close> is Go's \<open>-1\<close>.\<close>

fun IndexByte :: "string \<Rightarrow> char \<Rightarrow> nat option" where
  "IndexByte [] c = None"
| "IndexByte (x # xs) c = (if x = c then Some 0 else map_option Suc (IndexByte xs c))"

definition LastIndexByte :: "string \<Rightarrow> char \<Rightarrow> nat option" where
  "LastIndexByte s c = map_option (\<lambda>i. length s - Suc i) (IndexByte (rev s) c)"

lemma IndexByte_None [simp]: "IndexByte s c = None \<longleftrightarrow> c \<notin> set s"
  by (induction s) auto

lemma IndexByte_append: "c \<notin> set s \<Longrightarrow> IndexByte (s @ c # t) c = Some (length s)"
  by (induction s) auto

lemma LastIndexByte_append:
  "c \<notin> set t \<Longrightarrow> LastIndexByte (s @ c # t) c = Some (length s)"
  by (simp add: LastIndexByte_def IndexByte_append [of c "rev t" "rev s"])

subsection \<open>Numbers in decimal and hexadecimal\<close>

datatype num_error = ErrSyntax | ErrRange

text \<open>The value of a digit letter, as \<open>strconv.ParseUint\<close> reads it.\<close>

definition digit_value :: "char \<Rightarrow> nat option" where
  "digit_value c =
     (let n = of_char c :: nat in
      if 48 \<le> n \<and> n \<le> 57 then Some (n - 48)
      else if 97 \<le> n \<and> n \<le> 122 then Some (n - 97 + 10)
      else if 65 \<le> n \<and> n \<le> 90 then Some (n - 65 + 10)
      else None)"

fun ParseUint_loop :: "int \<Rightarrow> string \<Rightarrow> int \<Rightarrow> num_error + int" where
  "ParseUint_loop base [] acc = Inr acc"
| "ParseUint_loop base (c # cs) acc =
     (case digit_value c of
        None \<Rightarrow> Inl ErrSyntax
      | Some d \<Rightarrow>
          if base \<le> int d then Inl ErrSyntax
          else if 2 ^ 64 \<le> acc * base + int d then Inl ErrRange
          else ParseUint_loop base cs (acc * base + int d))"

definition ParseUint :: "string \<Rightarrow> int \<Rightarrow> num_error + int" where
  "ParseUint s base = (if s = [] then Inl ErrSyntax else ParseUint_loop base s 0)"

text \<open>\<open>strconv.Atoi\<close>: an optional sign, then decimal digits, in the range of \<open>int64\<close>.\<close>

definition Atoi :: "string \<Rightarrow> num_error + int" where
  "Atoi s =
     (let (neg, ds) = (case s of
          [] \<Rightarrow> (False, [])
        | c # cs \<Rightarrow> if c = CHR ''-'' then (True, cs)
                    else if c = CHR ''+'' then (False, cs) else (False, s))
      in case ParseUint ds 10 of
           Inl e \<Rightarrow> Inl e
         | Inr n \<Rightarrow>
             if neg then (if 2 ^ 63 < n then Inl ErrRange else Inr (- n))
             else (if 2 ^ 63 \<le> n then Inl ErrRange else Inr n))"

definition digit_char :: "nat \<Rightarrow> char" where
  "digit_char d = char_of (48 + d)"

fun Itoa :: "nat \<Rightarrow> string" where
  "Itoa n = (if n < 10 then [digit_char n] else Itoa (n div 10) @ [digit_char (n mod 10)])"

declare Itoa.simps [simp del]

lemma digit_value_digit_char [simp]: "d < 10 \<Longrightarrow> digit_value (digit_char d) = Some d"
  by (simp add: digit_value_def digit_char_def)

lemma ParseUint_loop_append:
  "ParseUint_loop b (xs @ ys) acc =
     (case ParseUint_loop b xs acc of Inl e \<Rightarrow> Inl e | Inr n \<Rightarrow> ParseUint_loop b ys n)"
  by (induction b xs acc rule: ParseUint_loop.induct) (auto split: option.splits)

lemma ParseUint_loop_Itoa: "n < 2 ^ 64 \<Longrightarrow> ParseUint_loop 10 (Itoa n) 0 = Inr (int n)"
proof (induction n rule: Itoa.induct)
  case (1 n)
  show ?case
  proof (cases "n < 10")
    case True
    then show ?thesis by (simp add: Itoa.simps [of n])
  next
    case False
    with 1 have "ParseUint_loop 10 (Itoa (n div 10)) 0 = Inr (int (n div 10))" by simp
    moreover have "int (n div 10) * 10 + int (n mod 10) = int n"
      by (metis div_mult_mod_eq of_nat_add of_nat_mult of_nat_numeral)
    ultimately show ?thesis
      using False 1(2) by (simp add: Itoa.simps [of n] ParseUint_loop_append del: of_nat_mod of_nat_div)
  qed
qed

lemma Itoa_not_Nil [simp]: "Itoa n \<noteq> []"
  by (subst Itoa.simps) simp

lemma Itoa_digits: "c \<in> set (Itoa n) \<Longrightarrow> \<exists>d<10. c = digit_char d"
proof (induction n rule: Itoa.induct)
  case (1 n)
  have mod: "n mod 10 < 10" by simp
  show ?case
  proof (cases "n < 10")
    case True
    then show ?thesis using 1(2) by (auto simp: Itoa.simps [of n])
  next
    case False
    with 1(2) have "c \<in> set (Itoa (n div 10)) \<or> c = digit_char (n mod 10)"
      by (simp add: Itoa.simps [of n] disj_commute)
    then show ?thesis using 1(1) [OF False] mod by blast
  qed
qed

lemma digit_char_neq:
  assumes "of_char c < (48::nat) \<or> 57 < (of_char c :: nat)" and "d < 10"
  shows "digit_char d \<noteq> c"
proof
  assume "digit_char d = c"
  then have "(of_char c :: nat) = 48 + d"
    using assms(2) by (auto simp: digit_char_def)
  then show False using assms by simp
qed

lemma Itoa_no_char:
  assumes "of_char c < (48::nat) \<or> 57 < (of_char c :: nat)"
  shows "c \<notin> set (Itoa n)"
  using Itoa_digits [of c n] digit_char_neq [OF assms] by auto

lemma Itoa_no_sep [simp]:
  "CHR ''.'' \<notin> set (Itoa n)" "CHR ''/'' \<notin> set (Itoa n)" "CHR '':'' \<notin> set (Itoa n)"
  "CHR ''-'' \<notin> set (Itoa n)" "CHR ''+'' \<notin> set (Itoa n)"
  by (rule Itoa_no_char, simp)+

theorem Atoi_Itoa [simp]: "n < 2 ^ 63 \<Longrightarrow> Atoi (Itoa n) = Inr (int n)"
proof -
  assume n: "n < 2 ^ 63"
  obtain c cs where s: "Itoa n = c # cs" by (cases "Itoa n") auto
  then have "c \<noteq> CHR ''-''" "c \<noteq> CHR ''+''"
    using Itoa_no_sep(4,5) [of n] by auto
  moreover have "ParseUint_loop 10 (c # cs) 0 = Inr (int n)"
    using ParseUint_loop_Itoa [of n] n by (simp add: s)
  ultimately show ?thesis
    using n by (simp add: Atoi_def s ParseUint_def del: ParseUint_loop.simps)
qed

lemma Atoi_Nil [simp]: "Atoi [] = Inl ErrSyntax"
  by (simp add: Atoi_def ParseUint_def)

subsection \<open>Shifts of machine integers\<close>

text \<open>
  A shift count of type \<open>int\<close> that is negative panics. A count of the width or more
  gives 0 on a left shift, which \<open>push_bit\<close> does as well.
\<close>

definition go_shl :: "'a::len word \<Rightarrow> i64 \<Rightarrow> 'a word outcome" where
  "go_shl x count =
     (if sint count < 0 then Panic NegativeShift else Ret (push_bit (nat (sint count)) x))"

text \<open>Octets placed side by side: the disjunction of their shifts is their sum.\<close>

lemma bit_octet_less:
  assumes "n < 256" and "bit (word_of_nat n :: u32) i"
  shows "i < 8"
proof (rule ccontr)
  assume "\<not> i < 8"
  then have "(2::nat) ^ 8 \<le> 2 ^ i" by (intro power_increasing) simp_all
  moreover have "bit n i" using assms(2) by (simp add: bit_simps)
  then have "2 ^ i \<le> n" by (metis bit_iff_odd div_less even_zero not_less)
  ultimately show False using assms(1) by simp
qed

lemma or_octets:
  fixes a b c d :: nat
  assumes "a < 256" "b < 256" "c < 256" "d < 256"
  shows "((push_bit 24 (word_of_nat a) OR push_bit 16 (word_of_nat b))
            OR push_bit 8 (word_of_nat c)) OR word_of_nat d
         = (word_of_nat (a * 2 ^ 24 + b * 2 ^ 16 + c * 2 ^ 8 + d) :: u32)"
proof -
  note octets = assms [THEN bit_octet_less]
  have "word_of_nat (a * 2 ^ 24 + b * 2 ^ 16 + c * 2 ^ 8 + d)
      = ((push_bit 24 (word_of_nat a) + push_bit 16 (word_of_nat b))
          + push_bit 8 (word_of_nat c)) + (word_of_nat d :: u32)"
    by (simp add: push_bit_eq_mult)
  also have "push_bit 24 (word_of_nat a) + push_bit 16 (word_of_nat b)
      = push_bit 24 (word_of_nat a) OR push_bit 16 (word_of_nat b :: u32)"
    by (rule disjunctive_add) (use octets in \<open>fastforce simp: bit_push_bit_iff\<close>)
  also have "\<dots> + push_bit 8 (word_of_nat c) = \<dots> OR push_bit 8 (word_of_nat c)"
    by (rule disjunctive_add) (use octets in \<open>fastforce simp: bit_push_bit_iff bit_or_iff\<close>)
  also have "\<dots> + word_of_nat d = \<dots> OR word_of_nat d"
    by (rule disjunctive_add) (use octets in \<open>fastforce simp: bit_push_bit_iff bit_or_iff\<close>)
  finally show ?thesis by simp
qed

subsection \<open>Host and port\<close>

text \<open>\<open>net.SplitHostPort\<close>; the host and port of an error are empty strings.\<close>

datatype addr_error = MissingPort | TooManyColons | MissingBracket
  | UnexpectedOpen | UnexpectedClose

definition SplitHostPort :: "string \<Rightarrow> addr_error + (string \<times> string)" where
  "SplitHostPort hostport =
     (case LastIndexByte hostport CHR '':'' of
        None \<Rightarrow> Inl MissingPort
      | Some i \<Rightarrow>
         (let bracket_ok = (\<lambda>host j k.
            if CHR ''['' \<in> set (drop j hostport) then Inl UnexpectedOpen
            else if CHR '']'' \<in> set (drop k hostport) then Inl UnexpectedClose
            else Inr (host, drop (Suc i) hostport))
          in if take 1 hostport = ''['' then
               (case IndexByte hostport CHR '']'' of
                  None \<Rightarrow> Inl MissingBracket
                | Some e \<Rightarrow>
                    if Suc e = length hostport then Inl MissingPort
                    else if Suc e = i then bracket_ok (drop 1 (take e hostport)) 1 (Suc e)
                    else if hostport ! Suc e = CHR '':'' then Inl TooManyColons
                    else Inl MissingPort)
             else if CHR '':'' \<in> set (take i hostport) then Inl TooManyColons
             else bracket_ok (take i hostport) 0 0))"

lemma SplitHostPort_plain:
  assumes "CHR '':'' \<notin> set h" "CHR ''['' \<notin> set h" "CHR '']'' \<notin> set h"
    and "CHR '':'' \<notin> set p" "CHR ''['' \<notin> set p" "CHR '']'' \<notin> set p"
  shows "SplitHostPort (h @ CHR '':'' # p) = Inr (h, p)"
proof -
  have "take 1 (h @ CHR '':'' # p) \<noteq> ''[''"
    using assms(2) by (cases h) auto
  with assms show ?thesis
    by (simp add: SplitHostPort_def LastIndexByte_append)
qed

lemma SplitHostPort_no_colon: "CHR '':'' \<notin> set s \<Longrightarrow> SplitHostPort s = Inl MissingPort"
proof -
  assume "CHR '':'' \<notin> set s"
  then have "LastIndexByte s CHR '':'' = None"
    by (simp add: LastIndexByte_def)
  then show ?thesis by (simp add: SplitHostPort_def)
qed

subsection \<open>HTTP headers\<close>

text \<open>
  \<open>http.Header.Get\<close> canonicalises its key (\<open>textproto.CanonicalMIMEHeaderKey\<close>): the
  first letter and every letter after a hyphen in upper case, the others in lower case;
  a key with a byte that is not a token character is left alone.
\<close>

definition is_upper :: "char \<Rightarrow> bool" where
  "is_upper c = (65 \<le> (of_char c :: nat) \<and> (of_char c :: nat) \<le> 90)"

definition is_lower :: "char \<Rightarrow> bool" where
  "is_lower c = (97 \<le> (of_char c :: nat) \<and> (of_char c :: nat) \<le> 122)"

definition to_upper :: "char \<Rightarrow> char" where
  "to_upper c = (if is_lower c then char_of ((of_char c :: nat) - 32) else c)"

definition to_lower :: "char \<Rightarrow> char" where
  "to_lower c = (if is_upper c then char_of ((of_char c :: nat) + 32) else c)"

definition is_token_char :: "char \<Rightarrow> bool" where
  "is_token_char c = (is_upper c \<or> is_lower c
     \<or> (48 \<le> (of_char c :: nat) \<and> (of_char c :: nat) \<le> 57)
     \<or> c \<in> set ''!#$%&*+-.^_`|~'' \<or> (of_char c :: nat) = 39)"

fun canonical_loop :: "bool \<Rightarrow> string \<Rightarrow> string" where
  "canonical_loop upper [] = []"
| "canonical_loop upper (c # cs) =
     (if upper then to_upper c else to_lower c) # canonical_loop (c = CHR ''-'') cs"

definition CanonicalHeaderKey :: "string \<Rightarrow> string" where
  "CanonicalHeaderKey k = (if list_all is_token_char k then canonical_loop True k else k)"

type_synonym http_header = "string \<Rightarrow> string list option"

definition Header_Get :: "http_header \<Rightarrow> string \<Rightarrow> string" where
  "Header_Get h k = (case h (CanonicalHeaderKey k) of Some (v # _) \<Rightarrow> v | _ \<Rightarrow> [])"

lemma canonical_forwarded: "CanonicalHeaderKey ''X-Forwarded-For'' = ''X-Forwarded-For''"
  by code_simp

subsection \<open>Binary search\<close>

text \<open>\<open>sort.Search\<close> and \<open>sort.SearchInts\<close>.\<close>

function Search_loop :: "(nat \<Rightarrow> bool) \<Rightarrow> nat \<Rightarrow> nat \<Rightarrow> nat" where
  "Search_loop f i j =
     (if i < j then
        (let h = (i + j) div 2 in
         if \<not> f h then Search_loop f (h + 1) j else Search_loop f i h)
      else i)"
  by pat_completeness auto
termination
  by (relation "measure (\<lambda>(f, i, j). j - i)") auto

declare Search_loop.simps [simp del]

definition sort_Search :: "nat \<Rightarrow> (nat \<Rightarrow> bool) \<Rightarrow> nat" where
  "sort_Search n f = Search_loop f 0 n"

definition SearchInts :: "int list \<Rightarrow> int \<Rightarrow> nat" where
  "SearchInts a x = sort_Search (length a) (\<lambda>i. a ! i \<ge> x)"

lemma Search_loop_spec:
  assumes "i \<le> j" and "\<And>a b. a \<le> b \<Longrightarrow> b < n \<Longrightarrow> f a \<Longrightarrow> f b" and "j \<le> n"
    and "\<forall>k<i. \<not> f k" and "\<forall>k. j \<le> k \<and> k < n \<longrightarrow> f k"
  shows "Search_loop f i j \<le> n \<and> (\<forall>k<Search_loop f i j. \<not> f k)
    \<and> (\<forall>k. Search_loop f i j \<le> k \<and> k < n \<longrightarrow> f k)"
  using assms
proof (induction f i j rule: Search_loop.induct)
  case (1 f i j)
  show ?case
  proof (cases "i < j")
    case False
    then have "Search_loop f i j = i" by (simp add: Search_loop.simps)
    then show ?thesis using False 1(3-) by auto
  next
    case True
    define h where "h = (i + j) div 2"
    have h: "i \<le> h" "h < j" using True by (auto simp: h_def)
    show ?thesis
    proof (cases "f h")
      case True
      then have "\<forall>k. h \<le> k \<and> k < n \<longrightarrow> f k" using 1(4) by metis
      then have "Search_loop f i h \<le> n \<and> (\<forall>k<Search_loop f i h. \<not> f k)
          \<and> (\<forall>k. Search_loop f i h \<le> k \<and> k < n \<longrightarrow> f k)"
        by (intro 1(2) [OF \<open>i < j\<close> h_def _ h(1) 1(4)]) (use True h 1(5,6) in simp_all)
      moreover have "Search_loop f i j = Search_loop f i h"
        using \<open>i < j\<close> True by (subst Search_loop.simps) (simp add: h_def)
      ultimately show ?thesis by metis
    next
      case False
      have "h < n" using h(2) 1(5) by simp
      with False have "\<forall>k<h + 1. \<not> f k" using 1(4) [of _ h] by (metis Suc_eq_plus1 less_Suc_eq_le)
      then have "Search_loop f (h + 1) j \<le> n \<and> (\<forall>k<Search_loop f (h + 1) j. \<not> f k)
          \<and> (\<forall>k. Search_loop f (h + 1) j \<le> k \<and> k < n \<longrightarrow> f k)"
        by (intro 1(1) [OF \<open>i < j\<close> h_def _ _ 1(4)]) (use False h 1(5,7) in simp_all)
      moreover have "Search_loop f i j = Search_loop f (h + 1) j"
        using \<open>i < j\<close> False by (subst Search_loop.simps) (simp add: h_def)
      ultimately show ?thesis by metis
    qed
  qed
qed

lemma SearchInts_spec:
  assumes "sorted a"
  shows "SearchInts a x \<le> length a" and "k < SearchInts a x \<Longrightarrow> a ! k < x"
    and "SearchInts a x \<le> k \<Longrightarrow> k < length a \<Longrightarrow> x \<le> a ! k"
proof -
  have "SearchInts a x \<le> length a \<and> (\<forall>k<SearchInts a x. \<not> x \<le> a ! k)
      \<and> (\<forall>k. SearchInts a x \<le> k \<and> k < length a \<longrightarrow> x \<le> a ! k)"
    unfolding SearchInts_def sort_Search_def
  proof (rule Search_loop_spec)
    fix i j
    assume "i \<le> j" "j < length a" "x \<le> a ! i"
    then show "x \<le> a ! j" using sorted_nth_mono [OF assms, of i j] by simp
  qed simp_all
  then show "SearchInts a x \<le> length a" and "k < SearchInts a x \<Longrightarrow> a ! k < x"
    and "SearchInts a x \<le> k \<Longrightarrow> k < length a \<Longrightarrow> x \<le> a ! k"
    by (auto simp: not_le)
qed

lemma SearchInts_member:
  assumes "sorted a" and "x \<in> set a"
  shows "SearchInts a x < length a" and "a ! SearchInts a x = x"
proof -
  obtain k where k: "k < length a" "a ! k = x" using assms(2) by (auto simp: in_set_conv_nth)
  then have le: "SearchInts a x \<le> k" using SearchInts_spec(2) [OF assms(1), of k x] by (meson less_irrefl not_le)
  then show less: "SearchInts a x < length a" using k(1) by simp
  have "a ! SearchInts a x \<le> x" using sorted_nth_mono [OF assms(1) le k(1)] k(2) by simp
  then show "a ! SearchInts a x = x" using SearchInts_spec(3) [OF assms(1) order_refl less] by simp
qed

subsection \<open>Checksums and byte order\<close>

text \<open>\<open>crc32.ChecksumIEEE\<close>, bit by bit as the tables of the library are made.\<close>

fun crc32_bits :: "nat \<Rightarrow> u32 \<Rightarrow> u32" where
  "crc32_bits 0 crc = crc"
| "crc32_bits (Suc n) crc =
     crc32_bits n (if crc AND 1 = 1 then (drop_bit 1 crc) XOR 0xEDB88320 else drop_bit 1 crc)"

definition crc32_update :: "u32 \<Rightarrow> char \<Rightarrow> u32" where
  "crc32_update crc c = crc32_bits 8 (crc XOR of_char c)"

definition ChecksumIEEE :: "string \<Rightarrow> u32" where
  "ChecksumIEEE s = NOT (foldl crc32_update 0xffffffff s)"

text \<open>\<open>binary.BigEndian.PutUint16\<close> and \<open>Uint16\<close>.\<close>

type_synonym u16 = "16 word"

definition put_uint16 :: "u16 \<Rightarrow> u8 list" where
  "put_uint16 v = [ucast (drop_bit 8 v), ucast v]"

definition get_uint16 :: "u8 \<Rightarrow> u8 \<Rightarrow> u16" where
  "get_uint16 b0 b1 = ucast b1 OR push_bit 8 (ucast b0)"

lemma get_put_uint16: "put_uint16 v = [b0, b1] \<Longrightarrow> get_uint16 b0 b1 = v"
  by (auto simp: put_uint16_def get_uint16_def intro!: bit_word_eqI) (auto simp: bit_simps)

end
