(* ===== verification/NetUtils.thy ===== *)
theory NetUtils
  imports GoStd
begin

text \<open>
  \<open>utils/net.go\<close>: the address helpers every other component calls. \<open>InetToi\<close> turns
  a dotted address into a 32-bit word, \<open>RemoteIp\<close> picks the address of a client,
  \<open>GetIP\<close> and \<open>GetHost\<close> split and complete host:port strings, \<open>ValidIPAddress\<close>
  classifies an address, \<open>IsBackendAlive\<close> probes a host, \<open>GetOutBoundIP\<close> asks for the own
  address; and \<open>PathExist\<close> of \<open>utils/fileUtils.go\<close>. Name resolution, dialling and the file
  system are parameters. The lemmas say what \<open>InetToi\<close> computes on dotted addresses, with
  its error and panic branches.
\<close>

unbundle bit_operations_syntax

subsection \<open>Host and port\<close>

definition GetIP :: "string \<Rightarrow> string" where
  "GetIP remoteAddr =
     (case SplitHostPort remoteAddr of Inl _ \<Rightarrow> [] | Inr (host, _) \<Rightarrow> host)"

record URL =
  Scheme :: string
  Host :: string

definition GetHost :: "URL \<Rightarrow> string" where
  "GetHost url =
     (case SplitHostPort (Host url) of
        Inr _ \<Rightarrow> Host url
      | Inl _ \<Rightarrow>
          if Scheme url = ''http'' then Host url @ '':'' @ ''80''
          else if Scheme url = ''https'' then Host url @ '':'' @ ''443''
          else Host url)"

text \<open>
  The two network calls are parameters: \<open>resolve\<close> is \<open>net.ResolveTCPAddr\<close> with the
  printed address and the port of its result, \<open>dial\<close> tells whether
  \<open>net.DialTimeout\<close> connects.
\<close>

definition IsBackendAlive ::
  "(string \<Rightarrow> (string \<times> nat) option) \<Rightarrow> (string \<Rightarrow> bool) \<Rightarrow> string \<Rightarrow> bool" where
  "IsBackendAlive resolve dial host =
     (case resolve host of
        None \<Rightarrow> False
      | Some (ip, port) \<Rightarrow> dial (ip @ '':'' @ Itoa port))"

text \<open>\<open>dial\<close> is \<open>net.Dial\<close> with the printed local address of the connection. The address is cut
  at its first colon, so that of an IPv6 interface loses all but its opening bracket.\<close>

definition GetOutBoundIP :: "(string \<Rightarrow> string + string) \<Rightarrow> string \<times> string option" where
  "GetOutBoundIP dial =
     (case dial ''8.8.8.8:53'' of
        Inl err \<Rightarrow> ([], Some err)
      | Inr localAddr \<Rightarrow> (Split localAddr CHR '':'' ! 0, None))"

lemma GetOutBoundIP_ipv4:
  "CHR '':'' \<notin> set ip \<Longrightarrow> dial ''8.8.8.8:53'' = Inr (ip @ CHR '':'' # port) \<Longrightarrow> GetOutBoundIP dial = (ip, None)"
  by (simp add: GetOutBoundIP_def Split_append)

subsection \<open>Files\<close>

text \<open>What \<open>os.Stat\<close> can answer.\<close>

datatype stat_result = StatOk | StatNotExist | StatError string

definition PathExist :: "(string \<Rightarrow> stat_result) \<Rightarrow> string \<Rightarrow> bool \<times> string option" where
  "PathExist stat path =
     (case stat path of
        StatOk \<Rightarrow> (True, None)
      | StatNotExist \<Rightarrow> (False, None)
      | StatError err \<Rightarrow> (False, Some err))"

subsection \<open>Dotted addresses\<close>

fun InetToi_loop :: "string list \<Rightarrow> i64 \<Rightarrow> u32 \<Rightarrow> (u32 \<times> num_error option) outcome" where
  "InetToi_loop [] pos ret = Ret (ret, None)"
| "InetToi_loop (ipSeg # ipSegs) pos ret =
     (case Atoi ipSeg of
        Inl err \<Rightarrow> Ret (0, Some err)
      | Inr n \<Rightarrow>
          and_then (go_shl (word_of_int n :: i64) pos) (\<lambda>tempInt.
            InetToi_loop ipSegs (pos - 8) (ret OR ucast tempInt)))"

definition InetToi :: "string \<Rightarrow> (u32 \<times> num_error option) outcome" where
  "InetToi ip = InetToi_loop (Split ip CHR ''.'') 24 0"

subsection \<open>The client's address\<close>

record http_request =
  RemoteAddr :: string
  Header :: http_header
  Path :: string

definition RemoteIp :: "http_request \<Rightarrow> string" where
  "RemoteIp req =
     (if RemoteAddr req \<noteq> [] then RemoteAddr req
      else if Header_Get (Header req) ''ipv4'' \<noteq> [] then Header_Get (Header req) ''ipv4''
      else if Header_Get (Header req) ''XForwardedFor'' \<noteq> []
        then Header_Get (Header req) ''XForwardedFor''
      else if Header_Get (Header req) ''X-Forwarded-For'' \<noteq> []
        then Header_Get (Header req) ''X-Forwarded-For''
      else if Header_Get (Header req) ''X-Real-Ip'' \<noteq> []
        then Header_Get (Header req) ''X-Real-Ip''
      else ''127.0.0.1'')"

subsection \<open>Classification of addresses\<close>

fun valid_v4_segments :: "string list \<Rightarrow> bool" where
  "valid_v4_segments [] = True"
| "valid_v4_segments (s # sp) =
     (if 1 < length s \<and> hd s = CHR ''0'' then False
      else (case Atoi s of
              Inl _ \<Rightarrow> False
            | Inr v \<Rightarrow> if 255 < v then False else valid_v4_segments sp))"

fun valid_v6_segments :: "string list \<Rightarrow> bool" where
  "valid_v6_segments [] = True"
| "valid_v6_segments (s # sp) =
     (if 4 < length s then False
      else (case ParseUint s 16 of Inl _ \<Rightarrow> False | Inr _ \<Rightarrow> valid_v6_segments sp))"

definition ValidIPAddress :: "string \<Rightarrow> string" where
  "ValidIPAddress queryIP =
     (if length (Split queryIP CHR ''.'') = 4
      then (if valid_v4_segments (Split queryIP CHR ''.'') then ''IPv4'' else ''Neither'')
      else if length (Split queryIP CHR '':'') = 8
      then (if valid_v6_segments (Split queryIP CHR '':'') then ''IPv6'' else ''Neither'')
      else ''Neither'')"

subsection \<open>What the dotted form denotes\<close>

definition dotted :: "nat \<Rightarrow> nat \<Rightarrow> nat \<Rightarrow> nat \<Rightarrow> string" where
  "dotted a b c d = Itoa a @ ''.'' @ Itoa b @ ''.'' @ Itoa c @ ''.'' @ Itoa d"

definition ipv4 :: "nat \<Rightarrow> nat \<Rightarrow> nat \<Rightarrow> nat \<Rightarrow> u32" where
  "ipv4 a b c d = of_nat (a * 2 ^ 24 + b * 2 ^ 16 + c * 2 ^ 8 + d)"

lemma Split_dotted: "Split (dotted a b c d) CHR ''.'' = [Itoa a, Itoa b, Itoa c, Itoa d]"
  by (simp add: dotted_def Split_append Split_no_sep)

lemma go_shl_positions [simp]:
  "go_shl x 24 = Ret (push_bit 24 x)" "go_shl x 16 = Ret (push_bit 16 x)"
  "go_shl x 8 = Ret (push_bit 8 x)" "go_shl x 0 = Ret x"
  "go_shl x (- 8) = Panic NegativeShift"
  by (simp_all add: go_shl_def)

lemma ucast_octet [simp]:
  "ucast (push_bit k (word_of_nat n :: i64)) = (push_bit k (word_of_nat n) :: u32)"
  "ucast (word_of_nat n :: i64) = (word_of_nat n :: u32)"
  by (rule bit_word_eqI; auto simp: bit_simps)+

lemma InetToi_ipv4:
  assumes "a < 256" "b < 256" "c < 256" "d < 256"
  shows "InetToi (dotted a b c d) = Ret (ipv4 a b c d, None)"
  using assms or_octets [OF assms] by (simp add: InetToi_def Split_dotted ipv4_def)

text \<open>
  The loop shifts by 24, 16, 8, 0 and then by a negative count: the fifth number panics,
  unless an earlier segment is not a number.
\<close>

definition numeric :: "string \<Rightarrow> bool" where
  "numeric s = (case Atoi s of Inl _ \<Rightarrow> False | Inr _ \<Rightarrow> True)"

lemma InetToi_loop_short:
  "length segs \<le> 4 \<Longrightarrow> \<exists>r. InetToi_loop segs 24 ret = Ret r"
proof -
  assume "length segs \<le> 4"
  then consider "segs = []" | s1 where "segs = [s1]" | s1 s2 where "segs = [s1, s2]"
    | s1 s2 s3 where "segs = [s1, s2, s3]" | s1 s2 s3 s4 where "segs = [s1, s2, s3, s4]"
    by (auto simp: le_Suc_eq numeral_eq_Suc length_Suc_conv)
  then show ?thesis by cases (auto split: sum.splits)
qed

lemma InetToi_loop_long:
  "list_all numeric [s1, s2, s3, s4, s5] \<Longrightarrow>
     InetToi_loop (s1 # s2 # s3 # s4 # s5 # rest) 24 ret = Panic NegativeShift"
  "\<not> list_all numeric [s1, s2, s3, s4, s5] \<Longrightarrow>
     returns (InetToi_loop (s1 # s2 # s3 # s4 # s5 # rest) 24 ret)"
  by (auto simp: numeric_def split: sum.splits)

lemma InetToi_not_numeric: "\<not> numeric s \<Longrightarrow> \<exists>e. InetToi_loop (s # segs) pos ret = Ret (0, Some e)"
  by (auto simp: numeric_def split: sum.splits)

lemma InetToi_error_zero: "InetToi ip = Ret (i, Some e) \<Longrightarrow> i = 0"
proof -
  have "InetToi_loop segs pos ret = Ret (i, Some e) \<Longrightarrow> i = 0" for segs pos ret
    by (induction segs pos ret rule: InetToi_loop.induct)
      (auto simp: and_then_eq_Ret split: sum.splits)
  then show "InetToi ip = Ret (i, Some e) \<Longrightarrow> i = 0" by (simp add: InetToi_def)
qed

subsection \<open>Properties\<close>

text \<open>A dotted quad with octets below 256 converts to the 32-bit word with these
  octets, most significant first, and without an error.\<close>

theorem InetToi_dotted_quad:
  assumes "a < 256" "b < 256" "c < 256" "d < 256"
  shows "InetToi (dotted a b c d) = Ret (ipv4 a b c d, None)
    \<and> unat (ipv4 a b c d) = a * 2 ^ 24 + b * 2 ^ 16 + c * 2 ^ 8 + d"
proof -
  have "a * 2 ^ 24 + b * 2 ^ 16 + c * 2 ^ 8 + d < 2 ^ 32" using assms by simp
  then have "unat (ipv4 a b c d) = a * 2 ^ 24 + b * 2 ^ 16 + c * 2 ^ 8 + d"
    unfolding ipv4_def by (simp only: unat_of_nat) simp
  then show ?thesis using InetToi_ipv4 [OF assms] by simp
qed

theorem InetToi_dotted_quad_witness:
  "InetToi ''192.168.3.1'' = Ret (0xC0A80301, None)"
proof -
  have "dotted 192 168 3 1 = ''192.168.3.1''" by code_simp
  moreover have "ipv4 192 168 3 1 = 0xC0A80301" by (simp add: ipv4_def)
  ultimately show ?thesis using InetToi_dotted_quad [of 192 168 3 1] by simp
qed

text \<open>\<open>InetToi\<close> returns on every input except one kind: when the address has five or
  more dot-separated segments and the first five all parse as integers, the fifth shift
  has a negative count and the call panics.\<close>

theorem InetToi_outcome:
  "if 5 \<le> length (Split ip CHR ''.'') \<and> list_all numeric (take 5 (Split ip CHR ''.''))
   then InetToi ip = Panic NegativeShift else returns (InetToi ip)"
proof (cases "5 \<le> length (Split ip CHR ''.'')")
  case True
  then obtain s1 s2 s3 s4 s5 rest where segs: "Split ip CHR ''.'' = s1 # s2 # s3 # s4 # s5 # rest"
    by (auto simp: numeral_eq_Suc Suc_le_length_iff)
  show ?thesis
    using InetToi_loop_long [of s1 s2 s3 s4 s5 rest 0] by (simp add: InetToi_def segs del: InetToi_loop.simps)
next
  case False
  then show ?thesis using InetToi_loop_short [of "Split ip CHR ''.''" 0]
    by (auto simp: InetToi_def returns_iff)
qed

text \<open>The address of a client is never empty, and the headers are consulted only
  where the connection has no remote address: a client cannot choose the address that
  access control sees by sending a header.\<close>

theorem RemoteIp_ignores_headers:
  "RemoteIp req \<noteq> []
    \<and> (RemoteAddr req \<noteq> [] \<longrightarrow> RemoteIp (req\<lparr>Header := h\<rparr>) = RemoteAddr req)"
  by (auto simp: RemoteIp_def)

theorem RemoteIp_ignores_headers_witness:
  "RemoteIp \<lparr>RemoteAddr = ''10.0.0.7:4711'',
     Header = [''X-Forwarded-For'' \<mapsto> [''1.2.3.4'']], Path = ''/api/x''\<rparr> = ''10.0.0.7:4711''"
  using RemoteIp_ignores_headers
    [of "\<lparr>RemoteAddr = ''10.0.0.7:4711'', Header = Map.empty, Path = ''/api/x''\<rparr>"
      "[''X-Forwarded-For'' \<mapsto> [''1.2.3.4'']]"]
  by simp

text \<open>A backend whose resolved address contains a colon (IPv6) is never alive:
  \<open>IsBackendAlive\<close> joins address and port without brackets, and dialling refuses what
  \<open>net.SplitHostPort\<close> refuses.\<close>

theorem IsBackendAlive_IPv6:
  assumes dial_checks_address: "\<And>a e. SplitHostPort a = Inl e \<Longrightarrow> \<not> dial a"
    and "resolve host = Some (ip, port)" and "CHR '':'' \<in> set ip" and "hd ip \<noteq> CHR ''[''"
  shows "\<not> IsBackendAlive resolve dial host"
proof -
  have "take 1 (ip @ CHR '':'' # Itoa port) \<noteq> ''[''"
    using assms(3,4) by (cases ip) auto
  then have "SplitHostPort (ip @ CHR '':'' # Itoa port) = Inl TooManyColons"
    using assms(3) by (simp add: SplitHostPort_def LastIndexByte_append)
  then show ?thesis
    using dial_checks_address assms(2) by (simp add: IsBackendAlive_def)
qed

theorem IsBackendAlive_IPv6_witness:
  "\<not> IsBackendAlive (\<lambda>_. Some (''2001:db8::1'', 80))
       (\<lambda>a. case SplitHostPort a of Inl _ \<Rightarrow> False | Inr _ \<Rightarrow> True) ''backend:80''"
  by (rule IsBackendAlive_IPv6 [where ip = "''2001:db8::1''" and port = 80]) auto

end
