(* ===== verification/RadixTree.thy ===== *)
theory RadixTree
  imports NetUtils
begin

text \<open>
  \<open>acl/radix_tree.go\<close>, operation by operation, over an explicit store: nodes live at
  addresses, \<open>nil\<close> is \<open>None\<close>, and a write through a pointer updates the store. The
  store is needed because the free list of the tree shares its nodes with the tree:
  \<open>newNode\<close> hands a node of the free list out again without clearing its children.
  Loops bounded by the mask are total functions; the loops that only follow pointers
  (\<open>search\<close> and the pruning loop of \<open>delete\<close>) are \<open>partial_function (option)\<close>, with
  \<open>None\<close> for a loop that never ends.
\<close>

unbundle bit_operations_syntax

type_synonym addr = nat

record radixNode =
  right :: "addr option"
  left :: "addr option"
  parent :: "addr option"
  node_value :: string

record RadixTree =
  root :: addr
  free :: "addr option"
  Record :: "string \<Rightarrow> bool option"
  nodes :: "addr \<Rightarrow> radixNode"
  next_addr :: addr

definition MAX_IPV4_BIT :: u32 where
  "MAX_IPV4_BIT = 0x80000000"

abbreviation NO_VALUE :: string where
  "NO_VALUE \<equiv> []"

datatype acl_error = InvaildIpAddress | InvaildNetMask | CantFindIpNet | AtoiError num_error

definition nil_node :: radixNode where
  "nil_node = \<lparr>right = None, left = None, parent = None, node_value = NO_VALUE\<rparr>"

definition NewRadixTree :: RadixTree where
  "NewRadixTree = \<lparr>root = 0, free = None, Record = Map.empty,
     nodes = (\<lambda>_. nil_node), next_addr = 1\<rparr>"

subsection \<open>Writes through pointers\<close>

definition set_right :: "addr \<Rightarrow> addr option \<Rightarrow> RadixTree \<Rightarrow> RadixTree" where
  "set_right a p t = t\<lparr>nodes := (nodes t)(a := (nodes t a)\<lparr>right := p\<rparr>)\<rparr>"

definition set_left :: "addr \<Rightarrow> addr option \<Rightarrow> RadixTree \<Rightarrow> RadixTree" where
  "set_left a p t = t\<lparr>nodes := (nodes t)(a := (nodes t a)\<lparr>left := p\<rparr>)\<rparr>"

definition set_parent :: "addr \<Rightarrow> addr option \<Rightarrow> RadixTree \<Rightarrow> RadixTree" where
  "set_parent a p t = t\<lparr>nodes := (nodes t)(a := (nodes t a)\<lparr>parent := p\<rparr>)\<rparr>"

definition set_value :: "addr \<Rightarrow> string \<Rightarrow> RadixTree \<Rightarrow> RadixTree" where
  "set_value a v t = t\<lparr>nodes := (nodes t)(a := (nodes t a)\<lparr>node_value := v\<rparr>)\<rparr>"

text \<open>The child on the side of the current bit.\<close>

definition child :: "(addr \<Rightarrow> radixNode) \<Rightarrow> u32 \<Rightarrow> u32 \<Rightarrow> addr \<Rightarrow> addr option" where
  "child h key b node = (if key AND b \<noteq> 0 then right (h node) else left (h node))"

definition set_child :: "u32 \<Rightarrow> u32 \<Rightarrow> addr \<Rightarrow> addr option \<Rightarrow> RadixTree \<Rightarrow> RadixTree" where
  "set_child key b node p t =
     (if key AND b \<noteq> 0 then set_right node p t else set_left node p t)"

subsection \<open>Insertion\<close>

text \<open>
  A node of the free list is returned as it is: its \<open>right\<close> still links to the next
  free node.
\<close>

definition newNode :: "RadixTree \<Rightarrow> addr \<times> RadixTree" where
  "newNode t =
     (case free t of
        Some node \<Rightarrow> (node, t\<lparr>free := right (nodes t node)\<rparr>)
      | None \<Rightarrow> (next_addr t, t\<lparr>nodes := (nodes t)(next_addr t := nil_node),
                               next_addr := Suc (next_addr t)\<rparr>))"

lemma unat_shift_less:
  assumes "b AND m \<noteq> 0"
  shows "unat (drop_bit (Suc 0) b) < unat (b :: u32)"
proof -
  from assms have "b \<noteq> 0" by auto
  then have "0 < unat b" by (simp add: unat_gt_0)
  moreover have "unat (drop_bit (Suc 0) b) = unat b div 2"
    by (simp add: drop_bit_Suc unat_div_distrib)
  ultimately show ?thesis by simp
qed

function insert_walk ::
  "(addr \<Rightarrow> radixNode) \<Rightarrow> u32 \<Rightarrow> u32 \<Rightarrow> u32 \<Rightarrow> addr \<Rightarrow> addr option \<Rightarrow> u32 \<times> addr \<times> addr option" where
  "insert_walk h key m b node nxt =
     (if b AND m \<noteq> 0 then
        (case child h key b node of
           None \<Rightarrow> (b, node, None)
         | Some n \<Rightarrow> insert_walk h key m (drop_bit 1 b) n (Some n))
      else (b, node, nxt))"
  by pat_completeness auto
termination
  by (relation "measure (\<lambda>(h, key, m, b, node, nxt). unat b)") (auto intro: unat_shift_less)

declare insert_walk.simps [simp del]

function insert_extend ::
  "u32 \<Rightarrow> u32 \<Rightarrow> u32 \<Rightarrow> addr \<Rightarrow> RadixTree \<Rightarrow> addr \<times> RadixTree" where
  "insert_extend key m b node t =
     (if b AND m \<noteq> 0 then
        (let (nxt, t1) = newNode t;
             t2 = set_parent nxt (Some node) t1;
             t3 = set_value nxt NO_VALUE t2;
             t4 = set_child key b node (Some nxt) t3
         in insert_extend key m (drop_bit 1 b) nxt t4)
      else (node, t))"
  by pat_completeness auto
termination
  by (relation "measure (\<lambda>(key, m, b, node, t). unat b)") (auto intro: unat_shift_less)

declare insert_extend.simps [simp del]

definition RadixTree_insert :: "u32 \<Rightarrow> u32 \<Rightarrow> string \<Rightarrow> RadixTree \<Rightarrow> RadixTree" where
  "RadixTree_insert key m value t =
     (let (b, node, nxt) =
            insert_walk (nodes t) key m MAX_IPV4_BIT (root t) (Some (root t))
      in if nxt \<noteq> None then set_value node value t
         else (let (node', t') = insert_extend key m b node t
               in set_value node' value t'))"

text \<open>\<open>((1 << (32 - cidr)) - 1) ^ 0xffffffff\<close>, with \<open>cidr\<close> a 64-bit \<open>int\<close>.\<close>

definition cidr_mask :: "int \<Rightarrow> u32 outcome" where
  "cidr_mask cidr =
     and_then (go_shl (1 :: u32) (32 - word_of_int cidr)) (\<lambda>s. Ret ((s - 1) XOR 0xffffffff))"

definition RadixTree_Add ::
  "string \<Rightarrow> string \<Rightarrow> RadixTree \<Rightarrow> (acl_error option \<times> RadixTree) outcome" where
  "RadixTree_Add ipNet value t =
     (let strs = Split ipNet CHR ''/'' in
      and_then (InetToi (hd strs)) (\<lambda>(ip, err).
        if err \<noteq> None then Ret (Some InvaildIpAddress, t)
        else if length strs < 2 then Ret (Some InvaildIpAddress, t)
        else (case Atoi (strs ! 1) of
                Inl e \<Rightarrow> Ret (Some (AtoiError e), t)
              | Inr cidr \<Rightarrow>
                  and_then (cidr_mask cidr) (\<lambda>netMask.
                    let t' = RadixTree_insert ip netMask value t
                    in Ret (None, t'\<lparr>Record := (Record t')(ipNet \<mapsto> True)\<rparr>)))))"

subsection \<open>Search\<close>

partial_function (option) search_loop ::
  "(addr \<Rightarrow> radixNode) \<Rightarrow> u32 \<Rightarrow> u32 \<Rightarrow> addr option \<Rightarrow> string \<Rightarrow> string option" where
  "search_loop h key b node value =
     (case node of
        None \<Rightarrow> Some value
      | Some n \<Rightarrow>
          search_loop h key (drop_bit 1 b) (child h key b n)
            (if node_value (h n) \<noteq> NO_VALUE then node_value (h n) else value))"

declare search_loop.simps [code]

definition RadixTree_search :: "RadixTree \<Rightarrow> u32 \<Rightarrow> string option" where
  "RadixTree_search t key = search_loop (nodes t) key MAX_IPV4_BIT (Some (root t)) NO_VALUE"

definition RadixTree_Search :: "RadixTree \<Rightarrow> string \<Rightarrow> string outcome" where
  "RadixTree_Search t ip =
     and_then (InetToi ip) (\<lambda>(i, _).
       case RadixTree_search t i of None \<Rightarrow> Stuck | Some v \<Rightarrow> Ret v)"

definition RadixTree_AccessControl :: "RadixTree \<Rightarrow> string \<Rightarrow> bool outcome" where
  "RadixTree_AccessControl t ipAddress =
     (let ip = hd (Split ipAddress CHR '':'')
      in and_then (RadixTree_Search t ip) (\<lambda>v. Ret (v \<noteq> [])))"

text \<open>The keys of \<open>Record\<close>, in whatever order the runtime iterates over the map.\<close>

definition RadixTree_GetBlackList :: "RadixTree \<Rightarrow> string list \<Rightarrow> bool" where
  "RadixTree_GetBlackList t res \<longleftrightarrow> distinct res \<and> set res = dom (Record t)"

subsection \<open>Deletion\<close>

function delete_walk ::
  "(addr \<Rightarrow> radixNode) \<Rightarrow> u32 \<Rightarrow> u32 \<Rightarrow> u32 \<Rightarrow> addr option \<Rightarrow> addr option" where
  "delete_walk h key m b node =
     (case node of
        None \<Rightarrow> None
      | Some n \<Rightarrow>
          if b AND m \<noteq> 0 then delete_walk h key m (drop_bit 1 b) (child h key b n)
          else Some n)"
  by pat_completeness auto
termination
  by (relation "measure (\<lambda>(h, key, m, b, node). unat b)") (auto intro: unat_shift_less)

declare delete_walk.simps [simp del]

text \<open>One round of the loop that unlinks a leaf and climbs to its parent.\<close>

partial_function (option) prune :: "addr \<Rightarrow> RadixTree \<Rightarrow> RadixTree outcome option" where
  "prune node t =
     (case parent (nodes t node) of
        None \<Rightarrow> Some (Panic NilDereference)
      | Some p \<Rightarrow>
          let t1 = (if right (nodes t p) = Some node then set_right p None t
                    else set_left p None t);
              t2 = set_right node (free t1) t1;
              t3 = t2\<lparr>free := Some node\<rparr>
          in case parent (nodes t3 node) of
               None \<Rightarrow> Some (Panic NilDereference)
             | Some q \<Rightarrow>
                 if right (nodes t3 q) \<noteq> None \<or> left (nodes t3 q) \<noteq> None then Some (Ret t3)
                 else if node_value (nodes t3 q) \<noteq> NO_VALUE then Some (Ret t3)
                 else if parent (nodes t3 q) = None then Some (Ret t3)
                 else prune q t3)"

declare prune.simps [code]

definition RadixTree_delete :: "u32 \<Rightarrow> u32 \<Rightarrow> RadixTree \<Rightarrow> (bool \<times> RadixTree) outcome" where
  "RadixTree_delete key m t =
     (case delete_walk (nodes t) key m MAX_IPV4_BIT (Some (root t)) of
        None \<Rightarrow> Ret (False, t)
      | Some node \<Rightarrow>
          if right (nodes t node) \<noteq> None \<or> left (nodes t node) \<noteq> None then
            (if node_value (nodes t node) \<noteq> NO_VALUE
             then Ret (True, set_value node NO_VALUE t)
             else Ret (False, t))
          else (case prune node t of
                  None \<Rightarrow> Stuck
                | Some r \<Rightarrow> and_then r (\<lambda>t'. Ret (True, t'))))"

definition RadixTree_Delete ::
  "string \<Rightarrow> RadixTree \<Rightarrow> (acl_error option \<times> RadixTree) outcome" where
  "RadixTree_Delete ipNet t =
     (let strs = Split ipNet CHR ''/'' in
      and_then (InetToi (hd strs)) (\<lambda>(ip, err).
        if err \<noteq> None \<or> length strs < 2 then Ret (Some InvaildIpAddress, t)
        else (case Atoi (strs ! 1) of
                Inl e \<Rightarrow> Ret (Some InvaildNetMask, t)
              | Inr cidr \<Rightarrow>
                  if cidr < 0 \<or> 32 < cidr then Ret (Some InvaildNetMask, t)
                  else
                    and_then (cidr_mask cidr) (\<lambda>netMask.
                    and_then (RadixTree_delete ip netMask t) (\<lambda>(ret, t').
                      if ret then Ret (None, t'\<lparr>Record := (Record t')(ipNet := None)\<rparr>)
                      else Ret (Some CantFindIpNet, t'))))))"

end
