(* ===== verification/PrefixTrie.thy ===== *)
theory PrefixTrie
  imports GoStd
begin

text \<open>
  The specification side of the access control list: a binary trie without addresses or
  a free list, and the CIDR blocks it stands for. An entry sits at the path of the first
  bits of an address; a lookup takes the deepest entry on the path of the address. The
  empty string is the absence of an entry, as in \<open>acl/radix_tree.go\<close>. The lemmas give
  the content of the trie after insertion and deletion, and connect paths of bits with
  masks on 32-bit words.
\<close>

unbundle bit_operations_syntax

subsection \<open>Paths of address bits\<close>

text \<open>Bit \<open>d\<close> of the path is the bit of weight \<open>2 ^ (31 - d)\<close>; after 32 bits it is 0.\<close>

definition kbit :: "u32 \<Rightarrow> nat \<Rightarrow> bool" where
  "kbit key d = (d < 32 \<and> bit key (31 - d))"

primrec bits_from :: "(nat \<Rightarrow> bool) \<Rightarrow> nat \<Rightarrow> nat \<Rightarrow> bool list" where
  "bits_from f d 0 = []"
| "bits_from f d (Suc n) = f d # bits_from f (Suc d) n"

definition key_path :: "u32 \<Rightarrow> nat \<Rightarrow> bool list" where
  "key_path key c = bits_from (kbit key) 0 c"

definition netmask :: "nat \<Rightarrow> u32" where
  "netmask c = NOT (mask (32 - c))"

lemma length_bits_from [simp]: "length (bits_from f d n) = n"
  by (induction n arbitrary: d) simp_all

lemma length_key_path [simp]: "length (key_path key c) = c"
  by (simp add: key_path_def)

lemma key_path_0 [simp]: "key_path key 0 = []"
  by (simp add: key_path_def)

lemma key_path_Nil [simp]: "key_path key c = [] \<longleftrightarrow> c = 0"
  by (metis length_0_conv length_key_path)

lemma bits_from_eq_iff: "bits_from f d n = bits_from g d n \<longleftrightarrow> (\<forall>i. d \<le> i \<and> i < d + n \<longrightarrow> f i = g i)"
proof (induction n arbitrary: d)
  case (Suc n)
  have range: "d \<le> i \<and> i < d + Suc n \<longleftrightarrow> i = d \<or> (Suc d \<le> i \<and> i < Suc d + n)" for i
    by auto
  have "(\<forall>i. d \<le> i \<and> i < d + Suc n \<longrightarrow> f i = g i)
    \<longleftrightarrow> f d = g d \<and> (\<forall>i. Suc d \<le> i \<and> i < Suc d + n \<longrightarrow> f i = g i)"
    unfolding range by blast
  then show ?case by (simp add: Suc.IH)
qed auto

lemma key_path_eq_iff: "key_path k c = key_path k' c \<longleftrightarrow> (\<forall>d<c. kbit k d = kbit k' d)"
  by (simp add: key_path_def bits_from_eq_iff)

lemma bit_netmask: "bit (netmask c) i \<longleftrightarrow> 32 - c \<le> i \<and> i < 32"
  by (auto simp: netmask_def bit_simps)

text \<open>Two addresses lie in the same block of length \<open>c\<close> exactly when they agree under
  its mask.\<close>

lemma key_path_netmask:
  assumes "c \<le> 32"
  shows "key_path k c = key_path k' c \<longleftrightarrow> k AND netmask c = k' AND netmask c"
proof
  assume eq: "key_path k c = key_path k' c"
  show "k AND netmask c = k' AND netmask c"
  proof (rule bit_word_eqI)
    fix i assume i: "i < LENGTH(32)"
    show "bit (k AND netmask c) i = bit (k' AND netmask c) i"
    proof (cases "32 - c \<le> i")
      case True
      with i assms have d: "31 - i < c" "31 - i < 32" "31 - (31 - i) = i" by auto
      have "kbit k (31 - i) = kbit k' (31 - i)"
        using eq d(1) by (simp add: key_path_eq_iff)
      then have "bit k i = bit k' i" using d by (simp add: kbit_def)
      then show ?thesis by (simp add: bit_and_iff)
    qed (simp add: bit_and_iff bit_netmask)
  qed
next
  assume eq: "k AND netmask c = k' AND netmask c"
  have "kbit k d = kbit k' d" if "d < c" for d
  proof -
    have "bit (k AND netmask c) (31 - d) = bit (k' AND netmask c) (31 - d)"
      by (simp add: eq)
    with that assms show ?thesis by (auto simp: kbit_def bit_and_iff bit_netmask)
  qed
  then show "key_path k c = key_path k' c" by (simp add: key_path_eq_iff)
qed

subsection \<open>The trie\<close>

datatype trie = Empty | Branch string trie trie

fun t_entry :: "trie \<Rightarrow> bool list \<Rightarrow> string" where
  "t_entry Empty p = []"
| "t_entry (Branch v l r) [] = v"
| "t_entry (Branch v l r) (b # p) = t_entry (if b then r else l) p"

fun t_insert :: "bool list \<Rightarrow> string \<Rightarrow> trie \<Rightarrow> trie" where
  "t_insert [] v Empty = Branch v Empty Empty"
| "t_insert [] v (Branch w l r) = Branch v l r"
| "t_insert (b # p) v Empty =
     (if b then Branch [] Empty (t_insert p v Empty) else Branch [] (t_insert p v Empty) Empty)"
| "t_insert (b # p) v (Branch w l r) =
     (if b then Branch w l (t_insert p v r) else Branch w (t_insert p v l) r)"

text \<open>Deletion prunes the branch upwards while it neither forks nor holds a value.\<close>

definition shrink :: "string \<Rightarrow> trie \<Rightarrow> trie \<Rightarrow> trie" where
  "shrink v l r = (if v = [] \<and> l = Empty \<and> r = Empty then Empty else Branch v l r)"

fun t_delete :: "bool list \<Rightarrow> trie \<Rightarrow> trie" where
  "t_delete p Empty = Empty"
| "t_delete [] (Branch v l r) = shrink [] l r"
| "t_delete (b # p) (Branch v l r) =
     (if b then shrink v l (t_delete p r) else shrink v (t_delete p l) r)"

text \<open>Search along the bits \<open>f d\<close>, \<open>f (d + 1)\<close>, ..., keeping the last value seen.\<close>

fun t_search :: "(nat \<Rightarrow> bool) \<Rightarrow> nat \<Rightarrow> trie \<Rightarrow> string \<Rightarrow> string" where
  "t_search f d Empty acc = acc"
| "t_search f d (Branch v l r) acc =
     t_search f (Suc d) (if f d then r else l) (if v \<noteq> [] then v else acc)"

text \<open>Every leaf holds a value: what deletion keeps and what makes its answer right.\<close>

fun leaves_full :: "trie \<Rightarrow> bool" where
  "leaves_full Empty = True"
| "leaves_full (Branch v l r) =
     ((l = Empty \<and> r = Empty \<longrightarrow> v \<noteq> []) \<and> leaves_full l \<and> leaves_full r)"

named_theorems trie_simps \<open>content of a trie after an operation\<close>

lemma t_entry_insert [trie_simps]:
  "t_entry (t_insert p v t) q = (if p = q then v else t_entry t q)"
proof (induction p v t arbitrary: q rule: t_insert.induct)
  case (1 v) then show ?case by (cases q) auto
next
  case (2 v w l r) then show ?case by (cases q) auto
next
  case (3 b p v) then show ?case by (cases q) auto
next
  case (4 b p v w l r) then show ?case by (cases q) auto
qed

lemma t_entry_shrink [trie_simps]: "t_entry (shrink v l r) q = t_entry (Branch v l r) q"
  by (cases q) (auto simp: shrink_def)

lemma t_entry_delete [trie_simps]:
  "t_entry (t_delete p t) q = (if p = q then [] else t_entry t q)"
proof (induction p t arbitrary: q rule: t_delete.induct)
  case (2 v l r) then show ?case by (cases q) (auto simp: trie_simps)
next
  case (3 b p v l r) then show ?case by (cases q) (auto simp: trie_simps)
qed auto

lemma t_insert_not_Empty [simp]: "t_insert p v t \<noteq> Empty"
  by (cases "(p, v, t)" rule: t_insert.cases) auto

lemma t_insert_blank: "t_insert p v (Branch [] Empty Empty) = t_insert p v Empty"
  by (cases p) simp_all

lemma leaves_full_insert: "v \<noteq> [] \<Longrightarrow> leaves_full t \<Longrightarrow> leaves_full (t_insert p v t)"
  by (induction p v t rule: t_insert.induct) auto

lemma leaves_full_delete: "leaves_full t \<Longrightarrow> leaves_full (t_delete p t)"
  by (induction p t rule: t_delete.induct) (auto simp: shrink_def)

text \<open>
  The value found is that of the longest prefix of the address with an entry, and
  nothing is found exactly when no prefix has an entry.
\<close>

lemma t_search_cases:
  "(t_search f d t acc = acc \<and> (\<forall>n. t_entry t (bits_from f d n) = []))
   \<or> (\<exists>n. t_entry t (bits_from f d n) = t_search f d t acc \<and> t_search f d t acc \<noteq> []
        \<and> (\<forall>m>n. t_entry t (bits_from f d m) = []))"
proof (induction t arbitrary: d acc)
  case (Branch v l r)
  let ?c = "if f d then r else l" and ?acc = "if v \<noteq> [] then v else acc"
  let ?found = "t_search f (Suc d) ?c ?acc"
  have step: "t_entry (Branch v l r) (bits_from f d m) =
    (case m of 0 \<Rightarrow> v | Suc n \<Rightarrow> t_entry ?c (bits_from f (Suc d) n))" for m
    by (cases m) simp_all
  have IH: "(?found = ?acc \<and> (\<forall>n. t_entry ?c (bits_from f (Suc d) n) = []))
    \<or> (\<exists>n. t_entry ?c (bits_from f (Suc d) n) = ?found \<and> ?found \<noteq> []
        \<and> (\<forall>m>n. t_entry ?c (bits_from f (Suc d) m) = []))"
    using Branch.IH(1) [of "Suc d" ?acc] Branch.IH(2) [of "Suc d" ?acc]
    by (cases "f d") (simp_all only: if_True if_False)
  from IH show ?case
  proof (elim disjE exE conjE)
    assume found: "?found = ?acc" and none: "\<forall>n. t_entry ?c (bits_from f (Suc d) n) = []"
    show ?thesis
    proof (cases "v = []")
      case True
      have "t_entry (Branch v l r) (bits_from f d n) = []" for n
        using none True unfolding step by (cases "f d") (simp_all split: nat.split)
      then show ?thesis using found True by simp
    next
      case False
      then show ?thesis using found none
        by (intro disjI2 exI [of _ 0]) (auto simp: step split: nat.split)
    qed
  next
    fix n
    assume "t_entry ?c (bits_from f (Suc d) n) = ?found" "?found \<noteq> []"
      "\<forall>m>n. t_entry ?c (bits_from f (Suc d) m) = []"
    then show ?thesis
      by (intro disjI2 exI [of _ "Suc n"]) (auto simp: step split: nat.split)
  qed
qed simp

lemma t_search_empty_iff:
  "t_search f 0 t [] = [] \<longleftrightarrow> (\<forall>n. t_entry t (bits_from f 0 n) = [])"
  using t_search_cases [of f 0 t "[]"] by auto

end
