(* ===== verification/RadixRefine.thy ===== *)
theory RadixRefine
  imports RadixTree PrefixTrie
begin

text \<open>
  The store of \<open>RadixTree\<close> refines the tries of \<open>PrefixTrie\<close>. \<open>rep\<close> relates the
  pointers below an address to a trie annotated with addresses; distinct addresses say
  that the nodes form a tree. While the free list is empty, insertion refines
  \<open>t_insert\<close>; search refines \<open>t_search\<close> and returns; deletion refines \<open>t_delete\<close>,
  whatever the free list.
\<close>

unbundle bit_operations_syntax

subsection \<open>The bit of a depth\<close>

definition depth_bit :: "nat \<Rightarrow> u32" where
  "depth_bit d = drop_bit d MAX_IPV4_BIT"

lemma depth_bit_0: "MAX_IPV4_BIT = depth_bit 0"
  by (simp add: depth_bit_def)

lemma depth_bit_Suc: "drop_bit (Suc 0) (depth_bit d) = depth_bit (Suc d)"
  by (simp add: depth_bit_def)

lemma bit_MAX_IPV4_BIT: "bit MAX_IPV4_BIT i \<longleftrightarrow> i = 31"
proof -
  have "MAX_IPV4_BIT = push_bit 31 1" by (simp add: MAX_IPV4_BIT_def)
  moreover have "bit (push_bit 31 (1 :: u32)) i \<longleftrightarrow> i = 31"
    unfolding bit_push_bit_iff by auto
  ultimately show ?thesis by (simp only:)
qed

lemma bit_depth_bit: "bit (depth_bit d) i \<longleftrightarrow> d < 32 \<and> i = 31 - d"
  by (auto simp: depth_bit_def bit_drop_bit_eq bit_MAX_IPV4_BIT)

lemma and_depth_bit: "x AND depth_bit d \<noteq> 0 \<longleftrightarrow> kbit x d"
proof
  assume "x AND depth_bit d \<noteq> 0"
  then obtain i where "bit (x AND depth_bit d) i" by (auto simp: bit_eq_iff)
  then show "kbit x d" by (auto simp: kbit_def bit_and_iff bit_depth_bit)
next
  assume "kbit x d"
  then have "bit (x AND depth_bit d) (31 - d)" by (simp add: kbit_def bit_and_iff bit_depth_bit)
  then show "x AND depth_bit d \<noteq> 0" by auto
qed

lemma depth_bit_netmask:
  assumes "c \<le> 32"
  shows "depth_bit d AND netmask c \<noteq> 0 \<longleftrightarrow> d < c"
proof -
  have "depth_bit d AND netmask c \<noteq> 0 \<longleftrightarrow> kbit (netmask c) d"
    by (metis and.commute and_depth_bit)
  with assms show ?thesis by (auto simp: kbit_def bit_netmask)
qed

lemma child_depth_bit: "child h key (depth_bit d) a = (if kbit key d then right (h a) else left (h a))"
  by (simp add: child_def and_depth_bit)

lemma set_child_depth_bit:
  "set_child key (depth_bit d) a p t = (if kbit key d then set_right a p t else set_left a p t)"
  by (simp add: set_child_def and_depth_bit)

subsection \<open>The pointer structure of a trie\<close>

datatype atrie = ATip | ANode addr string atrie atrie

primrec strip :: "atrie \<Rightarrow> trie" where
  "strip ATip = Empty"
| "strip (ANode a v l r) = Branch v (strip l) (strip r)"

primrec addrs :: "atrie \<Rightarrow> addr list" where
  "addrs ATip = []"
| "addrs (ANode a v l r) = a # addrs l @ addrs r"

fun rep :: "(addr \<Rightarrow> radixNode) \<Rightarrow> addr option \<Rightarrow> addr option \<Rightarrow> atrie \<Rightarrow> bool" where
  "rep h par p ATip \<longleftrightarrow> p = None"
| "rep h par p (ANode a v l r) \<longleftrightarrow>
     p = Some a \<and> parent (h a) = par \<and> node_value (h a) = v
     \<and> rep h (Some a) (left (h a)) l \<and> rep h (Some a) (right (h a)) r"

lemma strip_Empty [simp]: "strip A = Empty \<longleftrightarrow> A = ATip"
  by (cases A) simp_all

lemma rep_frame: "(\<And>a. a \<in> set (addrs A) \<Longrightarrow> h' a = h a) \<Longrightarrow> rep h par p A \<Longrightarrow> rep h' par p A"
  by (induction A arbitrary: par p) auto

lemma rep_upd [simp]: "x \<notin> set (addrs A) \<Longrightarrow> rep (h(x := y)) par p A \<longleftrightarrow> rep h par p A"
  by (intro iffI; erule rep_frame [rotated]) auto

lemma rep_None [simp]: "rep h par None A \<longleftrightarrow> A = ATip"
  by (cases A) simp_all

lemma rep_Some: "rep h par (Some a) A \<Longrightarrow> \<exists>v l r. A = ANode a v l r"
  by (cases A) auto

lemma rep_parent: "rep h par (Some a) A \<Longrightarrow> parent (h a) = par"
  by (cases A) auto

text \<open>A tree of the store stands for the trie \<open>T\<close>.\<close>

definition sep :: "RadixTree \<Rightarrow> atrie \<Rightarrow> bool" where
  "sep t A \<longleftrightarrow> distinct (addrs A) \<and> (\<forall>a \<in> set (addrs A). a < next_addr t)"

definition denotes :: "RadixTree \<Rightarrow> trie \<Rightarrow> bool" where
  "denotes t T \<longleftrightarrow> (\<exists>A. rep (nodes t) None (Some (root t)) A \<and> sep t A \<and> strip A = T)"

lemma denotes_New: "denotes NewRadixTree (Branch [] Empty Empty)"
  unfolding denotes_def
  by (rule exI [of _ "ANode 0 [] ATip ATip"]) (simp add: NewRadixTree_def nil_node_def sep_def)

lemma denotes_not_Empty: "\<not> denotes t Empty"
  by (auto simp: denotes_def)

subsection \<open>Search\<close>

lemma search_loop_rep:
  "rep (nodes t) par p A \<Longrightarrow>
   search_loop (nodes t) key (depth_bit d) p acc = Some (t_search (kbit key) d (strip A) acc)"
proof (induction A arbitrary: par p d acc)
  case ATip
  then show ?case by (simp add: search_loop.simps)
next
  case (ANode a v l r)
  show ?case
    using ANode.prems
    by (auto simp: search_loop.simps [of _ _ _ "Some a"] child_depth_bit depth_bit_Suc
        ANode.IH(1) [where par = "Some a"] ANode.IH(2) [where par = "Some a"])
qed

lemma search_denotes:
  "denotes t T \<Longrightarrow> RadixTree_search t key = Some (t_search (kbit key) 0 T [])"
  by (auto simp: denotes_def RadixTree_search_def depth_bit_0 search_loop_rep)

subsection \<open>Insertion\<close>

text \<open>
  What an operation below address \<open>a\<close> leaves behind: a trie there, made of the old
  nodes and new ones, and every other node as it was.
\<close>

definition sub_post :: "RadixTree \<Rightarrow> RadixTree \<Rightarrow> addr option \<Rightarrow> addr \<Rightarrow> atrie \<Rightarrow> trie \<Rightarrow> bool" where
  "sub_post t t' par a A T \<longleftrightarrow>
     (\<exists>A'. rep (nodes t') par (Some a) A' \<and> strip A' = T \<and> distinct (addrs A')
        \<and> set (addrs A') \<subseteq> set (addrs A) \<union> {next_addr t..<next_addr t'})
     \<and> (\<forall>x. x < next_addr t \<and> x \<notin> set (addrs A) \<longrightarrow> nodes t' x = nodes t x)
     \<and> next_addr t \<le> next_addr t' \<and> root t' = root t \<and> Record t' = Record t"

definition ins_post :: "RadixTree \<Rightarrow> RadixTree \<Rightarrow> addr option \<Rightarrow> addr \<Rightarrow> atrie \<Rightarrow> trie \<Rightarrow> bool" where
  "ins_post t t' par a A T \<longleftrightarrow> sub_post t t' par a A T \<and> free t' = None"

lemma sub_post_denotes:
  assumes "sub_post t t' None (root t) A T" "sep t A"
  shows "denotes t' T"
  using assms unfolding sub_post_def denotes_def sep_def by fastforce

lemma sub_post_join:
  assumes rep: "rep (nodes t) par (Some a) (ANode a w l r)" and sep: "sep t (ANode a w l r)"
    and post: "sub_post t t' (Some a) c (if k then r else l) T"
    and link: "(if k then right (nodes t a) else left (nodes t a)) = Some c"
  shows "sub_post t t' par a (ANode a w l r)
           (if k then Branch w (strip l) T else Branch w T (strip r))"
proof -
  let ?C = "if k then r else l" and ?S = "if k then l else r"
  from post obtain C' where C': "rep (nodes t') (Some a) (Some c) C'" "strip C' = T"
      "distinct (addrs C')" "set (addrs C') \<subseteq> set (addrs ?C) \<union> {next_addr t..<next_addr t'}"
    and frame: "\<And>x. x < next_addr t \<Longrightarrow> x \<notin> set (addrs ?C) \<Longrightarrow> nodes t' x = nodes t x"
    and rest: "next_addr t \<le> next_addr t'" "root t' = root t" "Record t' = Record t"
    unfolding sub_post_def by blast
  have a: "a < next_addr t" "a \<notin> set (addrs l)" "a \<notin> set (addrs r)"
    and bounds: "\<And>x. x \<in> set (addrs l) \<Longrightarrow> x < next_addr t" "\<And>x. x \<in> set (addrs r) \<Longrightarrow> x < next_addr t"
    and disj: "set (addrs l) \<inter> set (addrs r) = {}" "distinct (addrs l)" "distinct (addrs r)"
    using sep by (auto simp: sep_def)
  have same: "nodes t' a = nodes t a" using frame a by (cases k) auto
  have sib: "rep (nodes t') (Some a) q ?S" if "rep (nodes t) (Some a) q ?S" for q
    by (rule rep_frame [OF _ that], rule frame) (use disj bounds in \<open>cases k; auto\<close>)+
  let ?A' = "if k then ANode a w l C' else ANode a w C' r"
  have "rep (nodes t') par (Some a) ?A'"
    using rep link C'(1) sib same by (cases k) auto
  moreover have "distinct (addrs ?A')"
    using C'(3,4) a bounds disj by (cases k) (fastforce simp: subset_iff)+
  moreover have "set (addrs ?A') \<subseteq> set (addrs (ANode a w l r)) \<union> {next_addr t..<next_addr t'}"
    using C'(4) by (cases k) auto
  moreover have "strip ?A' = (if k then Branch w (strip l) T else Branch w T (strip r))"
    using C'(2) by simp
  moreover have "\<forall>x. x < next_addr t \<and> x \<notin> set (addrs (ANode a w l r)) \<longrightarrow> nodes t' x = nodes t x"
    using frame by auto
  ultimately show ?thesis
    unfolding sub_post_def using rest by blast
qed

lemma sub_post_set_value:
  assumes "rep (nodes t) par (Some a) (ANode a w l r)" "sep t (ANode a w l r)"
  shows "sub_post t (set_value a v t) par a (ANode a w l r) (Branch v (strip l) (strip r))"
proof -
  from assms have "rep (nodes (set_value a v t)) par (Some a) (ANode a v l r)"
    by (auto simp: set_value_def sep_def)
  with assms show ?thesis
    unfolding sub_post_def
    by (intro conjI exI [of _ "ANode a v l r"]) (auto simp: set_value_def sep_def)
qed

lemma ins_post_set_value:
  assumes "rep (nodes t) par (Some a) (ANode a w l r)" "sep t (ANode a w l r)" "free t = None"
  shows "ins_post t (set_value a v t) par a (ANode a w l r) (Branch v (strip l) (strip r))"
  using sub_post_set_value [OF assms(1,2)] assms(3) by (simp add: ins_post_def set_value_def)

text \<open>A fresh node linked below \<open>a\<close>: one round of the second loop of \<open>insert\<close>.\<close>

definition grow :: "u32 \<Rightarrow> nat \<Rightarrow> addr \<Rightarrow> RadixTree \<Rightarrow> RadixTree" where
  "grow key d a t =
     (let (n, t1) = newNode t
      in set_child key (depth_bit d) a (Some n) (set_value n NO_VALUE (set_parent n (Some a) t1)))"

lemma grow_simps:
  assumes "free t = None" "a < next_addr t"
  shows "nodes (grow key d a t) =
      (nodes t)(next_addr t := nil_node\<lparr>parent := Some a\<rparr>,
         a := (if kbit key d then (nodes t a)\<lparr>right := Some (next_addr t)\<rparr>
               else (nodes t a)\<lparr>left := Some (next_addr t)\<rparr>))"
    and "next_addr (grow key d a t) = Suc (next_addr t)"
    and "free (grow key d a t) = None" "root (grow key d a t) = root t"
    and "Record (grow key d a t) = Record t"
  using assms
  by (auto simp: grow_def newNode_def set_child_depth_bit set_right_def set_left_def
      set_value_def set_parent_def nil_node_def fun_eq_iff)

lemma insert_extend_grow:
  assumes "free t = None" "d < c" "c \<le> 32"
  shows "insert_extend key (netmask c) (depth_bit d) a t =
     insert_extend key (netmask c) (depth_bit (Suc d)) (next_addr t) (grow key d a t)"
  using assms depth_bit_netmask [of c d]
  by (subst insert_extend.simps) (simp add: grow_def newNode_def depth_bit_Suc Let_def)

definition extend_at :: "u32 \<Rightarrow> u32 \<Rightarrow> u32 \<Rightarrow> addr \<Rightarrow> string \<Rightarrow> RadixTree \<Rightarrow> RadixTree" where
  "extend_at key m b a v t = (let (n, t') = insert_extend key m b a t in set_value n v t')"

lemma grow_rep:
  assumes rep: "rep (nodes t) par (Some a) (ANode a w l r)" and sep: "sep t (ANode a w l r)"
    and fl: "free t = None" and tip: "(if kbit key d then r else l) = ATip"
  defines "C \<equiv> ANode (next_addr t) [] ATip ATip"
  defines "A \<equiv> (if kbit key d then ANode a w l C else ANode a w C r)"
  shows "rep (nodes (grow key d a t)) par (Some a) A" "sep (grow key d a t) A"
    and "rep (nodes (grow key d a t)) (Some a) (Some (next_addr t)) C"
    and "sep (grow key d a t) C"
proof -
  have a: "a < next_addr t" using sep by (simp add: sep_def)
  note g = grow_simps [OF fl a, of key d]
  have new: "next_addr t \<notin> set (addrs l)" "next_addr t \<notin> set (addrs r)"
    using sep by (auto simp: sep_def)
  show "rep (nodes (grow key d a t)) par (Some a) A"
    using rep sep a tip new by (auto simp: A_def C_def g sep_def nil_node_def split: if_splits)
  show "sep (grow key d a t) A"
    using sep tip by (auto simp: A_def C_def g sep_def less_Suc_eq split: if_splits)
  show "rep (nodes (grow key d a t)) (Some a) (Some (next_addr t)) C"
    using a by (auto simp: C_def g nil_node_def)
  show "sep (grow key d a t) C" by (simp add: C_def sep_def g)
qed

lemma extend_post:
  assumes "c \<le> 32" "free t = None"
    and "rep (nodes t) par (Some a) (ANode a w l r)" "sep t (ANode a w l r)"
    and "d < c \<Longrightarrow> (if kbit key d then r else l) = ATip"
  shows "ins_post t (extend_at key (netmask c) (depth_bit d) a v t) par a (ANode a w l r)
           (t_insert (bits_from (kbit key) d (c - d)) v (Branch w (strip l) (strip r)))"
  using assms
proof (induction "c - d" arbitrary: d a w l r t par)
  case 0
  then have "\<not> d < c" by simp
  then have "extend_at key (netmask c) (depth_bit d) a v t = set_value a v t"
    using depth_bit_netmask [OF \<open>c \<le> 32\<close>] by (simp add: extend_at_def insert_extend.simps [of _ _ "depth_bit d"])
  with 0 show ?case using ins_post_set_value [OF "0.prems"(3,4,2)] by simp
next
  case (Suc n)
  then have d: "d < c" by simp
  let ?g = "grow key d a t" and ?C = "ANode (next_addr t) [] ATip ATip"
  let ?A = "if kbit key d then ANode a w l ?C else ANode a w ?C r"
  let ?T = "t_insert (bits_from (kbit key) (Suc d) (c - Suc d)) v Empty"
  have a: "a < next_addr t" using Suc.prems(4) by (simp add: sep_def)
  note g = grow_simps [OF Suc.prems(2) a, of key d]
  note gr = grow_rep [OF Suc.prems(3,4,2) Suc.prems(5) [OF d]]
  have ext: "extend_at key (netmask c) (depth_bit d) a v t =
      extend_at key (netmask c) (depth_bit (Suc d)) (next_addr t) v ?g"
    using insert_extend_grow [OF Suc.prems(2) d Suc.prems(1)] by (simp add: extend_at_def)
  let ?t' = "extend_at key (netmask c) (depth_bit (Suc d)) (next_addr t) v ?g"
  have IH: "ins_post ?g ?t' (Some a) (next_addr t) ?C ?T"
    using Suc.hyps(1) [of "Suc d" ?g "Some a" "next_addr t" "[]" ATip ATip] Suc.hyps(2) Suc.prems(1) gr(3,4) g(3)
    by (simp add: t_insert_blank)
  have "ins_post ?g ?t' par a ?A
     (if kbit key d then Branch w (strip l) ?T else Branch w ?T (strip r))"
    using sub_post_join [of ?g par a w "if kbit key d then l else ?C" "if kbit key d then ?C else r"
        ?t' "next_addr t" "kbit key d" ?T] gr(1,2) IH
    by (simp add: ins_post_def g(1) a split: if_splits)
  moreover have "bits_from (kbit key) d (c - d) = kbit key d # bits_from (kbit key) (Suc d) (c - Suc d)"
    using d by (metis Suc_diff_Suc bits_from.simps(2))
  ultimately have "ins_post ?g ?t' par a ?A
     (t_insert (bits_from (kbit key) d (c - d)) v (Branch w (strip l) (strip r)))"
    using Suc.prems(5) [OF d] by (cases "kbit key d") simp_all
  then show ?case
    unfolding ext using a Suc.prems(5) [OF d]
    by (cases "kbit key d") (fastforce simp: ins_post_def sub_post_def g)+
qed

text \<open>The two loops of \<open>insert\<close>, started at any node of the path.\<close>

definition insert_at ::
  "u32 \<Rightarrow> u32 \<Rightarrow> u32 \<Rightarrow> addr \<Rightarrow> addr option \<Rightarrow> string \<Rightarrow> RadixTree \<Rightarrow> RadixTree" where
  "insert_at key m b a nxt v t =
     (let (b', node, n) = insert_walk (nodes t) key m b a nxt
      in if n \<noteq> None then set_value node v t else extend_at key m b' node v t)"

lemma RadixTree_insert_at:
  "RadixTree_insert key m v t = insert_at key m MAX_IPV4_BIT (root t) (Some (root t)) v t"
  unfolding RadixTree_insert_def insert_at_def extend_at_def Let_def by (rule refl)

lemma insert_at_step:
  assumes "c \<le> 32"
  shows "insert_at key (netmask c) (depth_bit d) a (Some a) v t =
     (if d < c then
        (case child (nodes t) key (depth_bit d) a of
           None \<Rightarrow> extend_at key (netmask c) (depth_bit d) a v t
         | Some n \<Rightarrow> insert_at key (netmask c) (depth_bit (Suc d)) n (Some n) v t)
      else set_value a v t)"
  using depth_bit_netmask [OF assms, of d]
  by (auto simp: insert_at_def insert_walk.simps [of _ _ _ "depth_bit d"] depth_bit_Suc split: option.splits)

lemma insert_at_post:
  assumes "c \<le> 32" "free t = None"
    and "rep (nodes t) par (Some a) A" "sep t A"
  shows "ins_post t (insert_at key (netmask c) (depth_bit d) a (Some a) v t) par a A
           (t_insert (bits_from (kbit key) d (c - d)) v (strip A))"
  using assms(3,4)
proof (induction A arbitrary: par a d)
  case (ANode a' w l r)
  let ?k = "kbit key d"
  let ?c = "child (nodes t) key (depth_bit d) a"
  have [simp]: "a' = a" using ANode.prems(1) by simp
  note node = ANode.prems [unfolded \<open>a' = a\<close>]
  consider "\<not> d < c" | "d < c" "?c = None" | n where "d < c" "?c = Some n" by (cases ?c) auto
  then show ?case
  proof cases
    case 1
    then show ?thesis using ins_post_set_value [OF node assms(2)] assms(1) by (simp add: insert_at_step)
  next
    case 2
    then have "(if ?k then r else l) = ATip"
      using node(1) by (auto simp: child_depth_bit)
    then show ?thesis
      using extend_post [OF assms(1,2) node, of d key v] 2 assms(1) by (simp add: insert_at_step)
  next
    case 3
    have link: "(if ?k then right (nodes t a) else left (nodes t a)) = Some n"
      using 3(2) by (simp add: child_depth_bit)
    let ?p = "bits_from (kbit key) (Suc d) (c - Suc d)"
    let ?t' = "insert_at key (netmask c) (depth_bit (Suc d)) n (Some n) v t"
    have "ins_post t ?t' (Some a) n (if ?k then r else l) (t_insert ?p v (strip (if ?k then r else l)))"
      using link node ANode.IH(1) [of "Some a" n "Suc d"] ANode.IH(2) [of "Some a" n "Suc d"]
      by (cases ?k) (auto simp: sep_def)
    then have "ins_post t ?t' par a (ANode a w l r)
        (if ?k then Branch w (strip l) (t_insert ?p v (strip r)) else Branch w (t_insert ?p v (strip l)) (strip r))"
      using sub_post_join [OF node _ link, of ?t' "t_insert ?p v (strip (if ?k then r else l))"]
      by (cases ?k) (simp_all add: ins_post_def)
    then have "ins_post t ?t' par a (ANode a w l r) (t_insert (?k # ?p) v (Branch w (strip l) (strip r)))"
      by (cases ?k) simp_all
    moreover have "bits_from (kbit key) d (c - d) = ?k # ?p"
      using 3(1) by (metis Suc_diff_Suc bits_from.simps(2))
    ultimately show ?thesis using 3 assms(1) by (simp add: insert_at_step)
  qed
qed simp

lemma insert_denotes:
  fixes key :: u32 and v :: string
  assumes "denotes t T" "free t = None" "c \<le> 32"
  defines "t' \<equiv> RadixTree_insert key (netmask c) v t"
  shows "denotes t' (t_insert (key_path key c) v T)" "free t' = None" "Record t' = Record t"
proof -
  from assms obtain A where A: "rep (nodes t) None (Some (root t)) A" "sep t A" "strip A = T"
    by (auto simp: denotes_def)
  have post: "ins_post t t' None (root t) A (t_insert (key_path key c) v T)"
    using insert_at_post [OF assms(3,2) A(1,2), of key 0 v] A(3)
    by (simp add: t'_def RadixTree_insert_at depth_bit_0 key_path_def)
  then show "free t' = None" "Record t' = Record t" by (simp_all add: ins_post_def sub_post_def)
  from post A(2) show "denotes t' (t_insert (key_path key c) v T)"
    by (auto simp: ins_post_def intro: sub_post_denotes)
qed

subsection \<open>Deletion\<close>

definition unlink :: "addr \<Rightarrow> addr \<Rightarrow> RadixTree \<Rightarrow> RadixTree" where
  "unlink x p t =
     (let t1 = (if right (nodes t p) = Some x then set_right p None t else set_left p None t);
          t2 = set_right x (free t1) t1
      in t2\<lparr>free := Some x\<rparr>)"

lemma unlink_frame [simp]:
  "next_addr (unlink x p t) = next_addr t" "root (unlink x p t) = root t"
  "Record (unlink x p t) = Record t" "parent (nodes (unlink x p t) y) = parent (nodes t y)"
  "node_value (nodes (unlink x p t) y) = node_value (nodes t y)"
  "y \<noteq> x \<Longrightarrow> y \<noteq> p \<Longrightarrow> nodes (unlink x p t) y = nodes t y"
  by (simp_all add: unlink_def set_right_def set_left_def Let_def)

lemma prune_unlink:
  assumes "parent (nodes t x) = Some p"
  shows "prune x t = (let t3 = unlink x p t in
     if right (nodes t3 p) \<noteq> None \<or> left (nodes t3 p) \<noteq> None
        \<or> node_value (nodes t3 p) \<noteq> [] \<or> parent (nodes t3 p) = None
     then Some (Ret t3) else prune p t3)"
proof -
  have "prune x t = (case parent (nodes t x) of
      None \<Rightarrow> Some (Panic NilDereference)
    | Some p \<Rightarrow>
        let t3 = unlink x p t
        in case parent (nodes t3 x) of
             None \<Rightarrow> Some (Panic NilDereference)
           | Some q \<Rightarrow>
               if right (nodes t3 q) \<noteq> None \<or> left (nodes t3 q) \<noteq> None then Some (Ret t3)
               else if node_value (nodes t3 q) \<noteq> [] then Some (Ret t3)
               else if parent (nodes t3 q) = None then Some (Ret t3)
               else prune q t3)"
    unfolding unlink_def Let_def by (subst prune.simps) (simp only: Let_def)
  with assms show ?thesis by (simp add: Let_def)
qed

lemma unlink_rep:
  assumes "rep (nodes t) par (Some a) (ANode a w l r)" "distinct (addrs (ANode a w l r))"
    and "(if k then r else l) = ANode x v ATip ATip"
  shows "rep (nodes (unlink x a t)) par (Some a) (if k then ANode a w l ATip else ANode a w ATip r)"
proof (cases k)
  case True
  with assms show ?thesis
    by (auto simp: unlink_def set_right_def Let_def)
next
  case False
  then have "right (nodes t a) \<noteq> Some x" using assms by (cases r) auto
  with False assms show ?thesis
    by (auto simp: unlink_def set_right_def set_left_def Let_def)
qed

text \<open>The leaf that a path leads to, and any node.\<close>

fun addr_at :: "atrie \<Rightarrow> bool list \<Rightarrow> addr option" where
  "addr_at ATip p = None"
| "addr_at (ANode a v l r) [] = Some a"
| "addr_at (ANode a v l r) (b # p) = addr_at (if b then r else l) p"

fun sub_at :: "trie \<Rightarrow> bool list \<Rightarrow> trie" where
  "sub_at T [] = T"
| "sub_at Empty (b # p) = Empty"
| "sub_at (Branch v l r) (b # p) = sub_at (if b then r else l) p"

lemma addr_at_in: "addr_at A p = Some x \<Longrightarrow> x \<in> set (addrs A)"
  by (induction A p rule: addr_at.induct) (auto split: if_splits)

lemma sub_at_Empty [simp]: "sub_at Empty p = Empty"
  by (cases p) simp_all

lemma addr_at_None: "addr_at A p = None \<longleftrightarrow> sub_at (strip A) p = Empty"
  by (induction A p rule: addr_at.induct) simp_all

lemma delete_walk_rep:
  assumes "c \<le> 32"
  shows "rep (nodes t) par p A \<Longrightarrow>
    delete_walk (nodes t) key (netmask c) (depth_bit d) p = addr_at A (bits_from (kbit key) d (c - d))"
proof (induction A arbitrary: par p d)
  case ATip
  then show ?case by (simp add: delete_walk.simps)
next
  case (ANode a v l r)
  show ?case
  proof (cases "d < c")
    case True
    then have "bits_from (kbit key) d (c - d) = kbit key d # bits_from (kbit key) (Suc d) (c - Suc d)"
      by (metis Suc_diff_Suc bits_from.simps(2))
    with True ANode show ?thesis using depth_bit_netmask [OF assms, of d]
      by (auto simp: delete_walk.simps [of _ _ _ _ "Some a"] child_depth_bit depth_bit_Suc)
  next
    case False
    with ANode show ?thesis using depth_bit_netmask [OF assms, of d]
      by (auto simp: delete_walk.simps [of _ _ _ _ "Some a"])
  qed
qed

text \<open>The code never removes the root node.\<close>

definition keep_root :: "trie \<Rightarrow> trie" where
  "keep_root T = (if T = Empty then Branch [] Empty Empty else T)"

lemma sub_post_refl:
  "rep (nodes t) par (Some a) A \<Longrightarrow> sep t A \<Longrightarrow> sub_post t t par a A (strip A)"
  by (auto simp: sub_post_def sep_def)

lemma sub_post_unlink:
  assumes post: "sub_post t t' par a A (if k then Branch w L (Branch v Empty Empty) else Branch w (Branch v Empty Empty) L)"
    and link: "(if k then right (nodes t' a) else left (nodes t' a)) = Some c"
    and A: "a \<in> set (addrs A)" "\<forall>x\<in>set (addrs A). x < next_addr t" "next_addr t' = next_addr t"
  shows "sub_post t (unlink c a t') par a A (if k then Branch w L Empty else Branch w Empty L)"
    and "(right (nodes (unlink c a t') a) \<noteq> None \<or> left (nodes (unlink c a t') a) \<noteq> None) \<longleftrightarrow> L \<noteq> Empty"
    and "node_value (nodes (unlink c a t') a) = w" "parent (nodes (unlink c a t') a) = par"
proof -
  from post obtain A' where A': "rep (nodes t') par (Some a) A'" "distinct (addrs A')"
      "strip A' = (if k then Branch w L (Branch v Empty Empty) else Branch w (Branch v Empty Empty) L)"
      "set (addrs A') \<subseteq> set (addrs A)"
    and frame: "\<And>x. x < next_addr t \<Longrightarrow> x \<notin> set (addrs A) \<Longrightarrow> nodes t' x = nodes t x"
    and rest: "root t' = root t" "Record t' = Record t"
    using A(3) by (auto simp: sub_post_def)
  from A'(1,3) obtain l r where lr: "A' = ANode a w l r" "(if k then strip l else strip r) = L"
      "(if k then strip r else strip l) = Branch v Empty Empty"
    by (cases A'; cases k) auto
  have "(if k then r else l) = ANode c v ATip ATip"
    using lr(1,3) link A'(1) by (cases k; cases l; cases r) auto
  note un = unlink_rep [OF A'(1,2) [unfolded lr(1)] this]
  have c: "c \<in> set (addrs A)"
    using \<open>(if k then r else l) = ANode c v ATip ATip\<close> lr(1) A'(4) by (cases k) auto
  let ?A = "if k then ANode a w l ATip else ANode a w ATip r"
  show "sub_post t (unlink c a t') par a A (if k then Branch w L Empty else Branch w Empty L)"
    unfolding sub_post_def
  proof (intro conjI exI [of _ ?A])
    show "rep (nodes (unlink c a t')) par (Some a) ?A" by (rule un)
    show "\<forall>x. x < next_addr t \<and> x \<notin> set (addrs A) \<longrightarrow> nodes (unlink c a t') x = nodes t x"
      using frame c A(1) by (auto intro!: trans [OF unlink_frame(6)])
  qed (use A' lr rest A(3) in \<open>auto split: if_splits\<close>)
  show "(right (nodes (unlink c a t') a) \<noteq> None \<or> left (nodes (unlink c a t') a) \<noteq> None) \<longleftrightarrow> L \<noteq> Empty"
    using un lr(2) by (cases k; cases l; cases r) auto
  show "node_value (nodes (unlink c a t') a) = w" "parent (nodes (unlink c a t') a) = par"
    using un by (auto split: if_splits)
qed

definition climbs :: "RadixTree \<Rightarrow> addr \<Rightarrow> addr option \<Rightarrow> addr \<Rightarrow> atrie \<Rightarrow> bool" where
  "climbs t x par a A \<longleftrightarrow>
     (\<exists>t' v. prune x t = prune a t' \<and> next_addr t' = next_addr t
        \<and> sub_post t t' par a A (Branch v Empty Empty))"

definition stops :: "RadixTree \<Rightarrow> addr \<Rightarrow> addr option \<Rightarrow> addr \<Rightarrow> atrie \<Rightarrow> trie \<Rightarrow> bool" where
  "stops t x par a A T \<longleftrightarrow>
     (\<exists>t'. prune x t = Some (Ret t') \<and> next_addr t' = next_addr t
        \<and> sub_post t t' par a A (keep_root T))"

text \<open>
  One level of the climb: the child \<open>c\<close> on side \<open>k\<close> has become a leaf and is unlinked.
\<close>

lemma climb_level:
  assumes node: "rep (nodes t) par (Some a) (ANode a w l r)" "sep t (ANode a w l r)"
    and link: "(if k then right (nodes t a) else left (nodes t a)) = Some c"
    and climb: "climbs t x (Some a) c (if k then r else l)"
  defines "L \<equiv> if k then strip l else strip r"
  defines "T \<equiv> if k then Branch w L Empty else Branch w Empty L"
  shows "if par \<noteq> None \<and> w = [] \<and> L = Empty then climbs t x par a (ANode a w l r)
         else stops t x par a (ANode a w l r) T"
proof -
  let ?A = "ANode a w l r"
  from climb obtain t1 v where t1: "prune x t = prune c t1" "next_addr t1 = next_addr t"
    and child: "sub_post t t1 (Some a) c (if k then r else l) (Branch v Empty Empty)"
    by (auto simp: climbs_def)
  have post: "sub_post t t1 par a ?A (if k then Branch w L (Branch v Empty Empty)
      else Branch w (Branch v Empty Empty) L)"
    using sub_post_join [OF node child link] by (cases k) (simp_all add: L_def)
  have "nodes t1 a = nodes t a"
    using child node(2) by (cases k) (auto simp: sub_post_def sep_def)
  then have link1: "(if k then right (nodes t1 a) else left (nodes t1 a)) = Some c"
    using link by (cases k) simp_all
  have "parent (nodes t1 c) = Some a"
    using child by (auto simp: sub_post_def dest: rep_parent)
  note un = prune_unlink [OF this, unfolded Let_def]
  note up = sub_post_unlink [OF post link1 _ _ t1(2)]
  have A: "a \<in> set (addrs ?A)" "\<forall>x\<in>set (addrs ?A). x < next_addr t"
    using node(2) by (auto simp: sep_def)
  let ?t3 = "unlink c a t1"
  have T: "sub_post t ?t3 par a ?A T" using up(1) [OF A] by (simp add: T_def)
  show ?thesis
  proof (cases "par \<noteq> None \<and> w = [] \<and> L = Empty")
    case True
    then obtain q where "par = Some q" by blast
    then have "prune x t = prune a ?t3" using True un up(2-4) [OF A] t1(1) by simp
    moreover have "T = Branch [] Empty Empty" using True by (simp add: T_def)
    ultimately show ?thesis using True T t1(2) by (auto simp: climbs_def)
  next
    case False
    then have "prune x t = Some (Ret ?t3)" using un up(2-4) [OF A] t1(1) by auto
    moreover have "keep_root T = T" by (simp add: keep_root_def T_def)
    ultimately show ?thesis using False T t1(2) by (auto simp: stops_def)
  qed
qed

lemma prune_path:
  assumes "rep (nodes t) par (Some a) A" "sep t A" "addr_at A ps = Some x"
    and "sub_at (strip A) ps = Branch v0 Empty Empty" and "ps = [] \<Longrightarrow> par \<noteq> None"
  shows "if par \<noteq> None \<and> t_delete ps (strip A) = Empty then climbs t x par a A
         else stops t x par a A (t_delete ps (strip A))"
  using assms
proof (induction A arbitrary: par a ps)
  case (ANode a' w l r)
  have [simp]: "a' = a" using ANode.prems(1) by simp
  note node = ANode.prems(1,2) [unfolded \<open>a' = a\<close>]
  show ?case
  proof (cases ps)
    case Nil
    with ANode.prems node show ?thesis
      using sub_post_refl [OF node] by (auto simp: shrink_def climbs_def)
  next
    case (Cons k ps')
    let ?C = "if k then r else l" and ?L = "if k then strip l else strip r"
    let ?T = "t_delete ps' (strip ?C)"
    have C: "addr_at ?C ps' = Some x" "sub_at (strip ?C) ps' = Branch v0 Empty Empty"
      using ANode.prems(3,4) Cons by (cases k; simp)+
    then obtain c where link: "(if k then right (nodes t a) else left (nodes t a)) = Some c"
      and rc: "rep (nodes t) (Some a) (Some c) ?C"
      using node(1) by (cases k; cases l; cases r) auto
    have "sep t ?C" using node(2) by (auto simp: sep_def)
    then have IH: "if ?T = Empty then climbs t x (Some a) c ?C else stops t x (Some a) c ?C ?T"
      using ANode.IH(1) [of "Some a" c ps'] ANode.IH(2) [of "Some a" c ps'] rc C by (cases k) simp_all
    have del: "t_delete ps (strip (ANode a w l r)) =
        (if k then shrink w ?L ?T else shrink w ?T ?L)" using Cons by simp
    show ?thesis
    proof (cases "?T = Empty")
      case True
      with climb_level [OF node link] IH show ?thesis
        unfolding \<open>a' = a\<close> del by (cases k) (auto simp: shrink_def stops_def keep_root_def split: if_splits)
    next
      case False
      with IH obtain t' where t': "prune x t = Some (Ret t')" "next_addr t' = next_addr t"
        "sub_post t t' (Some a) c ?C ?T" by (auto simp: stops_def keep_root_def)
      with sub_post_join [OF node t'(3) link] False show ?thesis
        unfolding \<open>a' = a\<close> del by (cases k) (auto simp: shrink_def stops_def keep_root_def)
    qed
  qed
qed simp

lemma t_delete_inner:
  "sub_at T p = Branch v l r \<Longrightarrow> l \<noteq> Empty \<or> r \<noteq> Empty \<Longrightarrow> t_delete p T = t_insert p [] T"
  by (induction p T rule: t_delete.induct) (auto simp: shrink_def split: if_splits)

lemma sub_at_entry: "sub_at T p = Branch v l r \<Longrightarrow> t_entry T p = v"
  by (induction p T rule: t_delete.induct) (auto split: if_splits)

lemma sub_at_None_entry: "sub_at T p = Empty \<Longrightarrow> t_entry T p = []"
  by (induction p T rule: t_delete.induct) (auto split: if_splits)

lemma set_value_path:
  assumes "rep (nodes t) par (Some a) A" "sep t A" "addr_at A ps = Some x"
  shows "sub_post t (set_value x v t) par a A (t_insert ps v (strip A))"
  using assms
proof (induction A arbitrary: par a ps)
  case (ANode a' w l r)
  have [simp]: "a' = a" using ANode.prems(1) by simp
  note node = ANode.prems(1,2) [unfolded \<open>a' = a\<close>]
  show ?case
  proof (cases ps)
    case Nil
    with ANode.prems(3) sub_post_set_value [OF node] show ?thesis by simp
  next
    case (Cons k ps')
    let ?C = "if k then r else l"
    have C: "addr_at ?C ps' = Some x" using ANode.prems(3) Cons by (cases k; simp)
    then obtain c where link: "(if k then right (nodes t a) else left (nodes t a)) = Some c"
      and rc: "rep (nodes t) (Some a) (Some c) ?C"
      using node(1) by (cases k; cases l; cases r) auto
    have "sep t ?C" using node(2) by (auto simp: sep_def)
    then have "sub_post t (set_value x v t) (Some a) c ?C (t_insert ps' v (strip ?C))"
      using ANode.IH(1) [of "Some a" c ps'] ANode.IH(2) [of "Some a" c ps'] rc C by (cases k) simp_all
    from sub_post_join [OF node this link] show ?thesis
      using Cons by (cases k) simp_all
  qed
qed simp

text \<open>
  The whole of \<open>delete\<close>: absent node, inner node, leaf, and the root as a leaf.
\<close>

lemma addr_at_node:
  "rep h par p A \<Longrightarrow> addr_at A ps = Some x \<Longrightarrow>
   \<exists>l r. sub_at (strip A) ps = Branch (node_value (h x)) l r
     \<and> (left (h x) = None \<longleftrightarrow> l = Empty) \<and> (right (h x) = None \<longleftrightarrow> r = Empty)"
proof (induction A ps arbitrary: par p rule: addr_at.induct)
  case (2 a v l r)
  then show ?case by (cases l; cases r) auto
next
  case (3 a v l r b ps)
  then show ?case by (cases b) auto
qed simp

lemma delete_denotes:
  fixes key :: u32
  assumes "denotes t T" "c \<le> 32"
  defines "p \<equiv> key_path key c" and "res \<equiv> RadixTree_delete key (netmask c) t"
  shows "sub_at T p = Empty \<Longrightarrow> res = Ret (False, t)"
    and "sub_at T p = Branch v l r \<Longrightarrow> l \<noteq> Empty \<or> r \<noteq> Empty \<Longrightarrow> v = [] \<Longrightarrow> res = Ret (False, t)"
    and "sub_at T p = Branch v l r \<Longrightarrow> l \<noteq> Empty \<or> r \<noteq> Empty \<Longrightarrow> v \<noteq> [] \<Longrightarrow>
       \<exists>t'. res = Ret (True, t') \<and> denotes t' (t_delete p T) \<and> Record t' = Record t"
    and "sub_at T p = Branch v Empty Empty \<Longrightarrow> c \<noteq> 0 \<Longrightarrow>
       \<exists>t'. res = Ret (True, t') \<and> denotes t' (keep_root (t_delete p T)) \<and> Record t' = Record t"
    and "sub_at T p = Branch v Empty Empty \<Longrightarrow> c = 0 \<Longrightarrow> res = Panic NilDereference"
proof -
  from assms obtain A where A: "rep (nodes t) None (Some (root t)) A" "sep t A" "strip A = T"
    by (auto simp: denotes_def)
  have walk: "delete_walk (nodes t) key (netmask c) MAX_IPV4_BIT (Some (root t)) = addr_at A p"
    using delete_walk_rep [OF assms(2) A(1), of key 0] by (simp add: depth_bit_0 p_def key_path_def)
  note res = res_def RadixTree_delete_def walk
  show "sub_at T p = Empty \<Longrightarrow> res = Ret (False, t)"
    using A(3) addr_at_None [of A p] by (simp add: res)
  have node: "\<exists>x. addr_at A p = Some x \<and> node_value (nodes t x) = v
      \<and> (left (nodes t x) = None \<longleftrightarrow> l = Empty) \<and> (right (nodes t x) = None \<longleftrightarrow> r = Empty)"
    if "sub_at T p = Branch v l r" for v l r
  proof -
    have "addr_at A p \<noteq> None" using that A(3) unfolding addr_at_None by simp
    then obtain x where x: "addr_at A p = Some x" by blast
    show ?thesis using addr_at_node [OF A(1) x] that A(3) x by auto
  qed
  show "res = Ret (False, t)"
    if "sub_at T p = Branch v l r" "l \<noteq> Empty \<or> r \<noteq> Empty" "v = []"
    using node [OF that(1)] that(2,3) by (auto simp: res)
  show "\<exists>t'. res = Ret (True, t') \<and> denotes t' (t_delete p T) \<and> Record t' = Record t"
    if sub: "sub_at T p = Branch v l r" "l \<noteq> Empty \<or> r \<noteq> Empty" "v \<noteq> []"
  proof -
    from node [OF sub(1)] obtain x where x: "addr_at A p = Some x" "node_value (nodes t x) = v"
      "left (nodes t x) = None \<longleftrightarrow> l = Empty" "right (nodes t x) = None \<longleftrightarrow> r = Empty" by (elim exE conjE)
    then have inner: "right (nodes t x) \<noteq> None \<or> left (nodes t x) \<noteq> None" using sub(2) by blast
    have "res = Ret (True, set_value x [] t)"
      unfolding res x(1) x(2) option.case if_P [OF inner] if_P [OF sub(3)] by (rule refl)
    moreover have "denotes (set_value x [] t) (t_delete p T)"
      using sub_post_denotes [OF set_value_path [OF A(1,2) x(1)] A(2)] t_delete_inner [OF sub(1,2)] A(3)
      by simp
    ultimately show ?thesis by (simp add: set_value_def)
  qed
  show "res = Panic NilDereference" if sub: "sub_at T p = Branch v Empty Empty" and "c = 0"
  proof -
    have "p = []" using that by (simp add: p_def)
    then have "addr_at A p = Some (root t)" "parent (nodes t (root t)) = None"
      using A(1) by (cases A; auto)+
    with node [OF sub] show ?thesis by (auto simp: res prune.simps)
  qed
  show "\<exists>t'. res = Ret (True, t') \<and> denotes t' (keep_root (t_delete p T)) \<and> Record t' = Record t"
    if sub: "sub_at T p = Branch v Empty Empty" and "c \<noteq> 0"
  proof -
    from node [OF sub] obtain x where x: "addr_at A p = Some x"
      "left (nodes t x) = None" "right (nodes t x) = None" by (elim exE conjE) simp
    have "p \<noteq> []" using \<open>c \<noteq> 0\<close> by (metis length_key_path list.size(3) p_def)
    then have "stops t x None (root t) A (t_delete p T)"
      using prune_path [OF A(1,2) x(1)] sub A(3) by simp
    then obtain t' where "prune x t = Some (Ret t')"
      and post: "sub_post t t' None (root t) A (keep_root (t_delete p T))"
      by (auto simp: stops_def)
    then have "res = Ret (True, t')" using x by (simp add: res)
    with post sub_post_denotes [OF post A(2)] show ?thesis by (simp add: sub_post_def)
  qed
qed

end
