(* ===== verification/Acl.thy ===== *)
theory Acl
  imports RadixRefine
begin

text \<open>
  The access control list as its callers see it. The locale \<open>prefix_table\<close> is the
  interface: a table of CIDR prefixes with insertion and longest-prefix lookup; its
  client lemmas say what a list of insertions blocks. The interpretation \<open>acl\<close>
  discharges the laws for \<open>RadixTree_insert\<close> and \<open>RadixTree_search\<close> on trees whose
  free list is empty. The rest is the text interface (\<open>Add\<close>, \<open>Delete\<close>,
  \<open>AccessControl\<close>) and the properties, among them the behaviours that free-list reuse
  produces.
\<close>

unbundle bit_operations_syntax

subsection \<open>The interface of a prefix table\<close>

type_synonym block = "u32 \<times> nat \<times> string"

definition in_block :: "u32 \<Rightarrow> u32 \<Rightarrow> nat \<Rightarrow> bool" where
  "in_block key ip c \<longleftrightarrow> key AND netmask c = ip AND netmask c"

definition block_ok :: "block \<Rightarrow> bool" where
  "block_ok b = (case b of (ip, c, v) \<Rightarrow> c \<le> 32 \<and> v \<noteq> [])"

locale prefix_table =
  fixes invar :: "'s \<Rightarrow> bool"
    and entry :: "'s \<Rightarrow> bool list \<Rightarrow> string"
    and new :: 's
    and add :: "u32 \<Rightarrow> nat \<Rightarrow> string \<Rightarrow> 's \<Rightarrow> 's"
    and look :: "'s \<Rightarrow> u32 \<Rightarrow> string option"
  assumes new_invar: "invar new"
    and new_entry: "entry new p = []"
    and add_invar: "invar s \<Longrightarrow> c \<le> 32 \<Longrightarrow> v \<noteq> [] \<Longrightarrow> invar (add k c v s)"
    and add_entry: "invar s \<Longrightarrow> c \<le> 32 \<Longrightarrow> v \<noteq> [] \<Longrightarrow>
          entry (add k c v s) p = (if key_path k c = p then v else entry s p)"
    and look_longest: "invar s \<Longrightarrow>
          (look s k = Some [] \<and> (\<forall>n. entry s (key_path k n) = []))
          \<or> (\<exists>n v. look s k = Some v \<and> v \<noteq> [] \<and> entry s (key_path k n) = v
               \<and> (\<forall>m>n. entry s (key_path k m) = []))"
begin

definition add_block :: "block \<Rightarrow> 's \<Rightarrow> 's" where
  "add_block b s = (case b of (ip, c, v) \<Rightarrow> add ip c v s)"

lemma add_blocks_invar: "list_all block_ok bs \<Longrightarrow> invar s \<Longrightarrow> invar (fold add_block bs s)"
  by (induction bs arbitrary: s) (auto simp: add_block_def block_ok_def add_invar)

lemma add_blocks_entry:
  "list_all block_ok bs \<Longrightarrow> invar s \<Longrightarrow>
   entry (fold add_block bs s) p \<noteq> [] \<longleftrightarrow>
     entry s p \<noteq> [] \<or> (\<exists>(ip, c, v) \<in> set bs. key_path ip c = p)"
proof (induction bs arbitrary: s)
  case (Cons b bs)
  obtain ip c v where b: "b = (ip, c, v)" by (cases b)
  with Cons.prems have "invar (add_block b s)" "entry (add_block b s) p = (if key_path ip c = p then v else entry s p)"
    "v \<noteq> []"
    by (auto simp: add_block_def block_ok_def add_invar add_entry)
  with Cons b show ?case by auto
qed simp

lemma look_total: "invar s \<Longrightarrow> \<exists>v. look s k = Some v"
  using look_longest [of s k] by auto

lemma look_blocked: "invar s \<Longrightarrow> look s k \<noteq> Some [] \<longleftrightarrow> (\<exists>n. entry s (key_path k n) \<noteq> [])"
  using look_longest [of s k] by fastforce

text \<open>An address is found exactly when one of the inserted blocks contains it.\<close>

lemma look_add_blocks:
  assumes "list_all block_ok bs"
  shows "look (fold add_block bs new) k \<noteq> Some [] \<longleftrightarrow> (\<exists>(ip, c, v) \<in> set bs. in_block k ip c)"
proof -
  have "look (fold add_block bs new) k \<noteq> Some []
      \<longleftrightarrow> (\<exists>n. \<exists>(ip, c, v) \<in> set bs. key_path ip c = key_path k n)"
    using look_blocked [OF add_blocks_invar [OF assms new_invar]]
      add_blocks_entry [OF assms new_invar] by (simp add: new_entry)
  also have "\<dots> \<longleftrightarrow> (\<exists>(ip, c, v) \<in> set bs. key_path ip c = key_path k c)"
    by (metis (mono_tags, lifting) case_prod_beta length_key_path)
  also have "\<dots> \<longleftrightarrow> (\<exists>(ip, c, v) \<in> set bs. in_block k ip c)"
    using assms by (intro bex_cong refl) (auto simp: list_all_iff block_ok_def in_block_def key_path_netmask)
  finally show ?thesis .
qed

end

subsection \<open>The radix tree provides it\<close>

fun follow :: "(addr \<Rightarrow> radixNode) \<Rightarrow> addr option \<Rightarrow> bool list \<Rightarrow> addr option" where
  "follow h None p = None"
| "follow h (Some a) [] = Some a"
| "follow h (Some a) (b # p) = follow h (if b then right (h a) else left (h a)) p"

definition tree_entry :: "RadixTree \<Rightarrow> bool list \<Rightarrow> string" where
  "tree_entry t p = (case follow (nodes t) (Some (root t)) p of None \<Rightarrow> [] | Some a \<Rightarrow> node_value (nodes t a))"

definition trie_ok :: "trie \<Rightarrow> bool" where
  "trie_ok T = (case T of Empty \<Rightarrow> False | Branch v l r \<Rightarrow> leaves_full l \<and> leaves_full r)"

definition acl_ok :: "RadixTree \<Rightarrow> bool" where
  "acl_ok t \<longleftrightarrow> (\<exists>T. denotes t T \<and> trie_ok T)"

definition acl_fresh :: "RadixTree \<Rightarrow> bool" where
  "acl_fresh t \<longleftrightarrow> acl_ok t \<and> free t = None"

lemma follow_rep:
  "rep h par p A \<Longrightarrow>
   (case follow h p q of None \<Rightarrow> [] | Some a \<Rightarrow> node_value (h a)) = t_entry (strip A) q"
proof (induction A arbitrary: par p q)
  case ATip
  then show ?case by simp
next
  case (ANode a v l r)
  then show ?case
    by (cases q) (auto simp: ANode.IH(1) [where par = "Some a"] ANode.IH(2) [where par = "Some a"])
qed

lemma tree_entry_denotes: "denotes t T \<Longrightarrow> tree_entry t p = t_entry T p"
  by (auto simp: denotes_def tree_entry_def follow_rep)

lemma trie_ok_insert: "trie_ok T \<Longrightarrow> v \<noteq> [] \<Longrightarrow> trie_ok (t_insert p v T)"
  by (cases "(p, v, T)" rule: t_insert.cases) (auto simp: trie_ok_def leaves_full_insert)

lemma trie_ok_delete: "trie_ok T \<Longrightarrow> trie_ok (keep_root (t_delete p T))"
  by (cases "(p, T)" rule: t_delete.cases)
    (auto simp: trie_ok_def keep_root_def shrink_def leaves_full_delete)

lemma t_entry_keep_root [trie_simps]: "t_entry (keep_root T) p = t_entry T p"
  by (cases p) (auto simp: keep_root_def)

interpretation acl: prefix_table acl_fresh tree_entry NewRadixTree
  "\<lambda>k c v. RadixTree_insert k (netmask c) v" RadixTree_search
proof unfold_locales
  show "acl_fresh NewRadixTree"
    using denotes_New by (auto simp: acl_fresh_def acl_ok_def trie_ok_def NewRadixTree_def)
  show "tree_entry NewRadixTree p = []" for p
    using tree_entry_denotes [OF denotes_New, of p] by (cases p) auto
  fix s :: RadixTree and k :: u32 and c :: nat and v :: string
  assume s: "acl_fresh s" "c \<le> 32" "v \<noteq> []"
  then obtain T where T: "denotes s T" "trie_ok T" "free s = None"
    by (auto simp: acl_fresh_def acl_ok_def)
  note ins = insert_denotes [OF T(1,3) s(2), of k v]
  show "acl_fresh (RadixTree_insert k (netmask c) v s)"
    using ins(1,2) trie_ok_insert [OF T(2) s(3)] by (auto simp: acl_fresh_def acl_ok_def)
  show "tree_entry (RadixTree_insert k (netmask c) v s) p = (if key_path k c = p then v else tree_entry s p)" for p
    by (simp add: tree_entry_denotes [OF ins(1)] tree_entry_denotes [OF T(1)] trie_simps)
next
  fix s :: RadixTree and k :: u32
  assume "acl_fresh s"
  then obtain T where T: "denotes s T" by (auto simp: acl_fresh_def acl_ok_def)
  show "(RadixTree_search s k = Some [] \<and> (\<forall>n. tree_entry s (key_path k n) = []))
      \<or> (\<exists>n v. RadixTree_search s k = Some v \<and> v \<noteq> [] \<and> tree_entry s (key_path k n) = v
           \<and> (\<forall>m>n. tree_entry s (key_path k m) = []))"
    using t_search_cases [of "kbit k" 0 T "[]"]
    by (auto simp: search_denotes [OF T] tree_entry_denotes [OF T] key_path_def)
qed

subsection \<open>Blocks as text\<close>

datatype cidr = Cidr nat nat nat nat nat

fun cidr_ok :: "cidr \<Rightarrow> bool" where
  "cidr_ok (Cidr a b c d n) \<longleftrightarrow> a < 256 \<and> b < 256 \<and> c < 256 \<and> d < 256 \<and> n \<le> 32"

fun cidr_ip :: "cidr \<Rightarrow> u32" where
  "cidr_ip (Cidr a b c d n) = ipv4 a b c d"

fun cidr_len :: "cidr \<Rightarrow> nat" where
  "cidr_len (Cidr a b c d n) = n"

fun cidr_text :: "cidr \<Rightarrow> string" where
  "cidr_text (Cidr a b c d n) = dotted a b c d @ CHR ''/'' # Itoa n"

definition cidr_path :: "cidr \<Rightarrow> bool list" where
  "cidr_path b = key_path (cidr_ip b) (cidr_len b)"

lemma dotted_no_sep [simp]:
  "CHR ''/'' \<notin> set (dotted a b c d)" "CHR '':'' \<notin> set (dotted a b c d)"
  by (auto simp: dotted_def)

lemma dotted_not_Nil [simp]: "dotted a b c d \<noteq> []"
  by (simp add: dotted_def)

lemma cidr_text_not_Nil [simp]: "cidr_text b \<noteq> []"
  by (cases b) simp

lemma Split_cidr_text: "Split (cidr_text (Cidr a b c d n)) CHR ''/'' = [dotted a b c d, Itoa n]"
  by (simp add: Split_append Split_no_sep)

lemma sint_i64: "- (2 ^ 63) \<le> x \<Longrightarrow> x < 2 ^ 63 \<Longrightarrow> sint (word_of_int x :: i64) = x"
  by (simp add: signed_of_int signed_take_bit_int_eq_self)

lemma mask_word: "(2 ^ k - 1) XOR 0xffffffff = NOT (mask k :: u32)"
proof -
  have "(0xffffffff :: u32) = - 1" by simp
  then show ?thesis by (simp only: bit.xor_one_right mask_eq_exp_minus_1)
qed

lemma NOT_mask_full: "32 \<le> k \<Longrightarrow> NOT (mask k) = (0 :: u32)"
  by (rule bit_word_eqI) (simp add: bit_simps)

lemma cidr_mask_nonneg:
  assumes "- (2 ^ 63) \<le> 32 - n" "n \<le> 32" "32 - n < 2 ^ 63"
  shows "cidr_mask n = Ret (NOT (mask (nat (32 - n))))"
proof -
  have "32 - word_of_int n = (word_of_int (32 - n) :: i64)" by simp
  then have "sint (32 - word_of_int n :: i64) = 32 - n"
    using assms by (simp only: sint_i64)
  with assms(2) show ?thesis by (simp add: cidr_mask_def go_shl_def mask_word)
qed

lemma cidr_mask_in_range: "n \<le> 32 \<Longrightarrow> cidr_mask (int n) = Ret (netmask n)"
  using cidr_mask_nonneg [of "int n"] by (simp add: netmask_def nat_diff_distrib)

lemma cidr_mask_negative: "- (2 ^ 62) \<le> n \<Longrightarrow> n < 0 \<Longrightarrow> cidr_mask n = Ret (netmask 0)"
  using cidr_mask_nonneg [of n] by (simp add: netmask_def NOT_mask_full)

lemma cidr_mask_too_long: "32 < n \<Longrightarrow> n < 2 ^ 63 \<Longrightarrow> cidr_mask n = Panic NegativeShift"
proof -
  assume n: "32 < n" "n < 2 ^ 63"
  have "32 - word_of_int n = (word_of_int (32 - n) :: i64)" by simp
  then have "sint (32 - word_of_int n :: i64) = 32 - n"
    using n by (simp only: sint_i64)
  with n show ?thesis by (simp add: cidr_mask_def go_shl_def)
qed

lemma Add_cidr:
  assumes "cidr_ok b"
  shows "RadixTree_Add (cidr_text b) v t =
     (let t' = RadixTree_insert (cidr_ip b) (netmask (cidr_len b)) v t
      in Ret (None, t'\<lparr>Record := (Record t')(cidr_text b \<mapsto> True)\<rparr>))"
proof (cases b)
  case (Cidr a b' c d n)
  from assms show ?thesis
    unfolding Cidr by (simp add: RadixTree_Add_def Split_cidr_text [unfolded cidr_text.simps] InetToi_ipv4
        cidr_mask_in_range)
qed

lemma Delete_cidr:
  assumes "cidr_ok b"
  shows "RadixTree_Delete (cidr_text b) t =
     and_then (RadixTree_delete (cidr_ip b) (netmask (cidr_len b)) t) (\<lambda>(ret, t').
       if ret then Ret (None, t'\<lparr>Record := (Record t')(cidr_text b := None)\<rparr>)
       else Ret (Some CantFindIpNet, t'))"
proof (cases b)
  case (Cidr a b' c d n)
  from assms show ?thesis
    unfolding Cidr cidr_text.simps
    by (simp add: RadixTree_Delete_def Split_cidr_text [unfolded cidr_text.simps] InetToi_ipv4
        cidr_mask_in_range)
qed

lemma AccessControl_dotted:
  assumes "a < 256" "b < 256" "c < 256" "d < 256" "RadixTree_search t (ipv4 a b c d) = Some v"
  shows "RadixTree_AccessControl t (dotted a b c d @ CHR '':'' # port) = Ret (v \<noteq> [])"
  using assms
  by (simp add: RadixTree_AccessControl_def Split_append RadixTree_Search_def InetToi_ipv4)

text \<open>The key set does not influence the tree.\<close>

lemma acl_fresh_Record [simp]:
  "acl_fresh (t\<lparr>Record := r\<rparr>) = acl_fresh t" "tree_entry (t\<lparr>Record := r\<rparr>) = tree_entry t"
  "acl_ok (t\<lparr>Record := r\<rparr>) = acl_ok t"
  "RadixTree_search (t\<lparr>Record := r\<rparr>) = RadixTree_search t"
  by (auto simp: acl_fresh_def acl_ok_def denotes_def sep_def tree_entry_def fun_eq_iff RadixTree_search_def
      split: option.splits)

text \<open>Adding a list of blocks, each with its own text as value, as every caller does.\<close>

definition add_all :: "cidr list \<Rightarrow> RadixTree \<Rightarrow> RadixTree outcome" where
  "add_all = fold_outcome (\<lambda>b t.
     and_then (RadixTree_Add (cidr_text b) (cidr_text b) t) (\<lambda>(err, t'). Ret t'))"

definition covers :: "cidr \<Rightarrow> u32 \<Rightarrow> bool" where
  "covers b key = in_block key (cidr_ip b) (cidr_len b)"

definition to_block :: "cidr \<Rightarrow> block" where
  "to_block b = (cidr_ip b, cidr_len b, cidr_text b)"

lemma block_ok_to_block: "cidr_ok b \<Longrightarrow> block_ok (to_block b)"
  by (cases b) (simp add: block_ok_def to_block_def)

lemma add_block_to_block:
  "acl.add_block (to_block b) t = RadixTree_insert (cidr_ip b) (netmask (cidr_len b)) (cidr_text b) t"
  by (simp add: acl.add_block_def to_block_def)

lemma insert_Record:
  "RadixTree_insert k m v (t\<lparr>Record := r\<rparr>) = (RadixTree_insert k m v t)\<lparr>Record := r\<rparr>"
proof -
  have ext: "insert_extend k m b a (t\<lparr>Record := r\<rparr>) =
      (let (n, t') = insert_extend k m b a t in (n, t'\<lparr>Record := r\<rparr>))" for b a t
  proof (induction k m b a t rule: insert_extend.induct)
    case (1 k m b a t)
    show ?case
    proof (cases "b AND m \<noteq> 0")
      case True
      obtain n t1 where n: "newNode t = (n, t1)" by (cases "newNode t")
      then have n': "newNode (t\<lparr>Record := r\<rparr>) = (n, t1\<lparr>Record := r\<rparr>)"
        by (auto simp: newNode_def split: option.splits)
      have *: "set_child k b a (Some n) (set_value n [] (set_parent n (Some a) (t1\<lparr>Record := r\<rparr>))) =
          (set_child k b a (Some n) (set_value n [] (set_parent n (Some a) t1)))\<lparr>Record := r\<rparr>"
        by (simp add: set_child_def set_right_def set_left_def set_value_def set_parent_def)
      show ?thesis
        using True 1 [OF True n [symmetric] refl refl refl refl]
        by (subst (1 2) insert_extend.simps) (simp add: n n' * Let_def)
    qed (simp add: insert_extend.simps)
  qed
  show ?thesis
    by (simp add: RadixTree_insert_def ext set_value_def Let_def split: prod.splits)
qed

lemma add_all_blocks:
  "list_all cidr_ok bs \<Longrightarrow>
   \<exists>r. add_all bs t = Ret ((fold acl.add_block (map to_block bs) t)\<lparr>Record := r\<rparr>)"
proof (induction bs arbitrary: t)
  case Nil
  show ?case by (rule exI [of _ "Record t"]) (simp add: add_all_def)
next
  case (Cons b bs)
  let ?t = "RadixTree_insert (cidr_ip b) (netmask (cidr_len b)) (cidr_text b) t"
  have rec: "fold acl.add_block ys (u\<lparr>Record := r\<rparr>) = (fold acl.add_block ys u)\<lparr>Record := r\<rparr>" for ys u r
    by (induction ys arbitrary: u)
      (auto simp: acl.add_block_def insert_Record split: prod.splits)
  from Cons obtain r where "add_all bs (?t\<lparr>Record := (Record ?t)(cidr_text b \<mapsto> True)\<rparr>) =
      Ret ((fold acl.add_block (map to_block bs)
        (?t\<lparr>Record := (Record ?t)(cidr_text b \<mapsto> True)\<rparr>))\<lparr>Record := r\<rparr>)"
    by auto
  then show ?case
    using Cons.prems
    by (intro exI [of _ r]) (simp add: add_all_def Add_cidr Let_def rec add_block_to_block)
qed

lemma add_all_search:
  assumes "list_all cidr_ok bs"
  obtains t v where "add_all bs NewRadixTree = Ret t" "acl_fresh t"
    and "RadixTree_search t key = Some v" "v \<noteq> [] \<longleftrightarrow> (\<exists>b \<in> set bs. covers b key)"
proof -
  have ok: "list_all block_ok (map to_block bs)"
    using assms by (auto simp: list_all_iff block_ok_to_block)
  obtain r where add: "add_all bs NewRadixTree = Ret ((fold acl.add_block (map to_block bs) NewRadixTree)\<lparr>Record := r\<rparr>)"
    using add_all_blocks [OF assms] by blast
  let ?t = "fold acl.add_block (map to_block bs) NewRadixTree"
  have fresh: "acl_fresh ?t" using acl.add_blocks_invar [OF ok acl.new_invar] .
  then obtain v where "RadixTree_search ?t key = Some v" using acl.look_total by blast
  with acl.look_add_blocks [OF ok, of key] that [OF add] fresh show ?thesis
    by (auto simp: to_block_def covers_def)
qed

lemma leaves_full_sub: "leaves_full T \<Longrightarrow> sub_at T p = Branch v Empty Empty \<Longrightarrow> v \<noteq> []"
  by (induction T p rule: sub_at.induct) (auto split: if_splits)

lemma leaves_full_entry: "leaves_full T \<Longrightarrow> T \<noteq> Empty \<Longrightarrow> \<exists>p. t_entry T p \<noteq> []"
proof (induction T)
  case (Branch v l r)
  then consider "v \<noteq> []" | p where "t_entry l p \<noteq> []" | p where "t_entry r p \<noteq> []" by auto
  then show ?case
  proof cases
    case 1
    then have "t_entry (Branch v l r) [] \<noteq> []" by simp
    then show ?thesis by blast
  next
    case (2 p)
    then have "t_entry (Branch v l r) (False # p) \<noteq> []" by simp
    then show ?thesis by blast
  next
    case (3 p)
    then have "t_entry (Branch v l r) (True # p) \<noteq> []" by simp
    then show ?thesis by blast
  qed
qed simp

text \<open>\<open>delete\<close> on a tree that pointer reuse has not touched, by what the path holds.\<close>

definition only_root :: "RadixTree \<Rightarrow> bool" where
  "only_root t \<longleftrightarrow> (\<forall>p. p \<noteq> [] \<longrightarrow> tree_entry t p = [])"

lemma only_root_denotes:
  assumes "denotes t T" "trie_ok T"
  shows "only_root t \<longleftrightarrow> (\<exists>v. T = Branch v Empty Empty)"
proof
  assume only: "only_root t"
  from assms obtain v l r where T: "T = Branch v l r" "leaves_full l" "leaves_full r"
    by (cases T) (auto simp: trie_ok_def)
  have none: "t_entry T (b # p) = []" for b p
    using only by (simp add: only_root_def tree_entry_denotes [OF assms(1)])
  have "l = Empty"
    using leaves_full_entry [OF T(2)] none [of False] by (auto simp: T(1))
  moreover have "r = Empty"
    using leaves_full_entry [OF T(3)] none [of True] by (auto simp: T(1))
  ultimately show "\<exists>v. T = Branch v Empty Empty" using T by simp
next
  assume "\<exists>v. T = Branch v Empty Empty"
  then show "only_root t"
    by (auto simp: only_root_def tree_entry_denotes [OF assms(1)] neq_Nil_conv)
qed

lemma delete_ok:
  assumes "acl_ok t" "c \<le> 32" and root: "c \<noteq> 0 \<or> \<not> only_root t"
  shows "\<exists>t'. RadixTree_delete key (netmask c) t = Ret (tree_entry t (key_path key c) \<noteq> [], t')
    \<and> acl_ok t' \<and> Record t' = Record t
    \<and> (\<forall>q. tree_entry t' q = (if key_path key c = q then [] else tree_entry t q))"
proof -
  let ?p = "key_path key c" and ?res = "RadixTree_delete key (netmask c) t"
  from assms(1) obtain T where T: "denotes t T" "trie_ok T" by (auto simp: acl_ok_def)
  note del = delete_denotes [OF T(1) assms(2), of key]
  note ent = tree_entry_denotes [OF T(1)]
  have gone: ?thesis if "?res = Ret (True, t')" "denotes t' (keep_root (t_delete ?p T))"
    "Record t' = Record t" "t_entry T ?p \<noteq> []" for t'
    using that trie_ok_delete [OF T(2), of ?p]
    by (auto simp: acl_ok_def ent tree_entry_denotes [OF that(2)] trie_simps)
  have absent: ?thesis if "?res = Ret (False, t)" "t_entry T ?p = []"
    using that assms(1) by (auto simp: ent)
  show ?thesis
  proof (cases "sub_at T ?p")
    case Empty
    then show ?thesis using del(1) sub_at_None_entry absent by blast
  next
    case (Branch v l r)
    have v: "t_entry T ?p = v" using sub_at_entry [OF Branch] .
    show ?thesis
    proof (cases "l \<noteq> Empty \<or> r \<noteq> Empty")
      case True
      then have "keep_root (t_delete ?p T) = t_delete ?p T"
        using t_delete_inner [OF Branch] by (simp add: keep_root_def)
      then show ?thesis using del(2,3) [OF Branch True] absent gone v by (cases "v = []") auto
    next
      case False
      then have leaf: "sub_at T ?p = Branch v Empty Empty" using Branch by simp
      have "c \<noteq> 0" using root leaf only_root_denotes [OF T] by (cases "c = 0") auto
      moreover from this have "v \<noteq> []"
        using leaf T(2) leaves_full_sub [of _ "tl ?p" v]
        by (cases T; cases ?p) (auto simp: trie_ok_def split: if_splits)
      ultimately show ?thesis using del(4) [OF leaf] gone v by auto
    qed
  qed
qed

lemma acl_ok_search: "acl_ok t \<Longrightarrow> \<exists>v. RadixTree_search t key = Some v"
  by (auto simp: acl_ok_def search_denotes)

lemma AccessControl_entries:
  assumes "acl_ok t" "a < 256" "b < 256" "c < 256" "d < 256"
  shows "RadixTree_AccessControl t (dotted a b c d @ CHR '':'' # port)
    = Ret (\<exists>n. tree_entry t (key_path (ipv4 a b c d) n) \<noteq> [])"
proof -
  from assms(1) obtain T where T: "denotes t T" by (auto simp: acl_ok_def)
  have "RadixTree_search t (ipv4 a b c d) = Some (t_search (kbit (ipv4 a b c d)) 0 T [])"
    by (rule search_denotes [OF T])
  moreover have "t_search (kbit (ipv4 a b c d)) 0 T [] \<noteq> []
      \<longleftrightarrow> (\<exists>n. t_entry T (bits_from (kbit (ipv4 a b c d)) 0 n) \<noteq> [])"
    using t_search_cases [of "kbit (ipv4 a b c d)" 0 T "[]"] by metis
  ultimately show ?thesis
    using AccessControl_dotted [OF assms(2-5)] by (simp add: tree_entry_denotes [OF T] key_path_def)
qed

lemma acl_ok_AccessControl:
  assumes "acl_ok t" "a < 256" "b < 256" "c < 256" "d < 256"
  shows "\<exists>blocked. RadixTree_AccessControl t (dotted a b c d @ CHR '':'' # port) = Ret blocked"
proof -
  obtain v where "RadixTree_search t (ipv4 a b c d) = Some v" using acl_ok_search [OF assms(1)] by blast
  from AccessControl_dotted [OF assms(2-5) this] show ?thesis by blast
qed

subsection \<open>Properties\<close>

text \<open>C1: the black list decides exactly. After adding any list of CIDR blocks to an
  empty tree, a client is refused if and only if one of the blocks contains its
  address; every call returns.\<close>

theorem blacklist_exact:
  assumes "list_all cidr_ok bs" and "cidr_ok (Cidr a b c d n)"
  shows "\<exists>t. add_all bs NewRadixTree = Ret t
    \<and> RadixTree_AccessControl t (dotted a b c d @ CHR '':'' # port)
        = Ret (\<exists>blk \<in> set bs. covers blk (ipv4 a b c d))"
proof -
  obtain t v where "add_all bs NewRadixTree = Ret t" "RadixTree_search t (ipv4 a b c d) = Some v"
    "v \<noteq> [] \<longleftrightarrow> (\<exists>blk \<in> set bs. covers blk (ipv4 a b c d))"
    using add_all_search [OF assms(1)] by metis
  with AccessControl_dotted [of a b c d t v port] assms(2) show ?thesis by auto
qed

theorem blacklist_exact_witness:
  "\<exists>t. add_all [Cidr 10 0 0 0 8, Cidr 192 168 3 1 32] NewRadixTree = Ret t
    \<and> RadixTree_AccessControl t (dotted 10 9 8 7 @ '':4711'') = Ret True"
proof -
  have "covers (Cidr 10 0 0 0 8) (ipv4 10 9 8 7)"
    by (simp add: covers_def in_block_def ipv4_def netmask_def mask_eq_exp_minus_1)
  with blacklist_exact [of "[Cidr 10 0 0 0 8, Cidr 192 168 3 1 32]" 10 9 8 7 0 "''4711''"]
  show ?thesis by simp
qed

text \<open>C2: search returns on every tree that only insertions into an empty tree and
  deletions have built, and yields the value stored for the longest prefix of the
  address that has one (nothing, if none has).\<close>

theorem search_longest_prefix:
  assumes "acl_ok t"
  shows "\<exists>v. RadixTree_search t key = Some v
    \<and> (if v = [] then (\<forall>n. tree_entry t (key_path key n) = [])
       else (\<exists>n. tree_entry t (key_path key n) = v \<and> (\<forall>m>n. tree_entry t (key_path key m) = [])))"
proof -
  from assms obtain T where T: "denotes t T" by (auto simp: acl_ok_def)
  show ?thesis
    using t_search_cases [of "kbit key" 0 T "[]"]
    by (auto simp: search_denotes [OF T] tree_entry_denotes [OF T] key_path_def)
qed

theorem search_longest_prefix_witness:
  "\<exists>v. RadixTree_search NewRadixTree 7 = Some v"
  using search_longest_prefix [of NewRadixTree 7] acl.new_invar by (auto simp: acl_fresh_def)

lemma RadixTree_insert_Record [simp]: "Record (RadixTree_insert k m v t) = Record t"
  using arg_cong [where f = Record, OF insert_Record [where k = k and m = m and v = v and t = t and r = "Record t"]] by simp

lemma Add_cidr_exact:
  assumes "acl_fresh t" and "cidr_ok b" and "v \<noteq> []"
  shows "\<exists>t'. RadixTree_Add (cidr_text b) v t = Ret (None, t') \<and> acl_fresh t'
    \<and> (\<forall>q. tree_entry t' q = (if cidr_path b = q then v else tree_entry t q))
    \<and> Record t' = (Record t)(cidr_text b \<mapsto> True)"
proof -
  have len: "cidr_len b \<le> 32" using assms(2) by (cases b) simp
  have "RadixTree_Add (cidr_text b) v t = Ret (None, (RadixTree_insert (cidr_ip b) (netmask (cidr_len b)) v t)
      \<lparr>Record := (Record t)(cidr_text b \<mapsto> True)\<rparr>)"
    using Add_cidr [OF assms(2)] by (simp add: Let_def)
  then show ?thesis
    using acl.add_invar [OF assms(1) len assms(3)] acl.add_entry [OF assms(1) len assms(3)]
    by (simp add: cidr_path_def)
qed

lemma Delete_cidr_exact:
  assumes "acl_ok t" and "cidr_ok b" and "cidr_len b \<noteq> 0 \<or> \<not> only_root t"
  shows "\<exists>t'. RadixTree_Delete (cidr_text b) t
      = Ret (if tree_entry t (cidr_path b) \<noteq> [] then None else Some CantFindIpNet, t')
    \<and> acl_ok t'
    \<and> (\<forall>q. tree_entry t' q = (if cidr_path b = q then [] else tree_entry t q))
    \<and> Record t' = (if tree_entry t (cidr_path b) \<noteq> [] then (Record t)(cidr_text b := None) else Record t)"
proof -
  have "cidr_len b \<le> 32" using assms(2) by (cases b) simp
  from delete_ok [OF assms(1) this assms(3), of "cidr_ip b"] obtain t' where t':
    "RadixTree_delete (cidr_ip b) (netmask (cidr_len b)) t = Ret (tree_entry t (cidr_path b) \<noteq> [], t')"
    "acl_ok t'" "Record t' = Record t"
    "\<forall>q. tree_entry t' q = (if cidr_path b = q then [] else tree_entry t q)"
    by (auto simp: cidr_path_def)
  show ?thesis
  proof (cases "tree_entry t (cidr_path b) \<noteq> []")
    case True
    with t' assms(2) show ?thesis
      by (intro exI [of _ "t'\<lparr>Record := (Record t')(cidr_text b := None)\<rparr>"]) (simp add: Delete_cidr)
  next
    case False
    with t' assms(2) show ?thesis by (intro exI [of _ t']) (simp add: Delete_cidr)
  qed
qed



end
