(* ===== verification/AclReuse.thy ===== *)
theory AclReuse
  imports Acl
begin

text \<open>
  What the access control list does outside the contract of \<open>Acl\<close>: the tree after
  \<open>newNode\<close> has handed out a node of the free list (whose \<open>right\<close> still links to the
  next free node), deletion of the default block, masks outside 0..32, addresses that do
  not parse, and the key set \<open>Record\<close> against the tree. The runs are evaluated on the
  store; \<open>acl_calls\<close> runs a sequence of text-level calls.
\<close>

unbundle bit_operations_syntax

datatype acl_op = AddBlock cidr | DeleteBlock cidr

fun acl_call :: "acl_op \<Rightarrow> RadixTree \<Rightarrow> (acl_error option \<times> RadixTree) outcome" where
  "acl_call (AddBlock b) t = RadixTree_Add (cidr_text b) (cidr_text b) t"
| "acl_call (DeleteBlock b) t = RadixTree_Delete (cidr_text b) t"

definition acl_calls :: "acl_op list \<Rightarrow> RadixTree \<Rightarrow> RadixTree outcome" where
  "acl_calls = fold_outcome (\<lambda>c t. and_then (acl_call c t) (\<lambda>(err, t'). Ret t'))"

lemma acl_calls_simps [simp]:
  "acl_calls [] t = Ret t"
  "acl_calls (c # cs) t = and_then (acl_call c t) (\<lambda>(err, t'). acl_calls cs t')"
  by (auto simp: acl_calls_def and_then_assoc intro!: arg_cong [of _ _ "and_then _"])

text \<open>Rules that run the operations on a concrete store.\<close>

lemmas store_simps =
  RadixTree_insert_def insert_walk.simps insert_extend.simps child_def newNode_def
  set_child_def set_left_def set_right_def set_value_def set_parent_def
  MAX_IPV4_BIT_def nil_node_def NewRadixTree_def RadixTree_delete_def delete_walk.simps
  prune.simps

lemma netmask_eval:
  "netmask 0 = 0" "netmask (Suc 0) = 0x80000000" "netmask 2 = 0xC0000000"
  by (simp_all add: netmask_def mask_eq_exp_minus_1)

lemma ipv4_eval:
  "ipv4 0 0 0 0 = 0" "ipv4 64 0 0 0 = 0x40000000" "ipv4 64 0 0 (Suc 0) = 0x40000001"
  "ipv4 128 0 0 0 = 0x80000000" "ipv4 200 0 0 (Suc 0) = 0xC8000001"
  by (simp_all add: ipv4_def)


text \<open>A node that is its own child on both sides is never left again.\<close>

lemma search_loop_self:
  assumes "left (h a) = Some a" "right (h a) = Some a"
  shows "search_loop h key b (Some a) v = None"
proof -
  have "left (h a) = Some a \<longrightarrow> right (h a) = Some a \<longrightarrow> node \<noteq> Some a"
    if "search_loop h key b node v = Some y" for h key b node v y
    by (rule search_loop.raw_induct
        [where P = "\<lambda>h key b node v y. left (h a) = Some a \<longrightarrow> right (h a) = Some a \<longrightarrow> node \<noteq> Some a",
          OF _ that])
      (fastforce simp: child_def split: option.splits if_splits)
  with assms show ?thesis by (metis option.exhaust)
qed

subsection \<open>Properties\<close>

text \<open>Adding a block, deleting it and adding it again blocks addresses outside every
  listed block. The node that \<open>newNode\<close> takes from the free list keeps its link to the next
  free node in \<open>right\<close>, which becomes a child holding the block's value.\<close>

theorem readding_overblocks:
  "\<exists>t. acl_calls [AddBlock (Cidr 0 0 0 0 2), DeleteBlock (Cidr 0 0 0 0 2), AddBlock (Cidr 0 0 0 0 2)]
        NewRadixTree = Ret t
     \<and> Record t = [cidr_text (Cidr 0 0 0 0 2) \<mapsto> True]
     \<and> \<not> covers (Cidr 0 0 0 0 2) (ipv4 64 0 0 1)
     \<and> RadixTree_AccessControl t (dotted 64 0 0 1 @ CHR '':'' # port) = Ret True"
proof (intro exI conjI)
  let ?t = "\<lparr>root = 0, free = None, Record = [cidr_text (Cidr 0 0 0 0 2) \<mapsto> True],
     nodes = (\<lambda>_. nil_node)
       (0 := \<lparr>right = None, left = Some (Suc 0), parent = None, node_value = NO_VALUE\<rparr>,
        Suc 0 := \<lparr>right = Some (Suc (Suc 0)), left = Some (Suc (Suc 0)), parent = Some 0, node_value = NO_VALUE\<rparr>,
        Suc (Suc 0) := \<lparr>right = None, left = None, parent = Some (Suc 0),
             node_value = cidr_text (Cidr 0 0 0 0 2)\<rparr>),
     next_addr = Suc (Suc (Suc 0))\<rparr>"
  show "acl_calls [AddBlock (Cidr 0 0 0 0 2), DeleteBlock (Cidr 0 0 0 0 2), AddBlock (Cidr 0 0 0 0 2)]
        NewRadixTree = Ret ?t"
    by (simp add: Add_cidr Delete_cidr netmask_eval ipv4_eval store_simps
        del: cidr_text.simps)
  show "\<not> covers (Cidr 0 0 0 0 2) (ipv4 64 0 0 1)"
    by (simp add: covers_def in_block_def netmask_eval ipv4_eval)
  have "RadixTree_search ?t (ipv4 64 0 0 1) = Some (cidr_text (Cidr 0 0 0 0 2))"
    by (simp add: RadixTree_search_def search_loop.simps child_def ipv4_eval MAX_IPV4_BIT_def
        del: cidr_text.simps)
  then show "RadixTree_AccessControl ?t (dotted 64 0 0 1 @ CHR '':'' # port) = Ret True"
    using AccessControl_dotted [of 64 0 0 1 ?t _ port] by (simp del: cidr_text.simps)
qed simp

text \<open>C36: five calls, all reported as successful, leave a tree on which access control never
  returns for any client in the upper half of the address space: a node of the tree is its
  own left and right child.\<close>

theorem access_control_endless:
  "\<exists>t. acl_calls [AddBlock (Cidr 0 0 0 0 2), DeleteBlock (Cidr 0 0 0 0 2), AddBlock (Cidr 0 0 0 0 1),
          DeleteBlock (Cidr 64 0 0 0 2), AddBlock (Cidr 128 0 0 0 2)] NewRadixTree = Ret t
     \<and> {key. key AND 0x80000000 \<noteq> 0} \<subseteq> {key. RadixTree_search t key = None}
     \<and> RadixTree_AccessControl t (dotted 200 0 0 1 @ CHR '':'' # port) = Stuck"
proof (intro exI conjI)
  let ?t = "\<lparr>root = 0, free = Some (Suc (Suc 0)),
     Record = [cidr_text (Cidr 0 0 0 0 1) \<mapsto> True]
       (cidr_text (Cidr 64 0 0 0 2) := None, cidr_text (Cidr 128 0 0 0 2) \<mapsto> True),
     nodes = (\<lambda>_. nil_node)
       (Suc 0 := \<lparr>right = None, left = None, parent = Some 0,
          node_value = cidr_text (Cidr 0 0 0 0 1)\<rparr>,
        0 := \<lparr>right = Some (Suc (Suc 0)), left = Some (Suc 0), parent = None,
          node_value = NO_VALUE\<rparr>,
        Suc (Suc 0) := \<lparr>right = Some (Suc (Suc 0)), left = Some (Suc (Suc 0)),
          parent = Some (Suc (Suc 0)), node_value = cidr_text (Cidr 128 0 0 0 2)\<rparr>),
     next_addr = Suc (Suc (Suc 0))\<rparr>"
  show "acl_calls [AddBlock (Cidr 0 0 0 0 2), DeleteBlock (Cidr 0 0 0 0 2), AddBlock (Cidr 0 0 0 0 1),
          DeleteBlock (Cidr 64 0 0 0 2), AddBlock (Cidr 128 0 0 0 2)] NewRadixTree = Ret ?t"
    by (simp add: Add_cidr Delete_cidr netmask_eval ipv4_eval store_simps
        del: cidr_text.simps)
  have endless: "RadixTree_search ?t key = None" if "key AND 0x80000000 \<noteq> 0" for key
    using that
    by (simp add: RadixTree_search_def search_loop.simps [of _ _ _ "Some 0"] child_def MAX_IPV4_BIT_def
        search_loop_self)
  then show "{key. key AND 0x80000000 \<noteq> 0} \<subseteq> {key. RadixTree_search ?t key = None}" by blast
  have "InetToi (dotted 200 0 0 1) = Ret (ipv4 200 0 0 1, None)" by (rule InetToi_ipv4) simp_all
  then show "RadixTree_AccessControl ?t (dotted 200 0 0 1 @ CHR '':'' # port) = Stuck"
    using endless [of "ipv4 200 0 0 1"]
    by (simp add: RadixTree_AccessControl_def RadixTree_Search_def Split_append ipv4_eval)
qed

text \<open>A prefix length above 32 ends the process of \<open>Add\<close> with a panic (the shift count
  \<open>32 - cidr\<close> is negative), where \<open>Delete\<close> answers with an error.\<close>

theorem Add_long_prefix_panics:
  assumes "a < 256" "b < 256" "c < 256" "d < 256" and "32 < n" "n < 2 ^ 63"
  shows "RadixTree_Add (cidr_text (Cidr a b c d n)) v t = Panic NegativeShift
    \<and> RadixTree_Delete (cidr_text (Cidr a b c d n)) t = Ret (Some InvaildNetMask, t)"
  using assms cidr_mask_too_long [of "int n"]
  by (simp add: RadixTree_Add_def RadixTree_Delete_def Split_cidr_text [unfolded cidr_text.simps]
      InetToi_ipv4)

theorem Add_long_prefix_panics_witness:
  "RadixTree_Add (cidr_text (Cidr 10 0 0 0 33)) ''v'' NewRadixTree = Panic NegativeShift"
  using Add_long_prefix_panics [of 10 0 0 0 33 "''v''" NewRadixTree] by simp

lemma Atoi_negative: "0 < n \<Longrightarrow> n < 2 ^ 63 \<Longrightarrow> Atoi (CHR ''-'' # Itoa n) = Inr (- int n)"
  using ParseUint_loop_Itoa [of n] by (simp add: Atoi_def ParseUint_def)

lemma RadixTree_insert_root:
  "RadixTree_insert key (netmask 0) v t = set_value (root t) v t"
  by (simp add: RadixTree_insert_def insert_walk.simps netmask_eval)

text \<open>\<open>Add\<close> accepts a negative prefix length and then refuses every client: the block
  lands at the root of the tree, whatever address was given. \<open>Delete\<close> rejects the same
  text, so the entry cannot be taken back under its name.\<close>

theorem Add_negative_prefix_blocks_all:
  assumes "a < 256" "b < 256" "c < 256" "d < 256" and "0 < n" "n \<le> 2 ^ 62"
    and "acl_fresh t" and "v \<noteq> []"
    and client: "a' < 256" "b' < 256" "c' < 256" "d' < 256"
  shows "\<exists>t'. RadixTree_Add (dotted a b c d @ ''/-'' @ Itoa n) v t = Ret (None, t')
    \<and> RadixTree_AccessControl t' (dotted a' b' c' d' @ CHR '':'' # port) = Ret True
    \<and> RadixTree_Delete (dotted a b c d @ ''/-'' @ Itoa n) t' = Ret (Some InvaildNetMask, t')"
proof -
  let ?text = "dotted a b c d @ ''/-'' @ Itoa n"
  have split: "Split ?text CHR ''/'' = [dotted a b c d, CHR ''-'' # Itoa n]"
    by (simp add: Split_append Split_no_sep)
  have atoi: "Atoi (CHR ''-'' # Itoa n) = Inr (- int n)"
    using assms(5,6) by (intro Atoi_negative) simp_all
  have mask: "cidr_mask (- int n) = Ret (netmask 0)"
    using assms(5,6) by (intro cidr_mask_negative) simp_all
  let ?u = "RadixTree_insert (ipv4 a b c d) (netmask 0) v t"
  let ?t = "?u\<lparr>Record := (Record ?u)(?text \<mapsto> True)\<rparr>"
  have "acl_fresh ?u" using acl.add_invar [OF assms(7)] assms(8) by simp
  moreover have "tree_entry ?u (key_path (ipv4 a' b' c' d') 0) \<noteq> []"
    using acl.add_entry [OF assms(7)] assms(8) by (simp add: key_path_def)
  ultimately obtain w where "RadixTree_search ?u (ipv4 a' b' c' d') = Some w" "w \<noteq> []"
    using acl.look_blocked acl.look_total by (metis (no_types))
  then have "RadixTree_AccessControl ?t (dotted a' b' c' d' @ CHR '':'' # port) = Ret True"
    using AccessControl_dotted [OF client, of ?t w port] by simp
  moreover have "RadixTree_Add ?text v t = Ret (None, ?t)"
    using assms(1-4) by (simp add: RadixTree_Add_def split [simplified] InetToi_ipv4 atoi mask Let_def)
  moreover have "RadixTree_Delete ?text ?t = Ret (Some InvaildNetMask, ?t)"
    using assms(1-5) by (simp add: RadixTree_Delete_def split [simplified] InetToi_ipv4 atoi)
  ultimately show ?thesis by blast
qed

theorem Add_negative_prefix_blocks_all_witness:
  "\<exists>t'. RadixTree_Add (dotted 10 0 0 0 @ ''/-'' @ Itoa 8) ''v'' NewRadixTree = Ret (None, t')
    \<and> RadixTree_AccessControl t' (dotted 203 0 113 9 @ '':80'') = Ret True"
  using Add_negative_prefix_blocks_all [of 10 0 0 0 8 NewRadixTree "''v''" 203 0 113 9 "''80''"]
    acl.new_invar by auto

lemma strip_leaf: "strip A = Branch v Empty Empty \<Longrightarrow> \<exists>a. A = ANode a v ATip ATip"
  by (cases A) auto

text \<open>Deleting a default block (prefix length 0) from a tree that holds no other entry
  dereferences the missing parent of the root.\<close>

theorem Delete_default_panics:
  assumes "acl_ok t" and "only_root t" and "cidr_ok b" and "cidr_len b = 0"
  shows "RadixTree_Delete (cidr_text b) t = Panic NilDereference"
proof -
  from assms(1) obtain T where T: "denotes t T" "trie_ok T" by (auto simp: acl_ok_def)
  with assms(2) obtain v where "T = Branch v Empty Empty" using only_root_denotes by blast
  with T(1) have "right (nodes t (root t)) = None" "left (nodes t (root t)) = None"
      "parent (nodes t (root t)) = None"
    by (auto simp: denotes_def dest!: strip_leaf)
  then have "RadixTree_delete (cidr_ip b) (netmask 0) t = Panic NilDereference"
    by (simp add: RadixTree_delete_def delete_walk.simps prune.simps netmask_eval)
  with assms show ?thesis by (simp add: Delete_cidr)
qed

theorem Delete_default_panics_witness:
  "RadixTree_Delete (cidr_text (Cidr 0 0 0 0 0)) NewRadixTree = Panic NilDereference"
  using acl.new_invar acl.new_entry
  by (intro Delete_default_panics) (auto simp: acl_fresh_def only_root_def)

text \<open>A client address whose host part does not parse (every bracketed IPv6 address) is
  treated as 0.0.0.0: the error of \<open>InetToi\<close> is dropped.\<close>

theorem AccessControl_unparsable:
  assumes "InetToi (hd (Split addr CHR '':'')) = Ret (i, Some e)"
  shows "RadixTree_AccessControl t addr = RadixTree_AccessControl t (dotted 0 0 0 0 @ CHR '':'' # port)"
proof -
  have "InetToi (dotted 0 0 0 0) = Ret (0, None)"
    using InetToi_ipv4 [of 0 0 0 0] by (simp add: ipv4_eval)
  then show ?thesis
    using assms InetToi_error_zero [OF assms]
    by (simp add: RadixTree_AccessControl_def RadixTree_Search_def Split_append)
qed

theorem AccessControl_unparsable_witness:
  "RadixTree_AccessControl t ''[2001:db8::1]:4711'' = RadixTree_AccessControl t (dotted 0 0 0 0 @ '':80'')"
  using AccessControl_unparsable [of "''[2001:db8::1]:4711''" 0 ErrSyntax t "''80''"]
  by (simp add: InetToi_def Atoi_def ParseUint_def digit_value_def)

text \<open>The key set and the tree can disagree. Two texts with the same prefix but different
  host bits name the same entry: deleting the second removes the entry of the first, which
  the black list (and every snapshot made from it) still shows.\<close>

theorem Record_outlives_entry:
  assumes "acl_fresh t" and "cidr_ok b" "cidr_ok b'" and "cidr_path b = cidr_path b'"
    and "cidr_text b \<noteq> cidr_text b'" and "0 < cidr_len b'" and "v \<noteq> []"
  shows "\<exists>t1 t2. RadixTree_Add (cidr_text b) v t = Ret (None, t1)
    \<and> RadixTree_Delete (cidr_text b') t1 = Ret (None, t2)
    \<and> tree_entry t2 (cidr_path b) = [] \<and> Record t2 (cidr_text b) = Some True"
proof -
  have len: "cidr_len b \<le> 32" "cidr_len b' \<le> 32" using assms(2,3) by (cases b; cases b'; simp)+
  let ?u = "RadixTree_insert (cidr_ip b) (netmask (cidr_len b)) v t"
  let ?t = "?u\<lparr>Record := (Record ?u)(cidr_text b \<mapsto> True)\<rparr>"
  have add: "RadixTree_Add (cidr_text b) v t = Ret (None, ?t)"
    using assms(2) by (simp add: Add_cidr Let_def)
  have ok: "acl_ok ?t" using acl.add_invar [OF assms(1) len(1) assms(7)] by (simp add: acl_fresh_def)
  have ent: "tree_entry ?t (cidr_path b') = v"
    using acl.add_entry [OF assms(1) len(1) assms(7)] assms(4) by (simp add: cidr_path_def)
  from delete_ok [OF ok len(2), of "cidr_ip b'"] assms(6,7) ent obtain t2 where
    del: "RadixTree_delete (cidr_ip b') (netmask (cidr_len b')) ?t = Ret (True, t2)"
    and t2: "Record t2 = Record ?t" "\<forall>q. tree_entry t2 q = (if cidr_path b' = q then [] else tree_entry ?t q)"
    by (auto simp: cidr_path_def)
  have "RadixTree_Delete (cidr_text b') ?t = Ret (None, t2\<lparr>Record := (Record t2)(cidr_text b' := None)\<rparr>)"
    using assms(3) del by (simp add: Delete_cidr)
  with add t2 assms(4,5) show ?thesis by auto
qed

theorem Record_outlives_entry_witness:
  "\<exists>t1 t2. RadixTree_Add ''10.0.0.0/8'' ''x'' NewRadixTree = Ret (None, t1)
    \<and> RadixTree_Delete ''10.1.0.0/8'' t1 = Ret (None, t2)
    \<and> Record t2 ''10.0.0.0/8'' = Some True"
proof -
  have texts: "cidr_text (Cidr 10 0 0 0 8) = ''10.0.0.0/8''" "cidr_text (Cidr 10 1 0 0 8) = ''10.1.0.0/8''"
    by code_simp+
  have "cidr_path (Cidr 10 0 0 0 8) = cidr_path (Cidr 10 1 0 0 8)"
    by (simp add: cidr_path_def key_path_netmask ipv4_def netmask_def mask_eq_exp_minus_1)
  from Record_outlives_entry [OF acl.new_invar _ _ this, of "''x''"] show ?thesis
    unfolding texts by auto
qed

end
