(* ===== verification/BalancerIface.thy ===== *)
theory BalancerIface
  imports GoStd
begin

text \<open>
  The interface \<open>Balancer\<close> of \<open>balancer/balancer.go\<close> as a locale: what a load balancer
  owes its callers (\<open>NewHTTPProxy\<close>, the request handlers, the health checks). A balancer
  is seen through its set of members; \<open>addable\<close> are the hosts it may be given without
  two of them interfering. The client lemmas follow a sequence of calls, as the health
  checks and the cluster commands issue it, and say which hosts requests can reach.
\<close>

datatype balance_error = NoHostError | CantFindAnyHost

type_synonym balance_result = "balance_error + string"

datatype lb_call = LbAdd string | LbRemove string | LbBalance string

fun members_after :: "lb_call \<Rightarrow> string set \<Rightarrow> string set" where
  "members_after (LbAdd h) M = insert h M"
| "members_after (LbRemove h) M = M - {h}"
| "members_after (LbBalance k) M = M"

fun call_ok :: "string set \<Rightarrow> lb_call \<Rightarrow> string set \<Rightarrow> bool" where
  "call_ok A (LbAdd h) M \<longleftrightarrow> h \<in> A \<and> h \<notin> M"
| "call_ok A (LbRemove h) M \<longleftrightarrow> h \<in> M"
| "call_ok A (LbBalance k) M \<longleftrightarrow> True"

fun calls_ok :: "string set \<Rightarrow> lb_call list \<Rightarrow> string set \<Rightarrow> bool" where
  "calls_ok A [] M \<longleftrightarrow> True"
| "calls_ok A (c # cs) M \<longleftrightarrow> call_ok A c M \<and> calls_ok A cs (members_after c M)"

locale load_balancer =
  fixes ok :: "'s \<Rightarrow> bool"
    and members :: "'s \<Rightarrow> string set"
    and addable :: "'s \<Rightarrow> string set"
    and add :: "string \<Rightarrow> 's \<Rightarrow> 's outcome"
    and remove :: "string \<Rightarrow> 's \<Rightarrow> 's outcome"
    and balance :: "string \<Rightarrow> 's \<Rightarrow> (balance_result \<times> 's) outcome"
  assumes add_spec: "ok s \<Longrightarrow> h \<in> addable s \<Longrightarrow> h \<notin> members s \<Longrightarrow>
      \<exists>s'. add h s = Ret s' \<and> ok s' \<and> members s' = insert h (members s) \<and> addable s' = addable s"
    and remove_spec: "ok s \<Longrightarrow> h \<in> members s \<Longrightarrow>
      \<exists>s'. remove h s = Ret s' \<and> ok s' \<and> members s' = members s - {h} \<and> addable s' = addable s"
    and balance_empty: "ok s \<Longrightarrow> members s = {} \<Longrightarrow> \<exists>e. balance k s = Ret (Inl e, s)"
    and balance_member: "ok s \<Longrightarrow> members s \<noteq> {} \<Longrightarrow>
      \<exists>h s'. balance k s = Ret (Inr h, s') \<and> h \<in> members s
        \<and> ok s' \<and> members s' = members s \<and> addable s' = addable s"
begin

fun call :: "lb_call \<Rightarrow> 's \<Rightarrow> 's outcome" where
  "call (LbAdd h) s = add h s"
| "call (LbRemove h) s = remove h s"
| "call (LbBalance k) s = and_then (balance k s) (\<lambda>(r, s'). Ret s')"

lemma call_spec:
  assumes "ok s" and "call_ok (addable s) c (members s)"
  shows "\<exists>s'. call c s = Ret s' \<and> ok s' \<and> members s' = members_after c (members s)
    \<and> addable s' = addable s"
proof (cases c)
  case (LbBalance k)
  then show ?thesis
    using balance_empty [OF assms(1), of k] balance_member [OF assms(1), of k] assms(1)
    by (cases "members s = {}") auto
qed (use assms add_spec remove_spec in auto)

lemma calls_spec:
  assumes "ok s" and "calls_ok (addable s) cs (members s)"
  shows "\<exists>s'. fold_outcome call cs s = Ret s' \<and> ok s' \<and> addable s' = addable s
    \<and> members s' = fold members_after cs (members s)"
  using assms
proof (induction cs arbitrary: s)
  case (Cons c cs)
  then obtain s' where s': "call c s = Ret s'" "ok s'" "members s' = members_after c (members s)"
    "addable s' = addable s"
    using call_spec by fastforce
  from Cons.IH [OF s'(2)] Cons.prems s' show ?case by auto
qed simp

text \<open>After any admissible sequence of calls a request reaches a current member, and an
  error means that there is none.\<close>

lemma balance_after_calls:
  assumes "ok s" and "calls_ok (addable s) cs (members s)"
  shows "\<exists>s' r s''. fold_outcome call cs s = Ret s' \<and> balance k s' = Ret (r, s'')
    \<and> (case r of Inl e \<Rightarrow> fold members_after cs (members s) = {}
        | Inr h \<Rightarrow> h \<in> fold members_after cs (members s))"
proof -
  obtain s' where s': "fold_outcome call cs s = Ret s'" "ok s'"
    "members s' = fold members_after cs (members s)"
    using calls_spec [OF assms] by blast
  show ?thesis
    using s' balance_empty [OF s'(2), of k] balance_member [OF s'(2), of k]
    by (cases "members s' = {}") fastforce+
qed

end

end
