(* ===== verification/RoundRobin.thy ===== *)
theory RoundRobin
  imports BalancerIface
begin

text \<open>
  \<open>balancer/round_robin.go\<close>: a list of hosts and a 64-bit counter. The lemmas say what a
  run of \<open>Balance\<close> calls returns; the properties are the fairness of the rotation up to
  the wrap-around of the counter, what the wrap-around does, and idempotence of \<open>Add\<close>.
\<close>

record RoundRobin =
  idx :: u64
  rr_hosts :: "string list"

definition NewRoundRobin :: "string list \<Rightarrow> RoundRobin" where
  "NewRoundRobin hosts = \<lparr>idx = 0, rr_hosts = hosts\<rparr>"

definition RoundRobin_Add :: "string \<Rightarrow> RoundRobin \<Rightarrow> RoundRobin" where
  "RoundRobin_Add host r =
     (if host \<in> set (rr_hosts r) then r else r\<lparr>rr_hosts := rr_hosts r @ [host]\<rparr>)"

text \<open>The loop of \<open>Remove\<close>: the first index that holds the host is cut out.\<close>

fun remove_loop :: "string list \<Rightarrow> string list \<Rightarrow> string \<Rightarrow> string list" where
  "remove_loop before [] host = before"
| "remove_loop before (h # after) host =
     (if h = host then before @ after else remove_loop (before @ [h]) after host)"

definition RoundRobin_Remove :: "string \<Rightarrow> RoundRobin \<Rightarrow> RoundRobin" where
  "RoundRobin_Remove host r = r\<lparr>rr_hosts := remove_loop [] (rr_hosts r) host\<rparr>"

text \<open>\<open>r.idx % uint64(len(r.hosts))\<close>: the length of a slice always fits, so the
  remainder is that of the numbers.\<close>

definition RoundRobin_Balance :: "string \<Rightarrow> RoundRobin \<Rightarrow> balance_result \<times> RoundRobin" where
  "RoundRobin_Balance key r =
     (if length (rr_hosts r) = 0 then (Inl NoHostError, r)
      else (let host = rr_hosts r ! (unat (idx r) mod length (rr_hosts r))
            in (Inr host, r\<lparr>idx := idx r + 1\<rparr>)))"

definition RoundRobin_Inc :: "string \<Rightarrow> RoundRobin \<Rightarrow> RoundRobin" where
  "RoundRobin_Inc host r = r"

definition RoundRobin_Done :: "string \<Rightarrow> RoundRobin \<Rightarrow> RoundRobin" where
  "RoundRobin_Done host r = r"

definition RoundRobin_Len :: "RoundRobin \<Rightarrow> nat" where
  "RoundRobin_Len r = length (rr_hosts r)"

definition RoundRobin_Mode :: "RoundRobin \<Rightarrow> string" where
  "RoundRobin_Mode r = ''round-robin''"

subsection \<open>The contract\<close>

lemma remove_loop_remove1: "remove_loop before xs h = before @ remove1 h xs"
  by (induction xs arbitrary: before) auto

lemma RoundRobin_Remove_hosts [simp]: "rr_hosts (RoundRobin_Remove h r) = remove1 h (rr_hosts r)"
  by (simp add: RoundRobin_Remove_def remove_loop_remove1)

definition rr_ok :: "RoundRobin \<Rightarrow> bool" where
  "rr_ok r \<longleftrightarrow> distinct (rr_hosts r)"

definition rr_members :: "RoundRobin \<Rightarrow> string set" where
  "rr_members r = set (rr_hosts r)"

lemma RoundRobin_Balance_member:
  "rr_hosts r \<noteq> [] \<Longrightarrow> \<exists>h. RoundRobin_Balance k r = (Inr h, r\<lparr>idx := idx r + 1\<rparr>) \<and> h \<in> rr_members r"
  by (simp add: RoundRobin_Balance_def rr_members_def Let_def)

interpretation rr: load_balancer rr_ok rr_members "\<lambda>_. UNIV"
  "\<lambda>h r. Ret (RoundRobin_Add h r)" "\<lambda>h r. Ret (RoundRobin_Remove h r)"
  "\<lambda>k r. Ret (RoundRobin_Balance k r)"
proof unfold_locales
  fix r :: RoundRobin and h k :: string
  show "rr_ok r \<Longrightarrow> h \<notin> rr_members r \<Longrightarrow>
      \<exists>r'. Ret (RoundRobin_Add h r) = Ret r' \<and> rr_ok r' \<and> rr_members r' = insert h (rr_members r) \<and> UNIV = UNIV"
    by (auto simp: rr_ok_def rr_members_def RoundRobin_Add_def)
  show "rr_ok r \<Longrightarrow> h \<in> rr_members r \<Longrightarrow>
      \<exists>r'. Ret (RoundRobin_Remove h r) = Ret r' \<and> rr_ok r' \<and> rr_members r' = rr_members r - {h} \<and> UNIV = UNIV"
    by (auto simp: rr_ok_def rr_members_def)
  show "rr_members r = {} \<Longrightarrow> \<exists>e. Ret (RoundRobin_Balance k r) = Ret (Inl e, r)"
    by (auto simp: RoundRobin_Balance_def rr_members_def)
  assume "rr_ok r" "rr_members r \<noteq> {}"
  then show "\<exists>h r'. Ret (RoundRobin_Balance k r) = Ret (Inr h, r') \<and> h \<in> rr_members r \<and> rr_ok r'
      \<and> rr_members r' = rr_members r \<and> UNIV = UNIV"
    using RoundRobin_Balance_member [of r k] by (auto simp: rr_ok_def rr_members_def)
qed

subsection \<open>Runs of Balance\<close>

lemma unat_plus_one: "unat (w :: u64) + 1 < 2 ^ 64 \<Longrightarrow> unat (w + 1) = unat w + 1"
  by (simp add: unat_word_ariths)

text \<open>The hosts that \<open>n\<close> consecutive requests are sent to.\<close>

fun served :: "nat \<Rightarrow> RoundRobin \<Rightarrow> balance_result list" where
  "served 0 r = []"
| "served (Suc n) r =
     (let (res, r') = RoundRobin_Balance [] r in res # served n r')"

lemma served_nth:
  assumes "rr_hosts r \<noteq> []" and "unat (idx r) + n \<le> 2 ^ 64"
  shows "served n r = map (\<lambda>i. Inr (rr_hosts r ! ((unat (idx r) + i) mod length (rr_hosts r)))) [0..<n]"
  using assms
proof (induction n arbitrary: r)
  case (Suc n)
  let ?r = "r\<lparr>idx := idx r + 1\<rparr>"
  show ?case
  proof (cases n)
    case 0
    then show ?thesis using Suc.prems by (simp add: RoundRobin_Balance_def)
  next
    case (Suc m)
    with Suc.prems have "unat (idx r + 1) = unat (idx r) + 1" by (intro unat_plus_one) simp
    then have "served n ?r =
        map (\<lambda>i. Inr (rr_hosts r ! ((unat (idx r) + Suc i) mod length (rr_hosts r)))) [0..<n]"
      using Suc.IH [of ?r] Suc.prems by simp
    moreover have "[0..<Suc n] = 0 # map Suc [0..<n]" by (simp add: map_Suc_upt upt_conv_Cons del: upt_Suc)
    ultimately show ?thesis
      using Suc.prems by (simp add: RoundRobin_Balance_def del: upt_Suc)
  qed
qed simp

lemma count_rotate: "count_list (rotate s xs) x = count_list xs x"
proof (induction s)
  case (Suc s)
  have "count_list (rotate1 ys) x = count_list ys x" for ys :: "'a list"
    by (cases ys) auto
  then show ?case by (simp add: Suc)
qed simp

definition rotation :: "'a list \<Rightarrow> nat \<Rightarrow> nat \<Rightarrow> 'a list" where
  "rotation xs s n = map (\<lambda>i. xs ! ((s + i) mod length xs)) [0..<n]"

lemma rotation_add: "rotation xs s (m + n) = rotation xs s m @ rotation xs (s + m) n"
proof -
  have "[0..<m + n] = [0..<m] @ map (\<lambda>i. i + m) [0..<n]"
    by (simp only: map_add_upt upt_add_eq_append [OF le0] add.commute [of n m] add_0)
  then show ?thesis by (simp add: rotation_def add.assoc add.commute [of m])
qed

lemma count_rotation_block: "count_list (rotation xs s (length xs)) x = count_list xs x"
proof (cases "xs = []")
  case False
  then have "rotation xs s (length xs) = rotate s xs"
    by (intro nth_equalityI) (simp_all add: rotation_def nth_rotate add.commute)
  then show ?thesis by (simp add: count_rotate)
qed (simp add: rotation_def)

lemma count_rotation_blocks: "count_list (rotation xs s (k * length xs)) x = k * count_list xs x"
proof (induction k arbitrary: s)
  case 0
  show ?case by (simp add: rotation_def)
qed (simp add: rotation_add count_rotation_block)

lemma count_rotation:
  assumes "xs \<noteq> []"
  shows "n div length xs * count_list xs x \<le> count_list (rotation xs s n) x"
    and "count_list (rotation xs s n) x \<le> (n div length xs + 1) * count_list xs x"
proof -
  let ?q = "n div length xs" and ?rest = "n mod length xs"
  have n: "n = ?q * length xs + ?rest" by simp
  then have c: "count_list (rotation xs s n) x
      = ?q * count_list xs x + count_list (rotation xs (s + ?q * length xs) ?rest) x"
    by (metis count_list_append count_rotation_blocks rotation_add)
  then show "?q * count_list xs x \<le> count_list (rotation xs s n) x" by simp
  have "length xs = ?rest + (length xs - ?rest)" using assms by simp
  then have "count_list (rotation xs (s + ?q * length xs) ?rest) x \<le> count_list xs x"
    by (metis count_list_append count_rotation_block le_add1 rotation_add)
  then show "count_list (rotation xs s n) x \<le> (?q + 1) * count_list xs x" using c by simp
qed

lemma served_rotation:
  assumes "rr_hosts r \<noteq> []" and "unat (idx r) + n \<le> 2 ^ 64"
  shows "served n r = map Inr (rotation (rr_hosts r) (unat (idx r)) n)"
  using served_nth [OF assms] by (simp add: rotation_def)

subsection \<open>Properties\<close>

text \<open>C21: the rotation is fair. As long as the counter does not wrap around, among any
  \<open>n\<close> consecutive requests a host that is listed once serves \<open>n div k\<close> or
  \<open>n div k + 1\<close> of them, where \<open>k\<close> is the number of hosts (a host listed \<open>c\<close> times gets
  \<open>c\<close> shares), and no request fails.\<close>

theorem round_robin_fair:
  assumes "rr_hosts r \<noteq> []" and "unat (idx r) + n \<le> 2 ^ 64"
  shows "n div RoundRobin_Len r * count_list (rr_hosts r) h \<le> count_list (served n r) (Inr h)
    \<and> count_list (served n r) (Inr h) \<le> (n div RoundRobin_Len r + 1) * count_list (rr_hosts r) h
    \<and> (\<forall>e. Inl e \<notin> set (served n r))"
proof -
  have "count_list (map Inr ys) (Inr h :: balance_result) = count_list ys h" for ys
    by (induction ys) auto
  then show ?thesis
    using count_rotation [OF assms(1), where n = n and x = h and s = "unat (idx r)"]
    by (auto simp: served_rotation [OF assms] RoundRobin_Len_def)
qed

theorem round_robin_fair_witness:
  "count_list (served 7 (NewRoundRobin [''a'', ''b'', ''c''])) (Inr ''a'') \<in> {2, 3}"
  using round_robin_fair [of "NewRoundRobin [''a'', ''b'', ''c'']" 7 "''a''"]
  by (auto simp: NewRoundRobin_def RoundRobin_Len_def)

text \<open>What the wrap-around of the counter does. Two consecutive requests go to
  neighbours in the list of hosts (the last is followed by the first) unless the counter
  wraps in between; then the second goes to the first host, which continues the rotation
  only if the number of hosts divides \<open>2^64\<close>.\<close>

theorem round_robin_wrap:
  assumes "rr_hosts r \<noteq> []"
  shows "\<exists>i r'. i < RoundRobin_Len r
    \<and> RoundRobin_Balance k r = (Inr (rr_hosts r ! i), r')
    \<and> fst (RoundRobin_Balance k r') =
        Inr (rr_hosts r ! (if unat (idx r) = 2 ^ 64 - 1 then 0 else (i + 1) mod RoundRobin_Len r))
    \<and> (unat (idx r) = 2 ^ 64 - 1 \<longrightarrow> ((i + 1) mod RoundRobin_Len r = 0 \<longleftrightarrow> RoundRobin_Len r dvd 2 ^ 64))"
proof (intro exI conjI impI)
  let ?L = "RoundRobin_Len r" and ?i = "unat (idx r) mod RoundRobin_Len r"
  show "?i < ?L" using assms by (simp add: RoundRobin_Len_def)
  show "RoundRobin_Balance k r = (Inr (rr_hosts r ! ?i), r\<lparr>idx := idx r + 1\<rparr>)"
    using assms by (simp add: RoundRobin_Balance_def RoundRobin_Len_def)
  show "fst (RoundRobin_Balance k (r\<lparr>idx := idx r + 1\<rparr>)) =
      Inr (rr_hosts r ! (if unat (idx r) = 2 ^ 64 - 1 then 0 else (?i + 1) mod ?L))"
  proof (cases "unat (idx r) = 2 ^ 64 - 1")
    case True
    then have "idx r + 1 = 0" by (simp add: word_arith_nat_add)
    then show ?thesis using assms True by (simp add: RoundRobin_Balance_def)
  next
    case False
    moreover have "unat (idx r) < 2 ^ 64" using unsigned_less [of "idx r"] by simp
    ultimately have "unat (idx r + 1) = unat (idx r) + 1" by (intro unat_plus_one) simp
    then show ?thesis using assms False by (simp add: RoundRobin_Balance_def RoundRobin_Len_def mod_Suc_eq)
  qed
  show "(?i + 1) mod ?L = 0 \<longleftrightarrow> ?L dvd 2 ^ 64" if "unat (idx r) = 2 ^ 64 - 1"
  proof -
    have "(?i + 1) mod ?L = (unat (idx r) + 1) mod ?L" by (simp add: mod_Suc_eq)
    then show ?thesis using that by (simp add: dvd_eq_mod_eq_0)
  qed
qed

theorem round_robin_wrap_witness:
  "fst (RoundRobin_Balance ''k'' (snd (RoundRobin_Balance ''k''
     \<lparr>idx = - 1, rr_hosts = [''a'', ''b'', ''c'']\<rparr>))) = Inr ''a''
   \<and> fst (RoundRobin_Balance ''k'' \<lparr>idx = - 1, rr_hosts = [''a'', ''b'', ''c'']\<rparr>) = Inr ''a''"
proof -
  have "unat (- 1 :: u64) = 2 ^ 64 - 1" by (simp add: unsigned_minus_1_eq_mask mask_eq_exp_minus_1)
  then show ?thesis
    using round_robin_wrap [of "\<lparr>idx = - 1, rr_hosts = [''a'', ''b'', ''c'']\<rparr>" "''k''"]
    by (auto simp: RoundRobin_Balance_def)
qed

end
