(* ===== verification/RoundRobinRace.thy ===== *)
theory RoundRobinRace
  imports RoundRobin
begin

text \<open>
  Concurrent calls of the round-robin balancer. \<open>Balance\<close> holds only the read lock, so
  several requests run its statements interleaved: the length test, the choice of a host,
  and the two halves of \<open>r.idx++\<close>. \<open>Add\<close> and \<open>Remove\<close> hold the write lock and run
  while no request is inside. The invariant shows that the index is always in range; the
  properties also show what the unprotected counter costs.
\<close>

datatype phase =
    Waiting
  | Locked                    \<comment> \<open>holds the read lock\<close>
  | Checked                   \<comment> \<open>has seen that the list is not empty\<close>
  | Chosen string             \<comment> \<open>has read \<open>r.hosts[r.idx % len]\<close>\<close>
  | Loaded string u64         \<comment> \<open>has loaded \<open>r.idx\<close> for the increment\<close>
  | Finished balance_result

record rr_world =
  lb :: RoundRobin
  reqs :: "nat \<Rightarrow> phase"

fun inside :: "phase \<Rightarrow> bool" where
  "inside Waiting = False"
| "inside (Finished r) = False"
| "inside _ = True"

definition goto :: "nat \<Rightarrow> phase \<Rightarrow> rr_world \<Rightarrow> rr_world" where
  "goto i p w = w\<lparr>reqs := (reqs w)(i := p)\<rparr>"

inductive rr_step :: "rr_world \<Rightarrow> rr_world \<Rightarrow> bool" where
  enter: "reqs w i = Waiting \<Longrightarrow> rr_step w (goto i Locked w)"
| no_host: "reqs w i = Locked \<Longrightarrow> rr_hosts (lb w) = [] \<Longrightarrow>
    rr_step w (goto i (Finished (Inl NoHostError)) w)"
| check: "reqs w i = Locked \<Longrightarrow> rr_hosts (lb w) \<noteq> [] \<Longrightarrow> rr_step w (goto i Checked w)"
| choose: "reqs w i = Checked \<Longrightarrow>
    rr_step w (goto i (Chosen (rr_hosts (lb w) ! (unat (idx (lb w)) mod length (rr_hosts (lb w))))) w)"
| load: "reqs w i = Chosen h \<Longrightarrow> rr_step w (goto i (Loaded h (idx (lb w))) w)"
| store: "reqs w i = Loaded h v \<Longrightarrow>
    rr_step w (goto i (Finished (Inr h)) (w\<lparr>lb := (lb w)\<lparr>idx := v + 1\<rparr>\<rparr>))"
| add: "\<forall>i. \<not> inside (reqs w i) \<Longrightarrow> rr_step w (w\<lparr>lb := RoundRobin_Add h (lb w)\<rparr>)"
| remove: "\<forall>i. \<not> inside (reqs w i) \<Longrightarrow> rr_step w (w\<lparr>lb := RoundRobin_Remove h (lb w)\<rparr>)"

inductive_cases rr_stepE: "rr_step w w'"

definition start :: "string list \<Rightarrow> rr_world" where
  "start hosts = \<lparr>lb = NewRoundRobin hosts, reqs = (\<lambda>_. Waiting)\<rparr>"

text \<open>While a request is inside, the list it looked at is still there.\<close>

fun phase_ok :: "string list \<Rightarrow> phase \<Rightarrow> bool" where
  "phase_ok hs Checked \<longleftrightarrow> hs \<noteq> []"
| "phase_ok hs (Chosen h) \<longleftrightarrow> h \<in> set hs"
| "phase_ok hs (Loaded h v) \<longleftrightarrow> h \<in> set hs"
| "phase_ok hs p \<longleftrightarrow> True"

definition world_ok :: "rr_world \<Rightarrow> bool" where
  "world_ok w \<longleftrightarrow> (\<forall>i. phase_ok (rr_hosts (lb w)) (reqs w i))"

lemma phase_ok_outside: "\<not> inside p \<Longrightarrow> phase_ok hs p"
  by (cases p) auto

lemma world_ok_step: "rr_step w w' \<Longrightarrow> world_ok w \<Longrightarrow> world_ok w'"
proof (induction rule: rr_step.induct)
  case (choose w i)
  then have "rr_hosts (lb w) \<noteq> []" by (auto simp: world_ok_def dest: spec [of _ i])
  with choose show ?case by (auto simp: world_ok_def goto_def)
next
  case (load w i h)
  then have "h \<in> set (rr_hosts (lb w))" by (auto simp: world_ok_def dest: spec [of _ i])
  with load show ?case by (auto simp: world_ok_def goto_def)
qed (auto simp: world_ok_def goto_def phase_ok_outside)

lemma world_ok_reachable: "rr_step\<^sup>*\<^sup>* (start hosts) w \<Longrightarrow> world_ok w"
proof (induction rule: rtranclp_induct)
  case base
  show ?case by (simp add: world_ok_def start_def)
qed (auto intro: world_ok_step)

subsection \<open>Properties\<close>

text \<open>C32: under any interleaving of requests, additions and removals a request inside
  \<open>Balance\<close> never indexes out of range, and the host it has chosen is in the list at every
  moment until it leaves: the read lock keeps the list still.\<close>

theorem chosen_host_listed:
  assumes "rr_step\<^sup>*\<^sup>* (start hosts) w"
  shows "(reqs w i = Checked \<longrightarrow> unat (idx (lb w)) mod length (rr_hosts (lb w)) < length (rr_hosts (lb w)))
    \<and> (\<forall>h v. reqs w i = Chosen h \<or> reqs w i = Loaded h v \<longrightarrow> h \<in> set (rr_hosts (lb w)))"
proof -
  have "phase_ok (rr_hosts (lb w)) (reqs w i)"
    using world_ok_reachable [OF assms] by (simp add: world_ok_def)
  then show ?thesis by (cases "reqs w i") auto
qed

lemma one_request:
  assumes "reqs w i = Waiting" "rr_hosts (lb w) \<noteq> []"
  shows "rr_step\<^sup>*\<^sup>* w (goto i (Loaded (rr_hosts (lb w) ! (unat (idx (lb w)) mod length (rr_hosts (lb w))))
    (idx (lb w))) w)" (is "rr_step\<^sup>*\<^sup>* w (goto i (Loaded ?h ?v) w)")
proof -
  have set: "goto i p (goto i q w) = goto i p w" for p q by (simp add: goto_def)
  have "rr_step w (goto i Locked w)" by (rule enter [OF assms(1)])
  moreover have "rr_step (goto i Locked w) (goto i Checked w)"
    using check [of "goto i Locked w" i] assms(2) by (simp add: set) (simp add: goto_def)
  moreover have "rr_step (goto i Checked w) (goto i (Chosen ?h) w)"
    using choose [of "goto i Checked w" i] by (simp add: set) (simp add: goto_def)
  moreover have "rr_step (goto i (Chosen ?h) w) (goto i (Loaded ?h ?v) w)"
    using load [of "goto i (Chosen ?h) w" i ?h] by (simp add: set) (simp add: goto_def)
  ultimately show ?thesis by (meson rtranclp.rtrancl_refl rtranclp.rtrancl_into_rtrancl)
qed

theorem chosen_host_listed_witness:
  "\<exists>w. rr_step\<^sup>*\<^sup>* (start [''a'', ''b'']) w \<and> reqs w 0 = Loaded ''a'' 0 \<and> ''a'' \<in> set (rr_hosts (lb w))"
proof -
  let ?w = "goto 0 (Loaded ''a'' 0) (start [''a'', ''b''])"
  have r: "rr_step\<^sup>*\<^sup>* (start [''a'', ''b'']) ?w"
    using one_request [of "start [''a'', ''b'']" 0] by (simp add: start_def NewRoundRobin_def)
  have p: "reqs ?w 0 = Loaded ''a'' 0" by (simp add: goto_def)
  with chosen_host_listed [OF r, of 0] have "''a'' \<in> set (rr_hosts (lb ?w))" by auto
  with r p show ?thesis by blast
qed

text \<open>The counter is not protected. With any two or more hosts, two requests that
  overlap can both be sent to the first host while the counter advances by one only: the
  rotation is fair for sequential requests, not for concurrent ones.\<close>

theorem balance_race:
  assumes "2 \<le> length hosts"
  shows "\<exists>w. rr_step\<^sup>*\<^sup>* (start hosts) w
    \<and> reqs w 0 = Finished (Inr (hosts ! 0)) \<and> reqs w 1 = Finished (Inr (hosts ! 0)) \<and> idx (lb w) = 1"
proof -
  let ?s = "start hosts" and ?h = "hosts ! 0"
  let ?w1 = "goto 0 (Loaded ?h 0) ?s"
  let ?w2 = "goto 1 (Loaded ?h 0) ?w1"
  have h: "hosts \<noteq> []" using assms by auto
  have "rr_step\<^sup>*\<^sup>* ?s ?w1"
    using one_request [of ?s 0] h by (simp add: start_def NewRoundRobin_def)
  also have "rr_step\<^sup>*\<^sup>* ?w1 ?w2"
    using one_request [of ?w1 1] h by (simp add: start_def NewRoundRobin_def goto_def)
  also have "rr_step ?w2 (goto 0 (Finished (Inr ?h)) (?w2\<lparr>lb := (lb ?w2)\<lparr>idx := 0 + 1\<rparr>\<rparr>))"
    (is "rr_step _ ?w3") by (rule store) (simp add: goto_def)
  also have "rr_step ?w3 (goto 1 (Finished (Inr ?h)) (?w3\<lparr>lb := (lb ?w3)\<lparr>idx := 0 + 1\<rparr>\<rparr>))"
    (is "rr_step _ ?w4") by (rule store) (simp add: goto_def)
  finally have "rr_step\<^sup>*\<^sup>* ?s ?w4" .
  then show ?thesis by (rule exI [of _ ?w4, OF conjI]) (simp add: goto_def)
qed

theorem balance_race_witness:
  "\<exists>w. rr_step\<^sup>*\<^sup>* (start [''a'', ''b'']) w
    \<and> reqs w 0 = Finished (Inr ''a'') \<and> reqs w 1 = Finished (Inr ''a'') \<and> idx (lb w) = 1"
  using balance_race [of "[''a'', ''b'']"] by simp

end
