(* ===== verification/ConsistenceHash.thy ===== *)
theory ConsistenceHash
  imports BalancerIface "HOL-Library.Multiset"
begin

text \<open>
  \<open>balancer/consistence_hash.go\<close>: a sorted list of hash values (the ring), and a map from
  hash value to host. \<open>replicas\<close> virtual nodes per host hash the replica number followed
  by the host. The hash function is a field of the structure, as in the code; the
  constructor sets it to CRC-32. The lemmas describe \<open>Add\<close>, \<open>Remove\<close> and \<open>Balance\<close> on
  any sorted ring; \<open>ch_ok\<close> is the case in which no two virtual nodes collide.
\<close>

record ConsistenceHash =
  hash :: "string \<Rightarrow> u32"
  replicas :: int
  keys :: "int list"
  ch_hosts :: "int \<Rightarrow> string option"

definition node_key :: "ConsistenceHash \<Rightarrow> string \<Rightarrow> nat \<Rightarrow> int" where
  "node_key c host i = uint (hash c (Itoa i @ host))"

definition replica_range :: "ConsistenceHash \<Rightarrow> nat list" where
  "replica_range c = [0..<nat (replicas c)]"

text \<open>One round of the loops of \<open>Add\<close> and \<open>Remove\<close>. The slice expression
  \<open>append(c.keys[:idx], c.keys[idx+1:]...)\<close> panics when \<open>idx\<close> is the length.\<close>

definition add_node :: "string \<Rightarrow> nat \<Rightarrow> ConsistenceHash \<Rightarrow> ConsistenceHash" where
  "add_node host i c =
     (let h = node_key c host i
      in c\<lparr>keys := keys c @ [h], ch_hosts := (ch_hosts c)(h \<mapsto> host)\<rparr>)"

definition cut :: "nat \<Rightarrow> int list \<Rightarrow> int list outcome" where
  "cut i ks = (if length ks < i + 1 then Panic SliceBounds else Ret (take i ks @ drop (i + 1) ks))"

definition remove_node :: "string \<Rightarrow> nat \<Rightarrow> ConsistenceHash \<Rightarrow> ConsistenceHash outcome" where
  "remove_node host i c =
     (let h = node_key c host i
      in and_then (cut (SearchInts (keys c) h) (keys c)) (\<lambda>ks.
           Ret (c\<lparr>keys := ks, ch_hosts := (ch_hosts c)(h := None)\<rparr>)))"

definition ConsistenceHash_Add :: "string \<Rightarrow> ConsistenceHash \<Rightarrow> ConsistenceHash" where
  "ConsistenceHash_Add host c =
     (let c' = fold (add_node host) (replica_range c) c
      in c'\<lparr>keys := sort (keys c')\<rparr>)"

definition NewConsistenceHash :: "int \<Rightarrow> string list \<Rightarrow> ConsistenceHash" where
  "NewConsistenceHash cfg_replicas hosts =
     fold ConsistenceHash_Add hosts
       \<lparr>hash = ChecksumIEEE, replicas = cfg_replicas, keys = [], ch_hosts = Map.empty\<rparr>"

definition ConsistenceHash_Remove :: "string \<Rightarrow> ConsistenceHash \<Rightarrow> ConsistenceHash outcome" where
  "ConsistenceHash_Remove host c =
     fold_outcome (remove_node host) (replica_range c) c"

text \<open>A key without an entry in the map reads as the empty string.\<close>

definition ConsistenceHash_Balance :: "string \<Rightarrow> ConsistenceHash \<Rightarrow> balance_result outcome" where
  "ConsistenceHash_Balance url c =
     (if length (keys c) = 0 then Ret (Inl CantFindAnyHost)
      else (let h = uint (hash c url);
                idx = sort_Search (length (keys c)) (\<lambda>i. keys c ! i \<ge> h)
            in Ret (Inr (case ch_hosts c (keys c ! (idx mod length (keys c))) of
                           None \<Rightarrow> [] | Some host \<Rightarrow> host))))"

definition ConsistenceHash_Inc :: "string \<Rightarrow> ConsistenceHash \<Rightarrow> ConsistenceHash" where
  "ConsistenceHash_Inc host c = c"

definition ConsistenceHash_Done :: "string \<Rightarrow> ConsistenceHash \<Rightarrow> ConsistenceHash" where
  "ConsistenceHash_Done host c = c"

text \<open>\<open>len(c.hosts)\<close>: the number of virtual nodes, not of hosts.\<close>

definition ConsistenceHash_Len :: "ConsistenceHash \<Rightarrow> nat" where
  "ConsistenceHash_Len c = card (dom (ch_hosts c))"

definition ConsistenceHash_Mode :: "ConsistenceHash \<Rightarrow> string" where
  "ConsistenceHash_Mode c = ''consistence-hash''"

subsection \<open>Add\<close>

definition host_keys :: "ConsistenceHash \<Rightarrow> string \<Rightarrow> int list" where
  "host_keys c host = map (node_key c host) (replica_range c)"

lemma node_key_update [simp]:
  "node_key (c\<lparr>keys := ks, ch_hosts := m\<rparr>) = node_key c"
  "node_key (c\<lparr>keys := ks\<rparr>) = node_key c" "node_key (c\<lparr>ch_hosts := m\<rparr>) = node_key c"
  by (simp_all add: node_key_def fun_eq_iff)

lemma replica_range_update [simp]:
  "replica_range (c\<lparr>keys := ks, ch_hosts := m\<rparr>) = replica_range c"
  "replica_range (c\<lparr>keys := ks\<rparr>) = replica_range c"
  by (simp_all add: replica_range_def)

lemma host_keys_update [simp]:
  "host_keys (c\<lparr>keys := ks, ch_hosts := m\<rparr>) = host_keys c"
  by (simp add: host_keys_def fun_eq_iff)

lemma Add_loop:
  "fold (add_node host) is c =
   c\<lparr>keys := keys c @ map (node_key c host) is,
     ch_hosts := (\<lambda>k. if k \<in> set (map (node_key c host) is) then Some host else ch_hosts c k)\<rparr>"
  by (induction "is" arbitrary: c) (auto simp: add_node_def Let_def fun_eq_iff)

lemma Add_eq:
  "ConsistenceHash_Add host c =
   c\<lparr>keys := sort (keys c @ host_keys c host),
     ch_hosts := (\<lambda>k. if k \<in> set (host_keys c host) then Some host else ch_hosts c k)\<rparr>"
  by (simp add: ConsistenceHash_Add_def Add_loop host_keys_def)

subsection \<open>Remove\<close>

lemma cut_member:
  assumes "sorted ks" "h \<in> set ks"
  shows "cut (SearchInts ks h) ks = Ret (remove1 h ks)"
proof -
  let ?i = "SearchInts ks h"
  have i: "?i < length ks" "ks ! ?i = h" using SearchInts_member [OF assms] .
  have before: "h \<notin> set (take ?i ks)"
    using SearchInts_spec(2) [OF assms(1), of _ h] i(1) by (fastforce simp: in_set_conv_nth)
  have "ks = take ?i ks @ h # drop (Suc ?i) ks" using i by (metis id_take_nth_drop)
  then have "remove1 h ks = take ?i ks @ drop (Suc ?i) ks"
    using before by (metis remove1.simps(2) remove1_append)
  then show ?thesis using i(1) by (simp add: cut_def)
qed

lemma Remove_loop:
  assumes "sorted (keys c)" and "mset (map (node_key c host) is) \<subseteq># mset (keys c)"
  shows "fold_outcome (remove_node host) is c =
    Ret (c\<lparr>keys := sorted_list_of_multiset (mset (keys c) - mset (map (node_key c host) is)),
      ch_hosts := (\<lambda>k. if k \<in> set (map (node_key c host) is) then None else ch_hosts c k)\<rparr>)"
  using assms
proof (induction "is" arbitrary: c)
  case Nil
  then show ?case by (simp add: sorted_sort_id)
next
  case (Cons i "is")
  let ?h = "node_key c host i" and ?n = "map (node_key c host) is"
  let ?c = "c\<lparr>keys := remove1 ?h (keys c), ch_hosts := (ch_hosts c)(?h := None)\<rparr>"
  have mem: "?h \<in> set (keys c)"
    using Cons.prems(2) by (metis list.set_intros(1) list.simps(9) mset_subset_eqD set_mset_mset)
  have step: "remove_node host i c = Ret ?c"
    by (simp add: remove_node_def Let_def cut_member [OF Cons.prems(1) mem])
  have "sorted (keys ?c)" using Cons.prems(1) by (simp add: sorted_remove1)
  moreover have "mset (map (node_key ?c host) is) \<subseteq># mset (keys ?c)"
    using Cons.prems(2) mem by (simp add: insert_subset_eq_iff)
  ultimately have "fold_outcome (remove_node host) is ?c =
      Ret (?c\<lparr>keys := sorted_list_of_multiset (mset (keys ?c) - mset (map (node_key ?c host) is)),
        ch_hosts := (\<lambda>k. if k \<in> set (map (node_key ?c host) is) then None else ch_hosts ?c k)\<rparr>)"
    by (rule Cons.IH)
  also have "(\<lambda>k. if k \<in> set (map (node_key ?c host) is) then None else ch_hosts ?c k)
      = (\<lambda>k. if k \<in> set (map (node_key c host) (i # is)) then None else ch_hosts c k)"
    by auto
  also have "mset (keys ?c) - mset (map (node_key ?c host) is)
      = mset (keys c) - mset (map (node_key c host) (i # is))"
    by simp
  finally show ?case by (simp only: fold_outcome.simps step and_then.simps) simp
qed

lemma Remove_eq:
  assumes "sorted (keys c)" and "mset (host_keys c host) \<subseteq># mset (keys c)"
  shows "ConsistenceHash_Remove host c =
    Ret (c\<lparr>keys := sorted_list_of_multiset (mset (keys c) - mset (host_keys c host)),
      ch_hosts := (\<lambda>k. if k \<in> set (host_keys c host) then None else ch_hosts c k)\<rparr>)"
  using Remove_loop [OF assms [unfolded host_keys_def]] by (simp add: ConsistenceHash_Remove_def host_keys_def)

subsection \<open>Balance\<close>

text \<open>The place of a value on a ring of keys: the least key not below it, or the least key
  of all.\<close>

definition ring_next :: "int set \<Rightarrow> int \<Rightarrow> int" where
  "ring_next K x = (if \<exists>k\<in>K. x \<le> k then Min {k \<in> K. x \<le> k} else Min K)"

definition key_host :: "ConsistenceHash \<Rightarrow> int \<Rightarrow> string" where
  "key_host c k = (case ch_hosts c k of None \<Rightarrow> [] | Some host \<Rightarrow> host)"

lemma Search_ring:
  assumes "sorted ks" "ks \<noteq> []"
  shows "ks ! (SearchInts ks x mod length ks) = ring_next (set ks) x"
proof (cases "SearchInts ks x < length ks")
  case True
  let ?i = "SearchInts ks x"
  have ge: "x \<le> ks ! ?i" using SearchInts_spec(3) [OF assms(1) order_refl True] .
  have "Min {k \<in> set ks. x \<le> k} = ks ! ?i"
  proof (rule Min_eqI)
    fix k assume "k \<in> {k \<in> set ks. x \<le> k}"
    then obtain j where j: "j < length ks" "k = ks ! j" "x \<le> k" by (auto simp: in_set_conv_nth)
    then have "?i \<le> j" using SearchInts_spec(2) [OF assms(1), of j x] by (meson not_less)
    then show "ks ! ?i \<le> k" using sorted_nth_mono [OF assms(1)] j by simp
  qed (use True ge in auto)
  moreover have "\<exists>k\<in>set ks. x \<le> k" using True ge by auto
  ultimately show ?thesis using True by (simp add: ring_next_def)
next
  case False
  then have i: "SearchInts ks x = length ks" using SearchInts_spec(1) [OF assms(1), of x] by simp
  have "\<not> x \<le> k" if "k \<in> set ks" for k
    using that SearchInts_spec(2) [OF assms(1), of _ x] i by (fastforce simp: in_set_conv_nth)
  moreover have "Min (set ks) = ks ! 0"
    using assms by (intro Min_eqI) (auto simp: in_set_conv_nth intro: sorted_nth_mono)
  ultimately show ?thesis using assms(2) i by (auto simp: ring_next_def)
qed

lemma Balance_eq:
  "sorted (keys c) \<Longrightarrow> keys c \<noteq> [] \<Longrightarrow>
   ConsistenceHash_Balance url c = Ret (Inr (key_host c (ring_next (set (keys c)) (uint (hash c url)))))"
  using Search_ring [of "keys c" "uint (hash c url)"]
  by (simp add: ConsistenceHash_Balance_def key_host_def SearchInts_def Let_def)

lemma ring_next_in: "finite K \<Longrightarrow> K \<noteq> {} \<Longrightarrow> ring_next K x \<in> K"
  using Min_in [of "{k \<in> K. x \<le> k}"] Min_in [of K] by (auto simp: ring_next_def)

lemma ring_next_eq:
  assumes "finite K" "k \<in> K" "K \<subseteq> L" "finite L" "ring_next L x = k"
  shows "ring_next K x = k"
proof (cases "\<exists>l\<in>L. x \<le> l")
  case True
  then have k: "k = Min {l \<in> L. x \<le> l}" using assms(5) by (simp add: ring_next_def)
  have "Min {l \<in> L. x \<le> l} \<in> {l \<in> L. x \<le> l}" using True assms(4) by (intro Min_in) auto
  with k have "x \<le> k" "\<And>l. l \<in> L \<Longrightarrow> x \<le> l \<Longrightarrow> k \<le> l"
    using assms(4) by auto
  then show ?thesis
    using assms(1-3) by (auto simp: ring_next_def intro!: Min_eqI)
next
  case False
  then have k: "k = Min L" using assms(5) by (simp add: ring_next_def)
  then have "\<And>l. l \<in> L \<Longrightarrow> k \<le> l" using assms(4) by simp
  moreover have "\<not> (\<exists>l\<in>K. x \<le> l)" using False assms(3) by blast
  ultimately show ?thesis
    using assms(1-3) unfolding ring_next_def by (auto intro!: Min_eqI)
qed

lemma ring_next_Un:
  assumes "finite K" "finite L" "K \<noteq> {}"
  shows "ring_next (K \<union> L) x \<in> L \<or> ring_next (K \<union> L) x = ring_next K x"
  using ring_next_in [of "K \<union> L" x] ring_next_eq [of K "ring_next (K \<union> L) x" "K \<union> L" x] assms by auto

subsection \<open>Rings without collisions\<close>

definition ch_members :: "ConsistenceHash \<Rightarrow> string set" where
  "ch_members c = ran (ch_hosts c)"

definition no_collision :: "string set \<Rightarrow> ConsistenceHash \<Rightarrow> bool" where
  "no_collision U c \<longleftrightarrow> inj_on (\<lambda>(h, i). node_key c h i) (U \<times> {..<nat (replicas c)})"

definition ch_ok :: "string set \<Rightarrow> ConsistenceHash \<Rightarrow> bool" where
  "ch_ok U c \<longleftrightarrow> 0 < replicas c \<and> no_collision U c \<and> sorted (keys c) \<and> distinct (keys c)
     \<and> set (keys c) = dom (ch_hosts c) \<and> ch_members c \<subseteq> U
     \<and> (\<forall>k h. ch_hosts c k = Some h \<longleftrightarrow> h \<in> ch_members c \<and> k \<in> set (host_keys c h))"

lemma ch_ok_entry:
  "ch_ok U c \<Longrightarrow> ch_hosts c k = Some h \<longleftrightarrow> h \<in> ch_members c \<and> k \<in> set (host_keys c h)"
  by (simp add: ch_ok_def)

lemma ch_ok_keys: "ch_ok U c \<Longrightarrow> ch_hosts c k = None \<longleftrightarrow> k \<notin> set (keys c)"
  by (auto simp: ch_ok_def)

lemma host_keys_nonempty: "0 < replicas c \<Longrightarrow> host_keys c h \<noteq> []"
  by (simp add: host_keys_def replica_range_def)

lemma host_keys_distinct: "no_collision U c \<Longrightarrow> h \<in> U \<Longrightarrow> distinct (host_keys c h)"
  by (auto simp: host_keys_def replica_range_def distinct_map no_collision_def inj_on_def)

lemma host_keys_disjoint:
  "no_collision U c \<Longrightarrow> h \<in> U \<Longrightarrow> g \<in> U \<Longrightarrow> k \<in> set (host_keys c h) \<Longrightarrow> k \<in> set (host_keys c g) \<Longrightarrow> g = h"
  by (fastforce simp: host_keys_def replica_range_def no_collision_def inj_on_def)

lemma Add_ok:
  assumes "ch_ok U c" "h \<in> U" "h \<notin> ch_members c"
  shows "ch_ok U (ConsistenceHash_Add h c)"
    and "ch_members (ConsistenceHash_Add h c) = insert h (ch_members c)"
proof -
  note ok = assms(1) [unfolded ch_ok_def]
  let ?c = "ConsistenceHash_Add h c"
  have nc: "no_collision U c" using ok by blast
  have new: "ch_hosts c k = None" if "k \<in> set (host_keys c h)" for k
  proof (cases "ch_hosts c k")
    case (Some g)
    then have "g \<in> ch_members c" "k \<in> set (host_keys c g)" using ok by blast+
    moreover from this have "g \<in> U" using ok by blast
    ultimately show ?thesis using host_keys_disjoint [OF nc assms(2)] that assms(3) by blast
  qed
  have old: "ch_hosts ?c k = Some g \<longleftrightarrow> (g = h \<and> k \<in> set (host_keys c h)) \<or> ch_hosts c k = Some g" for k g
    using new [of k] by (auto simp: Add_eq)
  have "host_keys c h \<noteq> []" using ok host_keys_nonempty by blast
  then have "\<exists>k. k \<in> set (host_keys c h)" by (meson list.set_sel(1))
  then show mem: "ch_members ?c = insert h (ch_members c)"
    by (auto simp: ch_members_def ran_def old)
  have "node_key ?c = node_key c" "replicas ?c = replicas c" by (simp_all add: Add_eq)
  then have "no_collision U ?c" "host_keys ?c = host_keys c"
    using nc by (simp_all add: no_collision_def host_keys_def fun_eq_iff replica_range_def)
  moreover have "set (host_keys c h) \<inter> set (keys c) = {}" using new ok by auto
  moreover have "set (keys ?c) = dom (ch_hosts ?c)" using ok by (auto simp: Add_eq split: if_splits)
  ultimately show "ch_ok U ?c"
    using ok assms(2) host_keys_distinct [OF nc assms(2)] old mem \<open>replicas ?c = replicas c\<close>
    unfolding ch_ok_def by (auto simp: Add_eq)
qed

lemma Remove_ok:
  assumes "ch_ok U c" "h \<in> ch_members c"
  shows "\<exists>c'. ConsistenceHash_Remove h c = Ret c' \<and> ch_ok U c' \<and> ch_members c' = ch_members c - {h}
    \<and> hash c' = hash c \<and> set (keys c') = set (keys c) - set (host_keys c h)
    \<and> (\<forall>k \<in> set (keys c'). ch_hosts c' k = ch_hosts c k)"
proof -
  note ok = assms(1) [unfolded ch_ok_def]
  have nc: "no_collision U c" and hU: "h \<in> U" using ok assms(2) by blast+
  have sub: "set (host_keys c h) \<subseteq> set (keys c)" using ok assms(2) by (metis domI subsetI)
  then have msub: "mset (host_keys c h) \<subseteq># mset (keys c)"
    using subset_imp_msubset_mset_set [OF sub] mset_set_set [OF host_keys_distinct [OF nc hU]]
      mset_set_set [of "keys c"] ok by (metis List.finite_set)
  define ks where "ks = sorted_list_of_multiset (mset (keys c) - mset (host_keys c h))"
  let ?c = "c\<lparr>keys := ks,
      ch_hosts := (\<lambda>k. if k \<in> set (host_keys c h) then None else ch_hosts c k)\<rparr>"
  have rem: "ConsistenceHash_Remove h c = Ret ?c"
    using Remove_eq [OF _ msub] ok unfolding ks_def by blast
  have "mset (keys c) - mset (host_keys c h) = mset_set (set (keys c) - set (host_keys c h))"
    using mset_set_Diff [OF List.finite_set sub] mset_set_set [OF host_keys_distinct [OF nc hU]]
      mset_set_set [of "keys c"] ok by metis
  then have ks: "ks = sorted_list_of_set (set (keys c) - set (host_keys c h))"
    by (simp add: sorted_list_of_mset_set ks_def)
  have old: "ch_hosts ?c k = Some g \<longleftrightarrow> g \<noteq> h \<and> ch_hosts c k = Some g" for k g
    using ok host_keys_disjoint [OF nc hU] assms(2) by auto
  then have mem: "ch_members ?c = ch_members c - {h}"
    by (auto simp: ch_members_def ran_def)
  have "no_collision U ?c" "host_keys ?c = host_keys c"
    using nc by (simp_all add: no_collision_def fun_eq_iff)
  moreover have setks: "set ks = set (keys c) - set (host_keys c h)"
    by (simp add: ks)
  moreover have "set (keys ?c) = dom (ch_hosts ?c)" using ok setks by (auto split: if_splits)
  moreover have "sorted (keys ?c)" "distinct (keys ?c)" by (simp_all add: ks)
  ultimately have "ch_ok U ?c"
    using ok old mem unfolding ch_ok_def by auto
  moreover have "\<forall>k \<in> set (keys ?c). ch_hosts ?c k = ch_hosts c k" by (simp add: setks)
  moreover have "set (keys ?c) = set (keys c) - set (host_keys c h)" by (simp add: setks)
  ultimately show ?thesis using rem mem by (intro exI [of _ ?c]) auto
qed

lemma Balance_ok:
  assumes "ch_ok U c" "ch_members c \<noteq> {}"
  shows "\<exists>h. ConsistenceHash_Balance url c = Ret (Inr h) \<and> h \<in> ch_members c
    \<and> ch_hosts c (ring_next (set (keys c)) (uint (hash c url))) = Some h"
proof -
  let ?k = "ring_next (set (keys c)) (uint (hash c url))"
  from assms(2) obtain k0 h0 where "ch_hosts c k0 = Some h0" by (auto simp: ch_members_def ran_def)
  then have ne: "keys c \<noteq> []" using ch_ok_keys [OF assms(1), of k0] by auto
  then have "?k \<in> set (keys c)" using ring_next_in [of "set (keys c)"] by simp
  then obtain h where h: "ch_hosts c ?k = Some h" using ch_ok_keys [OF assms(1), of ?k] by auto
  then have "h \<in> ch_members c" by (auto simp: ch_members_def ran_def)
  moreover have "sorted (keys c)" using assms(1) by (simp add: ch_ok_def)
  ultimately show ?thesis using Balance_eq [OF _ ne, of url] h by (auto simp: key_host_def)
qed

lemma Balance_none:
  assumes "ch_ok U c" "ch_members c = {}"
  shows "ConsistenceHash_Balance url c = Ret (Inl CantFindAnyHost)"
proof -
  have "ch_hosts c k = None" for k
    using assms(2) by (cases "ch_hosts c k") (auto simp: ch_members_def ran_def)
  then have "keys c = []" using ch_ok_keys [OF assms(1)] by (metis list.set_intros(1) neq_Nil_conv)
  then show ?thesis by (simp add: ConsistenceHash_Balance_def)
qed

interpretation ch: load_balancer "ch_ok U" ch_members "\<lambda>_. U"
  "\<lambda>h c. Ret (ConsistenceHash_Add h c)" ConsistenceHash_Remove
  "\<lambda>url c. and_then (ConsistenceHash_Balance url c) (\<lambda>res. Ret (res, c))" for U
proof unfold_locales
  fix c h url
  assume ok: "ch_ok U c"
  show "h \<in> U \<Longrightarrow> h \<notin> ch_members c \<Longrightarrow>
      \<exists>c'. Ret (ConsistenceHash_Add h c) = Ret c' \<and> ch_ok U c' \<and> ch_members c' = insert h (ch_members c) \<and> U = U"
    using Add_ok [OF ok] by auto
  show "h \<in> ch_members c \<Longrightarrow>
      \<exists>c'. ConsistenceHash_Remove h c = Ret c' \<and> ch_ok U c' \<and> ch_members c' = ch_members c - {h} \<and> U = U"
    using Remove_ok [OF ok] by blast
  show "ch_members c = {} \<Longrightarrow>
      \<exists>e. and_then (ConsistenceHash_Balance url c) (\<lambda>res. Ret (res, c)) = Ret (Inl e, c)"
    using Balance_none [OF ok] by simp
  show "ch_members c \<noteq> {} \<Longrightarrow>
      \<exists>h c'. and_then (ConsistenceHash_Balance url c) (\<lambda>res. Ret (res, c)) = Ret (Inr h, c') \<and> h \<in> ch_members c
        \<and> ch_ok U c' \<and> ch_members c' = ch_members c \<and> U = U"
    using Balance_ok [OF ok, of url] ok by auto
qed

subsection \<open>Properties\<close>

text \<open>C22: adding a host moves requests only to that host. On any non-empty ring, whatever
  collisions the hash has, after \<open>Add\<close> every key of a request is served by the new host or
  by the host that served it before.\<close>

theorem Add_moves_only_to_new_host:
  assumes "sorted (keys c)" and "keys c \<noteq> []"
  shows "ConsistenceHash_Balance url (ConsistenceHash_Add host c)
    \<in> {ConsistenceHash_Balance url c, Ret (Inr host)}"
proof -
  let ?c = "ConsistenceHash_Add host c" and ?x = "uint (hash c url)"
  let ?k = "ring_next (set (keys c) \<union> set (host_keys c host)) ?x"
  have c': "sorted (keys ?c)" "keys ?c \<noteq> []" "hash ?c = hash c"
      "set (keys ?c) = set (keys c) \<union> set (host_keys c host)"
    using assms(2) by (simp_all add: Add_eq flip: set_empty)
  then have bal: "ConsistenceHash_Balance url ?c = Ret (Inr (key_host ?c ?k))"
    by (simp add: Balance_eq)
  show ?thesis
  proof (cases "?k \<in> set (host_keys c host)")
    case True
    then have "key_host ?c ?k = host" by (simp add: key_host_def Add_eq)
    then show ?thesis using bal by simp
  next
    case False
    then have "?k = ring_next (set (keys c)) ?x"
      using ring_next_Un [of "set (keys c)" "set (host_keys c host)" ?x] assms(2) by auto
    moreover have "key_host ?c ?k = key_host c ?k" using False by (simp add: key_host_def Add_eq)
    ultimately show ?thesis using bal Balance_eq [OF assms, of url] by simp
  qed
qed

definition ring_ab :: ConsistenceHash where
  "ring_ab = ConsistenceHash_Add ''b'' (ConsistenceHash_Add ''a''
     \<lparr>hash = (\<lambda>s. of_char (last s)), replicas = 1, keys = [], ch_hosts = Map.empty\<rparr>)"

lemma ring_ab_eq:
  "ring_ab = \<lparr>hash = (\<lambda>s. of_char (last s)), replicas = 1, keys = [97, 98],
     ch_hosts = [97 \<mapsto> ''a'', 98 \<mapsto> ''b'']\<rparr>"
  by (auto simp: ring_ab_def Add_eq host_keys_def replica_range_def node_key_def Itoa.simps fun_eq_iff)

theorem Add_moves_only_to_new_host_witness:
  "ConsistenceHash_Balance ''client'' (ConsistenceHash_Add ''c'' ring_ab)
    \<in> {ConsistenceHash_Balance ''client'' ring_ab, Ret (Inr ''c'')}"
  by (rule Add_moves_only_to_new_host) (simp_all add: ring_ab_eq)

text \<open>Removing a host moves only the requests it served. On a ring without collisions a
  request that another host serves keeps that host, and a request of the removed host goes
  to one of the remaining hosts, or fails if none is left.\<close>

theorem Remove_moves_only_from_host:
  assumes "ch_ok U c" and "host \<in> ch_members c"
  shows "\<exists>c' g. ConsistenceHash_Remove host c = Ret c' \<and> ConsistenceHash_Balance url c = Ret (Inr g)
    \<and> (if g \<noteq> host then ConsistenceHash_Balance url c' = Ret (Inr g)
       else if ch_members c = {host} then ConsistenceHash_Balance url c' = Ret (Inl CantFindAnyHost)
       else \<exists>g' \<in> ch_members c - {host}. ConsistenceHash_Balance url c' = Ret (Inr g'))"
proof -
  let ?x = "uint (hash c url)"
  obtain c' where c': "ConsistenceHash_Remove host c = Ret c'" "ch_ok U c'"
    "ch_members c' = ch_members c - {host}" "hash c' = hash c"
    "set (keys c') = set (keys c) - set (host_keys c host)"
    "\<And>k. k \<in> set (keys c') \<Longrightarrow> ch_hosts c' k = ch_hosts c k"
    using Remove_ok [OF assms] by blast
  have ne: "ch_members c \<noteq> {}" using assms(2) by blast
  obtain g where g: "ConsistenceHash_Balance url c = Ret (Inr g)" "g \<in> ch_members c"
    "ch_hosts c (ring_next (set (keys c)) ?x) = Some g" (is "ch_hosts c ?k = _")
    using Balance_ok [OF assms(1) ne] by blast
  have other: "ConsistenceHash_Balance url c' = Ret (Inr g)" if "g \<noteq> host"
  proof -
    have "?k \<in> set (keys c)" using g(3) ch_ok_keys [OF assms(1), of ?k] by auto
    moreover have "?k \<notin> set (host_keys c host)"
      using ch_ok_entry [OF assms(1), of ?k host] assms(2) g(3) that by auto
    ultimately have k: "?k \<in> set (keys c')" using c'(5) by simp
    then have "ring_next (set (keys c')) ?x = ?k"
      using ring_next_eq [of "set (keys c')" ?k "set (keys c)"] c'(5) by auto
    moreover have "sorted (keys c')" "keys c' \<noteq> []" using c'(2) k by (auto simp: ch_ok_def)
    ultimately show ?thesis using Balance_eq [of c' url] c'(4,6) k g(3) by (simp add: key_host_def)
  qed
  show ?thesis
    using c'(1) g(1) other Balance_none [OF c'(2), of url] Balance_ok [OF c'(2), of url] c'(3) g(2)
    by auto
qed

lemma ring_ab_ok: "ch_ok {''a'', ''b''} ring_ab"
  by (auto simp: ring_ab_eq ch_ok_def no_collision_def inj_on_def ch_members_def ran_def
      host_keys_def replica_range_def node_key_def Itoa.simps split: if_splits)

theorem Remove_moves_only_from_host_witness:
  "\<exists>c'. ConsistenceHash_Remove ''a'' ring_ab = Ret c'
    \<and> ConsistenceHash_Balance ''b'' c' = Ret (Inr ''b'')"
proof -
  have "''a'' \<in> ch_members ring_ab" by (auto simp: ring_ab_eq ch_members_def ran_def)
  moreover have "ConsistenceHash_Balance ''b'' ring_ab = Ret (Inr ''b'')"
    by (simp add: ring_ab_eq ConsistenceHash_Balance_def sort_Search_def Search_loop.simps)
  ultimately show ?thesis
    using Remove_moves_only_from_host [OF ring_ab_ok, of "''a''" "''b''"] by auto
qed

text \<open>\<open>Remove\<close> undoes \<open>Add\<close>: on a ring where none of the new host's virtual nodes is
  taken, adding a host and removing it gives the ring back, and the removal does not panic.\<close>

lemma Remove_Add_eq:
  assumes "sorted (keys c)"
  shows "ConsistenceHash_Remove host (ConsistenceHash_Add host c) =
    Ret (c\<lparr>ch_hosts := (\<lambda>k. if k \<in> set (host_keys c host) then None else ch_hosts c k)\<rparr>)"
proof -
  let ?c = "ConsistenceHash_Add host c"
  have "host_keys ?c = host_keys c" by (simp add: Add_eq)
  moreover have "mset (keys ?c) = mset (keys c) + mset (host_keys c host)" by (simp add: Add_eq)
  moreover have "sorted (keys ?c)" by (simp add: Add_eq)
  ultimately have "ConsistenceHash_Remove host ?c =
      Ret (?c\<lparr>keys := sorted_list_of_multiset (mset (keys c)),
        ch_hosts := (\<lambda>k. if k \<in> set (host_keys c host) then None else ch_hosts ?c k)\<rparr>)"
    by (subst Remove_eq) simp_all
  moreover have "(\<lambda>k. if k \<in> set (host_keys c host) then None else ch_hosts ?c k)
      = (\<lambda>k. if k \<in> set (host_keys c host) then None else ch_hosts c k)"
    by (auto simp: Add_eq)
  moreover have "sorted_list_of_multiset (mset (keys c)) = keys c"
    using assms by (simp add: sorted_sort_id)
  ultimately show ?thesis by (simp only:) (simp add: Add_eq)
qed

text \<open>C28: removing a host that was just added gives back the same ring, if none of its virtual
  nodes has the key of another host.\<close>

theorem Remove_undoes_Add:
  assumes "sorted (keys c)" and "\<forall>k \<in> set (host_keys c host). ch_hosts c k = None"
  shows "ConsistenceHash_Remove host (ConsistenceHash_Add host c) = Ret c"
proof -
  have "(\<lambda>k. if k \<in> set (host_keys c host) then None else ch_hosts c k) = ch_hosts c"
    using assms(2) by auto
  then show ?thesis using Remove_Add_eq [OF assms(1), of host] by simp
qed

theorem Remove_undoes_Add_witness:
  "ConsistenceHash_Remove ''c'' (ConsistenceHash_Add ''c'' ring_ab) = Ret ring_ab"
  by (rule Remove_undoes_Add)
    (auto simp: ring_ab_eq host_keys_def replica_range_def node_key_def Itoa.simps)

text \<open>Two calls of \<open>Add\<close> for one host are not undone by one \<open>Remove\<close>: its keys were
  entered twice, so they stay on the ring without a host, and a request is balanced to the
  empty host name, without an error.\<close>

theorem Add_twice_Remove_dangles:
  assumes "0 < replicas c" and "keys c = []" and "ch_hosts c = Map.empty"
  shows "\<exists>c'. ConsistenceHash_Remove host (ConsistenceHash_Add host (ConsistenceHash_Add host c)) = Ret c'
    \<and> ConsistenceHash_Balance url c' = Ret (Inr [])"
proof -
  let ?c = "ConsistenceHash_Add host c"
  let ?d = "?c\<lparr>ch_hosts := Map.empty\<rparr>"
  have srt: "sorted (keys ?c)" by (simp add: Add_eq)
  have "host_keys ?c = host_keys c" by (simp add: Add_eq)
  then have "(\<lambda>k. if k \<in> set (host_keys ?c host) then None else ch_hosts ?c k) = Map.empty"
    using assms(3) by (auto simp: Add_eq)
  then have "ConsistenceHash_Remove host (ConsistenceHash_Add host ?c) = Ret ?d"
    using Remove_Add_eq [OF srt, of host] by simp
  moreover have "keys ?d \<noteq> []"
    using host_keys_nonempty [OF assms(1), of host] by (simp add: Add_eq flip: set_empty)
  then have "ConsistenceHash_Balance url ?d = Ret (Inr [])"
    using srt by (subst Balance_eq) (simp_all add: key_host_def)
  ultimately show ?thesis by blast
qed

theorem Add_twice_Remove_dangles_witness:
  "\<exists>c'. ConsistenceHash_Remove ''h:80'' (ConsistenceHash_Add ''h:80'' (NewConsistenceHash 3 [''h:80''])) = Ret c'
    \<and> ConsistenceHash_Balance ''10.0.0.1'' c' = Ret (Inr [])"
  using Add_twice_Remove_dangles
    [of "\<lparr>hash = ChecksumIEEE, replicas = 3, keys = [], ch_hosts = Map.empty\<rparr>" "''h:80''" "''10.0.0.1''"]
  by (simp add: NewConsistenceHash_def)

text \<open>Removing a host that is not on the ring panics when the hash of its first virtual
  node lies above every key (always, on an empty ring): the slice expression runs past the
  end.\<close>

theorem Remove_absent_panics:
  assumes "sorted (keys c)" and "0 < replicas c" and "\<forall>k \<in> set (keys c). k < node_key c host 0"
  shows "ConsistenceHash_Remove host c = Panic SliceBounds"
proof -
  let ?i = "SearchInts (keys c) (node_key c host 0)"
  have "\<not> ?i < length (keys c)"
    using SearchInts_spec(3) [OF assms(1) order_refl] assms(3) by (metis nth_mem not_le)
  then have "cut ?i (keys c) = Panic SliceBounds" by (simp add: cut_def)
  moreover have "replica_range c = 0 # map Suc [0..<nat (replicas c) - 1]"
    using assms(2) by (cases "nat (replicas c)")
      (simp_all add: replica_range_def upt_conv_Cons map_Suc_upt del: upt_Suc)
  ultimately show ?thesis by (simp add: ConsistenceHash_Remove_def remove_node_def Let_def)
qed

theorem Remove_absent_panics_witness:
  "ConsistenceHash_Remove ''h:80'' (NewConsistenceHash 3 []) = Panic SliceBounds"
  by (rule Remove_absent_panics) (simp_all add: NewConsistenceHash_def)

text \<open>Virtual nodes are named by writing the replica number before the host without a
  separator. With twelve or more replicas, node 11 of \<open>1.1.1.1:80\<close> and node 1 of
  \<open>11.1.1.1:80\<close> have the same name: whatever the hash function, removing the second host
  leaves a key of the first without a host.\<close>

theorem replica_names_collide:
  assumes "12 \<le> replicas c" and "sorted (keys c)"
  shows "\<exists>c'. ConsistenceHash_Remove ''11.1.1.1:80''
        (ConsistenceHash_Add ''11.1.1.1:80'' (ConsistenceHash_Add ''1.1.1.1:80'' c)) = Ret c'
    \<and> ConsistenceHash_Balance ''111.1.1.1:80'' c' = Ret (Inr [])"
proof -
  let ?a = "''1.1.1.1:80''" and ?b = "''11.1.1.1:80''" and ?n = "''111.1.1.1:80''"
  let ?c = "ConsistenceHash_Add ?a c"
  let ?d = "?c\<lparr>ch_hosts := (\<lambda>k. if k \<in> set (host_keys ?c ?b) then None else ch_hosts ?c k)\<rparr>"
  let ?k = "uint (hash c ?n)"
  have srt: "sorted (keys ?c)" by (simp add: Add_eq)
  have hk: "host_keys ?c = host_keys c" by (simp add: Add_eq)
  have names: "Itoa 11 @ ?a = ?n" "Itoa 1 @ ?b = ?n" by code_simp+
  have "11 \<in> set (replica_range c)" "1 \<in> set (replica_range c)"
    using assms(1) by (auto simp: replica_range_def)
  moreover have "node_key c ?a 11 = ?k" "node_key c ?b 1 = ?k"
    unfolding node_key_def names by (rule refl)+
  ultimately have in_a: "?k \<in> set (host_keys c ?a)" and in_b: "?k \<in> set (host_keys c ?b)"
    unfolding host_keys_def set_map by (metis imageI)+
  then have mem: "?k \<in> set (keys ?c)" by (simp add: Add_eq)
  have "ring_next (set (keys ?c)) ?k = ?k"
    using mem unfolding ring_next_def by (auto intro!: Min_eqI)
  moreover have "keys ?d = keys ?c" "hash ?d = hash c" by (simp_all add: Add_eq)
  ultimately have "ConsistenceHash_Balance ?n ?d = Ret (Inr [])"
    using mem srt in_b hk by (subst Balance_eq) (auto simp: key_host_def)
  then show ?thesis using Remove_Add_eq [OF srt, of ?b] by (intro exI [of _ ?d]) simp
qed

theorem replica_names_collide_witness:
  "\<exists>c'. ConsistenceHash_Remove ''11.1.1.1:80''
        (ConsistenceHash_Add ''11.1.1.1:80'' (ConsistenceHash_Add ''1.1.1.1:80'' (NewConsistenceHash 15 []))) = Ret c'
    \<and> ConsistenceHash_Balance ''111.1.1.1:80'' c' = Ret (Inr [])"
  using replica_names_collide [of "NewConsistenceHash 15 []"] by (simp add: NewConsistenceHash_def)

text \<open>A host that was added twice is not gone after one removal. \<open>Add\<close> does not ask whether the host
  is there, so its keys are on the ring twice, while the map of hosts holds them once:
  \<open>Remove\<close> then leaves keys without a host, and the requests that the host served are sent to
  the host with the empty name. The leader adds every host twice, in the handler and from the
  log, and a health check that fails removes it once.\<close>

theorem Remove_after_two_Adds:
  assumes "sorted (keys c)" "host \<notin> ch_members c" "host \<noteq> []"
  shows "\<exists>c'. ConsistenceHash_Remove host (ConsistenceHash_Add host (ConsistenceHash_Add host c)) = Ret c'
    \<and> keys c' = keys (ConsistenceHash_Add host c)
    \<and> (\<forall>url. ConsistenceHash_Balance url (ConsistenceHash_Add host c) = Ret (Inr host)
         \<longrightarrow> ConsistenceHash_Balance url c' = Ret (Inr []))"
proof -
  let ?hk = "host_keys c host" and ?c1 = "ConsistenceHash_Add host c"
  let ?c2 = "ConsistenceHash_Add host ?c1"
  have same: "host_keys ?c1 host = ?hk" "host_keys ?c2 host = ?hk" by (simp_all add: Add_eq)
  have two: "mset (keys ?c2) = mset (keys ?c1) + mset ?hk" "sorted (keys ?c2)" "sorted (keys ?c1)"
    using same(1) by (simp_all add: Add_eq [of host ?c1]) (simp add: Add_eq)
  let ?c' = "?c2\<lparr>keys := keys ?c1, ch_hosts := (\<lambda>k. if k \<in> set ?hk then None else ch_hosts ?c2 k)\<rparr>"
  have rem: "ConsistenceHash_Remove host ?c2 = Ret ?c'"
    using Remove_eq [OF two(2), of host] two(1,3) by (simp add: same(2) sorted_sort_id)
  have bal: "ConsistenceHash_Balance url ?c' = Ret (Inr [])" if served: "ConsistenceHash_Balance url ?c1 = Ret (Inr host)" for url
  proof -
    have ne: "keys ?c1 \<noteq> []" using served by (auto simp: ConsistenceHash_Balance_def)
    let ?k = "ring_next (set (keys ?c1)) (uint (hash c url))"
    have "hash ?c1 = hash c" "hash ?c' = hash c" by (simp_all add: Add_eq)
    note eqs = Balance_eq [OF two(3) ne, of url] Balance_eq [of ?c' url] this
    have "key_host ?c1 ?k = host" using served eqs by simp
    then have "ch_hosts ?c1 ?k = Some host" using assms(3) by (auto simp: key_host_def split: option.splits)
    then have "?k \<in> set ?hk" using assms(2) by (auto simp: Add_eq ch_members_def ran_def split: if_splits)
    then have "key_host ?c' ?k = []" by (simp add: key_host_def)
    then show ?thesis using eqs(2-) two(3) ne by simp
  qed
  show ?thesis using rem bal by (intro exI [of _ ?c']) simp
qed

theorem Remove_after_two_Adds_witness:
  "\<exists>c'. ConsistenceHash_Remove ''c'' (ConsistenceHash_Add ''c'' (ConsistenceHash_Add ''c'' ring_ab)) = Ret c'
     \<and> ConsistenceHash_Balance ''xc'' c' = Ret (Inr [])"
proof -
  have "sorted (keys ring_ab)" "''c'' \<notin> ch_members ring_ab" "''c'' \<noteq> []"
    by (simp_all add: ring_ab_eq ch_members_def ran_def)
  moreover have "ConsistenceHash_Balance ''xc'' (ConsistenceHash_Add ''c'' ring_ab) = Ret (Inr ''c'')" by code_simp
  ultimately show ?thesis using Remove_after_two_Adds [of ring_ab "''c''"] by blast
qed

end
