(* ===== verification/Balancer.thy ===== *)
theory Balancer
  imports RoundRobin ConsistenceHash
begin

text \<open>
  \<open>balancer/balancer.go\<close>: the factory and the interface value. The two algorithms
  register themselves under their names in \<open>init\<close>; \<open>Build\<close> looks the name up. The number
  of replicas, which the hash ring reads from the configuration, is an argument. The
  interpretation \<open>lb\<close> gives the contract of \<open>load_balancer\<close> for every balancer that
  \<open>Build\<close> can return.
\<close>

type_synonym Algorithm = string

datatype Balancer = RR RoundRobin | CH ConsistenceHash

definition factories :: "int \<Rightarrow> Algorithm \<Rightarrow> (string list \<Rightarrow> Balancer) option" where
  "factories cfg_replicas = Map.empty
     (''round-robin'' \<mapsto> (\<lambda>hosts. RR (NewRoundRobin hosts)),
      ''consistence-hash'' \<mapsto> (\<lambda>hosts. CH (NewConsistenceHash cfg_replicas hosts)))"

datatype build_error = AlgorithmNotSupportedError

definition Build :: "int \<Rightarrow> Algorithm \<Rightarrow> string list \<Rightarrow> build_error + Balancer" where
  "Build cfg_replicas algo hosts =
     (case factories cfg_replicas algo of
        None \<Rightarrow> Inl AlgorithmNotSupportedError
      | Some factory \<Rightarrow> Inr (factory hosts))"

definition GetBalancerType :: "int \<Rightarrow> string list \<Rightarrow> bool" where
  "GetBalancerType cfg_replicas res \<longleftrightarrow> distinct res \<and> set res = dom (factories cfg_replicas)"

subsection \<open>The interface value\<close>

fun Balancer_Add :: "string \<Rightarrow> Balancer \<Rightarrow> Balancer" where
  "Balancer_Add h (RR r) = RR (RoundRobin_Add h r)"
| "Balancer_Add h (CH c) = CH (ConsistenceHash_Add h c)"

fun Balancer_Remove :: "string \<Rightarrow> Balancer \<Rightarrow> Balancer outcome" where
  "Balancer_Remove h (RR r) = Ret (RR (RoundRobin_Remove h r))"
| "Balancer_Remove h (CH c) = and_then (ConsistenceHash_Remove h c) (\<lambda>c'. Ret (CH c'))"

fun Balancer_Balance :: "string \<Rightarrow> Balancer \<Rightarrow> (balance_result \<times> Balancer) outcome" where
  "Balancer_Balance k (RR r) = (let (res, r') = RoundRobin_Balance k r in Ret (res, RR r'))"
| "Balancer_Balance k (CH c) = and_then (ConsistenceHash_Balance k c) (\<lambda>res. Ret (res, CH c))"

fun Balancer_Inc :: "string \<Rightarrow> Balancer \<Rightarrow> Balancer" where
  "Balancer_Inc h (RR r) = RR (RoundRobin_Inc h r)"
| "Balancer_Inc h (CH c) = CH (ConsistenceHash_Inc h c)"

fun Balancer_Done :: "string \<Rightarrow> Balancer \<Rightarrow> Balancer" where
  "Balancer_Done h (RR r) = RR (RoundRobin_Done h r)"
| "Balancer_Done h (CH c) = CH (ConsistenceHash_Done h c)"

fun Balancer_Len :: "Balancer \<Rightarrow> nat" where
  "Balancer_Len (RR r) = RoundRobin_Len r"
| "Balancer_Len (CH c) = ConsistenceHash_Len c"

fun Balancer_Mode :: "Balancer \<Rightarrow> string" where
  "Balancer_Mode (RR r) = RoundRobin_Mode r"
| "Balancer_Mode (CH c) = ConsistenceHash_Mode c"

subsection \<open>The contract\<close>

fun lb_ok :: "string set \<Rightarrow> Balancer \<Rightarrow> bool" where
  "lb_ok U (RR r) = rr_ok r"
| "lb_ok U (CH c) = ch_ok U c"

fun lb_members :: "Balancer \<Rightarrow> string set" where
  "lb_members (RR r) = rr_members r"
| "lb_members (CH c) = ch_members c"

interpretation lb: load_balancer "lb_ok U" lb_members "\<lambda>_. U"
  "\<lambda>h b. Ret (Balancer_Add h b)" Balancer_Remove Balancer_Balance for U
proof unfold_locales
  fix b h k
  assume ok: "lb_ok U b"
  show "h \<in> U \<Longrightarrow> h \<notin> lb_members b \<Longrightarrow>
      \<exists>b'. Ret (Balancer_Add h b) = Ret b' \<and> lb_ok U b' \<and> lb_members b' = insert h (lb_members b) \<and> U = U"
    using ok rr.add_spec Add_ok [of U _ h] by (cases b) auto
  show "h \<in> lb_members b \<Longrightarrow>
      \<exists>b'. Balancer_Remove h b = Ret b' \<and> lb_ok U b' \<and> lb_members b' = lb_members b - {h} \<and> U = U"
  proof (cases b)
    case (RR r)
    then show "h \<in> lb_members b \<Longrightarrow> ?thesis" using ok rr.remove_spec [of r h] by auto
  next
    case (CH c)
    then show "h \<in> lb_members b \<Longrightarrow> ?thesis" using ok Remove_ok [of U c h] by auto
  qed
  show "lb_members b = {} \<Longrightarrow> \<exists>e. Balancer_Balance k b = Ret (Inl e, b)"
    using ok rr.balance_empty [of _ k] Balance_none [of U _ k] by (cases b) fastforce+
  show "lb_members b \<noteq> {} \<Longrightarrow>
      \<exists>h b'. Balancer_Balance k b = Ret (Inr h, b') \<and> h \<in> lb_members b \<and> lb_ok U b'
        \<and> lb_members b' = lb_members b \<and> U = U"
  proof (cases b)
    case (RR r)
    then show "lb_members b \<noteq> {} \<Longrightarrow> ?thesis" using ok rr.balance_member [of r k] by auto
  next
    case (CH c)
    then show "lb_members b \<noteq> {} \<Longrightarrow> ?thesis" using ok Balance_ok [of U c k] by auto
  qed
qed

lemma NewRoundRobin_contract:
  "distinct hosts \<Longrightarrow> rr_ok (NewRoundRobin hosts) \<and> rr_members (NewRoundRobin hosts) = set hosts"
  by (simp add: rr_ok_def rr_members_def NewRoundRobin_def)

definition crc_no_collision :: "int \<Rightarrow> string set \<Rightarrow> bool" where
  "crc_no_collision n U \<longleftrightarrow> inj_on (\<lambda>(h, i). ChecksumIEEE (Itoa i @ h)) (U \<times> {..<nat n})"

lemma NewConsistenceHash_contract:
  assumes "0 < n" "crc_no_collision n U" "distinct hosts" "set hosts \<subseteq> U"
  shows "ch_ok U (NewConsistenceHash n hosts) \<and> ch_members (NewConsistenceHash n hosts) = set hosts"
proof -
  let ?c0 = "\<lparr>hash = ChecksumIEEE, replicas = n, keys = [], ch_hosts = Map.empty\<rparr>"
  have "ch_ok U ?c0"
    using assms(1,2)
    by (auto simp: ch_ok_def no_collision_def crc_no_collision_def node_key_def ch_members_def inj_on_def
        simp flip: word_uint_eq_iff)
  moreover have "ch_members ?c0 = {}" by (simp add: ch_members_def)
  moreover have "ch_ok U (fold ConsistenceHash_Add hosts c)
      \<and> ch_members (fold ConsistenceHash_Add hosts c) = ch_members c \<union> set hosts"
    if "ch_ok U c" "set hosts \<inter> ch_members c = {}" "distinct hosts" "set hosts \<subseteq> U" for c
    using that
  proof (induction hosts arbitrary: c)
    case (Cons h hosts)
    then have "h \<in> U" "h \<notin> ch_members c" by auto
    from Add_ok [OF Cons.prems(1) this] Cons.IH [of "ConsistenceHash_Add h c"] Cons.prems
    show ?case by auto
  qed simp
  ultimately show ?thesis using assms(3,4) by (simp add: NewConsistenceHash_def)
qed

lemma Build_contract:
  assumes "algo = ''round-robin'' \<or> algo = ''consistence-hash'' \<and> 0 < n \<and> crc_no_collision n U"
    and "distinct hosts" and "set hosts \<subseteq> U"
  shows "\<exists>b. Build n algo hosts = Inr b \<and> lb_ok U b \<and> lb_members b = set hosts"
  using assms NewRoundRobin_contract [OF assms(2)] NewConsistenceHash_contract [of n U hosts]
  by (auto simp: Build_def factories_def)

subsection \<open>Properties\<close>

text \<open>C23: a balancer of either kind, built from distinct hosts and then driven by any
  sequence of calls that adds absent hosts and removes present ones, sends the next request
  to a host that is a member at that moment; a request fails only if no member is left, and
  no call panics. For the hash ring this needs at least one replica and hosts whose virtual
  nodes do not collide.\<close>

theorem balancer_serves_members:
  assumes "algo = ''round-robin'' \<or> algo = ''consistence-hash'' \<and> 0 < n \<and> crc_no_collision n U"
    and "distinct hosts" and "set hosts \<subseteq> U" and "calls_ok U calls (set hosts)"
  shows "\<exists>b b' r b''. Build n algo hosts = Inr b \<and> fold_outcome lb.call calls b = Ret b'
    \<and> Balancer_Balance key b' = Ret (r, b'')
    \<and> (case r of Inl e \<Rightarrow> fold members_after calls (set hosts) = {}
        | Inr h \<Rightarrow> h \<in> fold members_after calls (set hosts))"
proof -
  obtain b where b: "Build n algo hosts = Inr b" "lb_ok U b" "lb_members b = set hosts"
    using Build_contract [OF assms(1-3)] by blast
  then show ?thesis
    using lb.balance_after_calls [OF b(2), of calls key, unfolded b(3), OF assms(4)] by blast
qed

theorem balancer_serves_members_witness:
  "\<exists>b b' r b''. Build 3 ''round-robin'' [''a:80'', ''b:80''] = Inr b
    \<and> fold_outcome lb.call [LbRemove ''a:80'', LbAdd ''c:80'', LbBalance ''k''] b = Ret b'
    \<and> Balancer_Balance ''k'' b' = Ret (r, b'')
    \<and> (case r of Inl e \<Rightarrow> False | Inr h \<Rightarrow> h \<in> {''b:80'', ''c:80''})"
  using balancer_serves_members [of "''round-robin''" 3 UNIV "[''a:80'', ''b:80'']"
      "[LbRemove ''a:80'', LbAdd ''c:80'', LbBalance ''k'']" "''k''"]
  by (fastforce split: sum.splits)

text \<open>Without replicas (the configuration leaves \<open>load_balance\<close> out, as the README's
  example does, or sets a number below 1) the hash ring accepts every host and serves none
  of them.\<close>

theorem no_replicas_no_service:
  assumes "n \<le> 0"
  shows "Build n ''consistence-hash'' hosts = Inr (CH (NewConsistenceHash n hosts))
    \<and> ConsistenceHash_Len (NewConsistenceHash n hosts) = 0
    \<and> ConsistenceHash_Balance key (NewConsistenceHash n hosts) = Ret (Inl CantFindAnyHost)"
proof -
  have "fold ConsistenceHash_Add hosts c = c" if "replicas c \<le> 0" "keys c = []" for c
  proof -
    have "ConsistenceHash_Add host c = c" for host
      using that by (simp add: Add_eq host_keys_def replica_range_def)
    then show ?thesis by (induction hosts) simp_all
  qed
  then have "NewConsistenceHash n hosts
      = \<lparr>hash = ChecksumIEEE, replicas = n, keys = [], ch_hosts = Map.empty\<rparr>"
    using assms by (simp add: NewConsistenceHash_def)
  then show ?thesis
    by (simp add: Build_def factories_def ConsistenceHash_Balance_def ConsistenceHash_Len_def)
qed

theorem no_replicas_no_service_witness:
  "ConsistenceHash_Balance ''10.0.0.1'' (NewConsistenceHash 0 [''a:80'', ''b:80'']) = Ret (Inl CantFindAnyHost)"
  using no_replicas_no_service [of 0 "[''a:80'', ''b:80'']" "''10.0.0.1''"] by simp

end
