(* ===== verification/RateLimit.thy ===== *)
theory RateLimit
  imports Prelude "HOL-Library.Signed_Division"
begin

text \<open>
  The package \<open>rate_limit\<close>: the token-bucket limiter of a request path and its factory.
  The bucket itself is \<open>golang.org/x/time/rate\<close>, which is not part of the repository: the
  record \<open>rate_pkg\<close> lists the operations that the code calls, and every definition takes
  it as an argument. Durations are 64-bit counts of nanoseconds, here integers with
  \<open>int64\<close> where an operation can wrap around. \<open>ConcurrentLimit\<close> is the second limiter of
  the package, which no factory builds.
\<close>

definition int64 :: "int \<Rightarrow> int" where
  "int64 x = signed_take_bit 63 x"

lemma int64_id: "- (2 ^ 63) \<le> x \<Longrightarrow> x < 2 ^ 63 \<Longrightarrow> int64 x = x"
  by (simp add: int64_def signed_take_bit_int_eq_self)

definition Millisecond :: int where "Millisecond = 1000000"
definition Second :: int where "Second = 1000000000"

text \<open>Integer division of Go truncates towards zero and panics on a zero divisor.\<close>

definition go_div :: "int \<Rightarrow> int \<Rightarrow> int outcome" where
  "go_div a b = (if b = 0 then Panic DivideByZero else Ret (int64 (a sdiv b)))"

text \<open>\<open>Allow\<close> and \<open>Wait\<close> take the current time; \<open>Wait\<close> also takes the time left until the
  deadline of its context. Both tell whether a token was granted.\<close>

record ('m, 'l) rate_pkg =
  Inf :: 'm
  Every :: "int \<Rightarrow> 'm"
  NewLimiter :: "'m \<Rightarrow> int \<Rightarrow> 'l"
  Allow :: "int \<Rightarrow> 'l \<Rightarrow> bool \<times> 'l"
  Wait :: "int \<Rightarrow> int \<Rightarrow> 'l \<Rightarrow> bool \<times> 'l"
  Burst :: "'l \<Rightarrow> int"
  Limit :: "'l \<Rightarrow> 'm"
  int64_of_limit :: "'m \<Rightarrow> int"

datatype limit_error = LimiterAlreadyExists | LimiterTypeNotSupportedError | NoReaminTokenError

subsection \<open>The token-bucket limiter\<close>

record 'l QpsRateLimiter =
  Limiter :: 'l
  Timeout :: int

definition NewQpsRateLimiter :: "('m, 'l) rate_pkg \<Rightarrow> 'l QpsRateLimiter" where
  "NewQpsRateLimiter rate = \<lparr>Limiter = NewLimiter rate (Inf rate) 0, Timeout = - 1\<rparr>"

definition Qps_Take ::
  "('m, 'l) rate_pkg \<Rightarrow> int \<Rightarrow> 'l QpsRateLimiter \<Rightarrow> limit_error option \<times> 'l QpsRateLimiter" where
  "Qps_Take rate now r =
     (let (granted, l) = Allow rate now (Limiter r); r' = r\<lparr>Limiter := l\<rparr>
      in if \<not> granted then (Some NoReaminTokenError, r') else (None, r'))"

definition Qps_TakeWithTimeout ::
  "('m, 'l) rate_pkg \<Rightarrow> int \<Rightarrow> int \<Rightarrow> 'l QpsRateLimiter \<Rightarrow> limit_error option \<times> 'l QpsRateLimiter" where
  "Qps_TakeWithTimeout rate now timeout r =
     (let (granted, l) = Wait rate now timeout (Limiter r); r' = r\<lparr>Limiter := l\<rparr>
      in if \<not> granted then (Some NoReaminTokenError, r') else (None, r'))"

definition Qps_SetRate ::
  "('m, 'l) rate_pkg \<Rightarrow> int \<Rightarrow> int \<Rightarrow> 'l QpsRateLimiter \<Rightarrow> 'l QpsRateLimiter outcome" where
  "Qps_SetRate rate init speed r =
     and_then (go_div Second speed) (\<lambda>interval.
       Ret (r\<lparr>Limiter := NewLimiter rate (Every rate interval) init\<rparr>))"

definition Qps_GetVolumn :: "('m, 'l) rate_pkg \<Rightarrow> 'l QpsRateLimiter \<Rightarrow> int" where
  "Qps_GetVolumn rate r = Burst rate (Limiter r)"

definition Qps_GetSpeed :: "('m, 'l) rate_pkg \<Rightarrow> 'l QpsRateLimiter \<Rightarrow> int" where
  "Qps_GetSpeed rate r = int64_of_limit rate (Limit rate (Limiter r))"

text \<open>\<open>time.Duration(r.Timeout.Milliseconds())\<close>: the number of milliseconds becomes a
  duration, that is a number of nanoseconds.\<close>

definition Qps_GetTimeout :: "'l QpsRateLimiter \<Rightarrow> int" where
  "Qps_GetTimeout r = Timeout r sdiv Millisecond"

definition Qps_SetTimeout :: "int \<Rightarrow> 'l QpsRateLimiter \<Rightarrow> 'l QpsRateLimiter" where
  "Qps_SetTimeout t r = r\<lparr>Timeout := t\<rparr>"

subsection \<open>The factory\<close>

definition rateLimiterFactories :: "('m, 'l) rate_pkg \<Rightarrow> string \<Rightarrow> 'l QpsRateLimiter option" where
  "rateLimiterFactories rate = [''qps'' \<mapsto> NewQpsRateLimiter rate]"

definition Limiter_Build :: "('m, 'l) rate_pkg \<Rightarrow> string \<Rightarrow> limit_error + 'l QpsRateLimiter" where
  "Limiter_Build rate t =
     (case rateLimiterFactories rate t of
        None \<Rightarrow> Inl LimiterTypeNotSupportedError
      | Some limiter \<Rightarrow> Inr limiter)"

definition GetLimiterType :: "('m, 'l) rate_pkg \<Rightarrow> string list \<Rightarrow> bool" where
  "GetLimiterType rate res \<longleftrightarrow> distinct res \<and> set res = dom (rateLimiterFactories rate)"

subsection \<open>The concurrency limiter\<close>

text \<open>The channel of \<open>make(chan bool, volume)\<close> is its capacity; a negative size panics.\<close>

record ConcurrentLimit =
  concurrent :: "nat option"
  volumn :: int
  timeout :: int

definition Concurrent_Take :: "ConcurrentLimit \<Rightarrow> limit_error option" where
  "Concurrent_Take limiter = None"

definition Concurrent_TakeWithTimeout :: "ConcurrentLimit \<Rightarrow> limit_error option" where
  "Concurrent_TakeWithTimeout limiter = None"

definition Concurrent_GetVolumn :: "ConcurrentLimit \<Rightarrow> int" where
  "Concurrent_GetVolumn limiter = volumn limiter"

definition Concurrent_GetTimeout :: "ConcurrentLimit \<Rightarrow> int" where
  "Concurrent_GetTimeout limiter = timeout limiter"

definition Concurrent_SetTimeout :: "int \<Rightarrow> ConcurrentLimit \<Rightarrow> ConcurrentLimit" where
  "Concurrent_SetTimeout t limiter = limiter\<lparr>timeout := t\<rparr>"

definition Concurrent_SetRate :: "int \<Rightarrow> int \<Rightarrow> ConcurrentLimit \<Rightarrow> ConcurrentLimit outcome" where
  "Concurrent_SetRate volume speed limiter =
     (if volume < 0 then Panic MakeChanSize else Ret (limiter\<lparr>concurrent := Some (nat volume)\<rparr>))"

definition Concurrent_GetSpeed :: "ConcurrentLimit \<Rightarrow> int" where
  "Concurrent_GetSpeed limiter = - 1"

subsection \<open>Properties\<close>

lemma Second_sdiv: "0 < speed \<Longrightarrow> Second sdiv speed = Second div speed"
  by (simp add: signed_divide_int_def Second_def)

lemma int64_Second_sdiv: "speed \<noteq> 0 \<Longrightarrow> int64 (Second sdiv speed) = Second sdiv speed"
proof (rule int64_id)
  assume "speed \<noteq> 0"
  then have "\<bar>Second sdiv speed\<bar> = Second div \<bar>speed\<bar>"
    by (simp add: signed_divide_int_def Second_def abs_mult pos_imp_zdiv_nonneg_iff)
  moreover have "Second div \<bar>speed\<bar> \<le> Second"
    using \<open>speed \<noteq> 0\<close> zdiv_mono2 [of Second 1 "\<bar>speed\<bar>"] by (simp add: Second_def)
  ultimately show "- (2 ^ 63) \<le> Second sdiv speed" "Second sdiv speed < 2 ^ 63"
    unfolding Second_def by simp_all
qed

lemma Second_sdiv_large: "Second < speed \<Longrightarrow> Second sdiv speed = 0"
  using Second_sdiv [of speed] by (simp add: Second_def)

lemma Second_sdiv_negative: "speed < 0 \<Longrightarrow> Second sdiv speed \<le> 0"
proof -
  assume "speed < 0"
  then have "Second sdiv speed = - (Second div - speed)"
    by (simp add: signed_divide_int_def Second_def)
  moreover have "0 \<le> Second div - speed"
    using \<open>speed < 0\<close> by (simp add: pos_imp_zdiv_nonneg_iff Second_def)
  ultimately show ?thesis by simp
qed


text \<open>A bucket with the documented behaviour, enough to run the limiter: a limit is an interval
  with 0 for no limit, a limiter holds its limit and the tokens left.\<close>

definition toy_rate :: "(int, int \<times> int) rate_pkg" where
  "toy_rate = \<lparr>Inf = 0, Every = (\<lambda>d. if d \<le> 0 then 0 else d), NewLimiter = Pair,
     Allow = (\<lambda>now (m, b). (m = 0 \<or> 0 < b, (m, b - 1))),
     Wait = (\<lambda>now left (m, b). (m = 0 \<or> 0 < b, (m, b - 1))),
     Burst = snd, Limit = fst, int64_of_limit = (\<lambda>m. if m = 0 then 0 else Second div m)\<rparr>"


text \<open>A timeout is read back a million times shorter than it was set. Setting \<open>d\<close>
  milliseconds makes \<open>GetTimeout\<close> return \<open>d\<close> nanoseconds, and the initial -1 nanosecond
  (no timeout configured) is read as 0.\<close>

theorem GetTimeout_unit:
  assumes "\<bar>d\<bar> \<le> 9223372036854"
  shows "Qps_GetTimeout (Qps_SetTimeout (int64 (d * Millisecond)) r) = d
    \<and> Qps_GetTimeout (NewQpsRateLimiter rate) = 0"
proof -
  have "int64 (d * Millisecond) = d * Millisecond"
    using assms by (intro int64_id) (simp_all add: Millisecond_def)
  then show ?thesis
    by (simp add: Qps_GetTimeout_def Qps_SetTimeout_def NewQpsRateLimiter_def Millisecond_def
        signed_divide_int_def abs_mult) (simp add: sgn_if)
qed

theorem GetTimeout_unit_witness:
  "Qps_GetTimeout (Qps_SetTimeout (500 * Millisecond) (NewQpsRateLimiter toy_rate)) = 500"
proof -
  have "int64 (500 * Millisecond) = 500 * Millisecond" by (simp add: int64_id Millisecond_def)
  then show ?thesis
    using GetTimeout_unit [of 500 "NewQpsRateLimiter toy_rate" toy_rate] by simp
qed

end
