(* ===== verification/Config.thy ===== *)
theory Config
  imports GoStd
begin

text \<open>
  The package \<open>config\<close> and the levels of the package \<open>logger\<close>: the configuration record,
  its validation, the log level chosen by \<open>ReadConfig\<close>, and the logging functions. Reading the
  file, the YAML decoder and the formatting of messages are parameters. The sections \<open>raft\<close> and
  \<open>load_balance\<close> of the configuration are fields of the one record.
\<close>

record Location =
  l_Pattern :: string
  ProxyPass :: "string list"
  BalanceMode :: string

record CherylConfig =
  Name :: string
  SSLCertificateKey :: string
  Locations_cfg :: "Location list"
  Schema :: string
  Port_cfg :: int
  HttpPort :: int
  SSLCertificate :: string
  HealthCheck_cfg :: bool
  LogLevel_cfg :: string
  RouterType_cfg :: string
  ReadHeaderTimeout :: int
  ReadTimeout :: int
  IdleTimeout :: int
  DataDir :: string
  RaftTCPAddress :: string
  LeaderAddress :: string
  IsLeader :: bool
  SnapshotInterval :: int
  SnapshotThreshold :: u64
  RaftLogLevel :: string
  HeartbeatTimeout :: int
  ElectionTimeout :: int
  Replicas :: int

datatype config_error = SchemaNotSupported string | LocationsNull | CertificatesMissing

definition CherylConfig_Validation :: "CherylConfig \<Rightarrow> config_error option" where
  "CherylConfig_Validation c =
     (if Schema c \<noteq> ''http'' \<and> Schema c \<noteq> ''https'' then Some (SchemaNotSupported (Schema c))
      else if length (Locations_cfg c) = 0 then Some LocationsNull
      else if Schema c = ''https'' \<and> (length (SSLCertificate c) = 0 \<or> length (SSLCertificateKey c) = 0)
        then Some CertificatesMissing
      else None)"

text \<open>The level that \<open>ReadConfig\<close> stores, and the logging functions: a message is written
  when the level is at most that of the function.\<close>

definition ERROR :: nat where "ERROR = 16"
definition WARNING :: nat where "WARNING = 8"
definition INFO :: nat where "INFO = 4"
definition DEBUG :: nat where "DEBUG = 2"

definition ToLower :: "string \<Rightarrow> string" where
  "ToLower = map to_lower"

definition log_level :: "string \<Rightarrow> nat" where
  "log_level s =
     (let l = ToLower s in
      if l = ''error'' then 16
      else if l = ''warning'' then 8
      else if l = ''info'' then 4
      else if l = ''debug'' then 2
      else 1)"

text \<open>\<open>read_yaml\<close> is the file together with the YAML decoder; a document without content
  leaves the pointer to the configuration \<open>nil\<close>.\<close>

definition ReadConfig ::
  "(string \<Rightarrow> string + CherylConfig option) \<Rightarrow> string \<Rightarrow> (string + (CherylConfig \<times> nat)) outcome" where
  "ReadConfig read_yaml fileName =
     (case read_yaml fileName of
        Inl err \<Rightarrow> Ret (Inl err)
      | Inr None \<Rightarrow> Panic NilDereference
      | Inr (Some c) \<Rightarrow> Ret (Inr (c, log_level (LogLevel_cfg c))))"

text \<open>The log functions return what they print, if anything; the fatal ones end the process.\<close>

definition logger_print :: "nat \<Rightarrow> nat \<Rightarrow> string \<Rightarrow> string option" where
  "logger_print LogLevel level msg = (if LogLevel \<le> level then Some msg else None)"

definition logger_Debug :: "nat \<Rightarrow> string \<Rightarrow> string option" where
  "logger_Debug LogLevel msg = logger_print LogLevel DEBUG msg"

definition logger_Info :: "nat \<Rightarrow> string \<Rightarrow> string option" where
  "logger_Info LogLevel msg = logger_print LogLevel INFO msg"

definition logger_Warn :: "nat \<Rightarrow> string \<Rightarrow> string option" where
  "logger_Warn LogLevel msg = logger_print LogLevel WARNING msg"

definition logger_Error :: "nat \<Rightarrow> string \<Rightarrow> 'a outcome" where
  "logger_Error LogLevel msg = Exit"

text \<open>The formatted variants; \<open>Sprintf\<close> is the formatting of the standard library.\<close>

definition logger_Debugf :: "(string \<Rightarrow> 'v list \<Rightarrow> string) \<Rightarrow> nat \<Rightarrow> string \<Rightarrow> 'v list \<Rightarrow> string option" where
  "logger_Debugf Sprintf LogLevel format v = logger_print LogLevel DEBUG (Sprintf format v)"

definition logger_Infof :: "(string \<Rightarrow> 'v list \<Rightarrow> string) \<Rightarrow> nat \<Rightarrow> string \<Rightarrow> 'v list \<Rightarrow> string option" where
  "logger_Infof Sprintf LogLevel format v = logger_print LogLevel INFO (Sprintf format v)"

definition logger_Warnf :: "(string \<Rightarrow> 'v list \<Rightarrow> string) \<Rightarrow> nat \<Rightarrow> string \<Rightarrow> 'v list \<Rightarrow> string option" where
  "logger_Warnf Sprintf LogLevel format v = logger_print LogLevel WARNING (Sprintf format v)"

definition logger_Errorf :: "(string \<Rightarrow> 'v list \<Rightarrow> string) \<Rightarrow> nat \<Rightarrow> string \<Rightarrow> 'v list \<Rightarrow> 'a outcome" where
  "logger_Errorf Sprintf LogLevel format v = logger_Error LogLevel (Sprintf format v)"

subsection \<open>Facts\<close>

lemma Validation_accepts:
  "CherylConfig_Validation c = None \<longleftrightarrow>
     Schema c \<in> {''http'', ''https''} \<and> Locations_cfg c \<noteq> []
     \<and> (Schema c = ''https'' \<longrightarrow> SSLCertificate c \<noteq> [] \<and> SSLCertificateKey c \<noteq> [])"
  by (auto simp: CherylConfig_Validation_def)

text \<open>The four names set the four levels, in any letter case; every other name lets all
  messages through.\<close>

lemma log_level_cases: "log_level s \<in> {1, DEBUG, INFO, WARNING, ERROR}"
  by (simp add: log_level_def DEBUG_def INFO_def WARNING_def ERROR_def Let_def)

lemma log_level_order:
  "logger_Debug l msg \<noteq> None \<Longrightarrow> logger_Info l msg = Some msg"
  "logger_Info l msg \<noteq> None \<Longrightarrow> logger_Warn l msg = Some msg"
  by (auto simp: logger_Debug_def logger_Info_def logger_Warn_def logger_print_def
      DEBUG_def INFO_def WARNING_def split: if_splits)

end
