(* ===== verification/Gateway.thy ===== *)
theory Gateway
  imports Balancer RateLimit Config NetUtils Acl
begin

text \<open>
  The package \<open>reverse_proxy\<close> without the router: a reverse proxy per route
  (\<open>http_proxy.go\<close>), the map from routes to proxies (\<open>proxyMap.go\<close>) and the health
  checks (\<open>health_check.go\<close>). Proxies and proxy maps are shared by pointer, so the gateway
  is a store: proxies and maps live at references. A channel is a number; what matters of a
  goroutine is the channel it waits on: \<open>health p h\<close> lists the channels on which the health
  checks of host \<open>h\<close> of proxy \<open>p\<close> wait, \<open>watchers\<close> are the proxies whose
  \<open>shutDownCheck\<close> waits. A send succeeds when somebody waits on the channel. Handlers are
  atomic here; \<open>url.Parse\<close> is the parameter \<open>parse\<close>, and the order in which Go iterates
  over a map is an argument where it can be observed.
\<close>

type_synonym proxy_ref = nat
type_synonym map_ref = nat
type_synonym chan = nat

record LimiterInfo =
  Prefix :: string
  PathName :: string
  LimiterType :: string
  Volumn :: int
  Speed :: int
  MaxThread :: int
  Duration :: int

text \<open>The reverse proxy that the standard library makes for one host is its target URL.\<close>

record 'l HTTPProxy =
  HostMap :: "string \<Rightarrow> URL option"
  Pattern :: string
  Lb :: Balancer
  Alive :: "string \<Rightarrow> bool option"
  Methods :: "string \<Rightarrow> 'l QpsRateLimiter option"
  HostsShutDown :: "string \<Rightarrow> chan option"
  Owner :: "map_ref option"

record ProxyMap =
  Relations :: "string \<Rightarrow> proxy_ref option"
  Locations :: "string \<Rightarrow> Location option"
  Limiters :: "string \<Rightarrow> LimiterInfo list option"
  RouterType :: string

record 'l gateway =
  proxies :: "proxy_ref \<Rightarrow> 'l HTTPProxy"
  next_proxy :: proxy_ref
  maps :: "map_ref \<Rightarrow> ProxyMap"
  current :: map_ref
  next_map :: map_ref
  router :: "(string \<Rightarrow> proxy_ref option) option"
  black_list :: RadixTree
  health :: "proxy_ref \<Rightarrow> string \<Rightarrow> chan list"
  watchers :: "proxy_ref list"
  next_chan :: chan

datatype proxy_error =
    ParseError string
  | BuildError build_error
  | PatternNotExists
  | CantFindProxy string
  | ShutDownTimeout
  | LimitError limit_error

definition NewProxyMap :: ProxyMap where
  "NewProxyMap = \<lparr>Relations = Map.empty, Locations = Map.empty, Limiters = Map.empty,
     RouterType = ''default''\<rparr>"

definition upd_proxy :: "proxy_ref \<Rightarrow> ('l HTTPProxy \<Rightarrow> 'l HTTPProxy) \<Rightarrow> 'l gateway \<Rightarrow> 'l gateway" where
  "upd_proxy p f g = g\<lparr>proxies := (proxies g)(p := f (proxies g p))\<rparr>"

definition upd_map :: "map_ref \<Rightarrow> (ProxyMap \<Rightarrow> ProxyMap) \<Rightarrow> 'l gateway \<Rightarrow> 'l gateway" where
  "upd_map m f g = g\<lparr>maps := (maps g)(m := f (maps g m))\<rparr>"

subsection \<open>A reverse proxy\<close>

text \<open>The loop of \<open>NewHTTPProxy\<close> over the target hosts: the maps it fills, the slice of hosts
  and the next unused channel.\<close>

record proxy_parts =
  part_map :: "string \<Rightarrow> URL option"
  part_alive :: "string \<Rightarrow> bool option"
  part_shutdown :: "string \<Rightarrow> chan option"
  part_hosts :: "string list"
  part_chan :: chan

fun target_loop ::
  "(string \<Rightarrow> string + URL) \<Rightarrow> string list \<Rightarrow> proxy_parts \<Rightarrow> proxy_error + proxy_parts" where
  "target_loop parse [] parts = Inr parts"
| "target_loop parse (targetHost # targets) parts =
     (case parse targetHost of
        Inl err \<Rightarrow> Inl (ParseError err)
      | Inr url \<Rightarrow>
          let host = GetHost url in
          target_loop parse targets
            \<lparr>part_map = (part_map parts)(host \<mapsto> url),
             part_alive = (part_alive parts)(host \<mapsto> True),
             part_shutdown = (part_shutdown parts)(host \<mapsto> part_chan parts),
             part_hosts = part_hosts parts @ [host],
             part_chan = Suc (part_chan parts)\<rparr>)"

definition NewHTTPProxy ::
  "(string \<Rightarrow> string + URL) \<Rightarrow> int \<Rightarrow> string \<Rightarrow> string list \<Rightarrow> Algorithm \<Rightarrow> 'l gateway
   \<Rightarrow> proxy_error + (proxy_ref \<times> 'l gateway)" where
  "NewHTTPProxy parse n pattern targetHosts algo g =
     (case target_loop parse targetHosts
             \<lparr>part_map = Map.empty, part_alive = Map.empty, part_shutdown = Map.empty, part_hosts = [],
              part_chan = next_chan g\<rparr> of
        Inl err \<Rightarrow> Inl err
      | Inr parts \<Rightarrow>
         (case Build n algo (part_hosts parts) of
            Inl err \<Rightarrow> Inl (BuildError err)
          | Inr lb \<Rightarrow>
              let p = next_proxy g in
              Inr (p, g\<lparr>proxies := (proxies g)(p :=
                         \<lparr>HostMap = part_map parts, Pattern = pattern, Lb = lb, Alive = part_alive parts,
                          Methods = Map.empty, HostsShutDown = part_shutdown parts, Owner = None\<rparr>),
                       next_proxy := Suc p,
                       watchers := p # watchers g,
                       next_chan := part_chan parts\<rparr>)))"

text \<open>\<open>ChangeLb\<close> collects the keys of \<open>HostMap\<close>; \<open>order\<close> is the order of the iteration.\<close>

definition ChangeLb ::
  "int \<Rightarrow> string list \<Rightarrow> proxy_ref \<Rightarrow> string \<Rightarrow> 'l gateway \<Rightarrow> proxy_error option \<times> 'l gateway" where
  "ChangeLb n order p mode g =
     (case Build n mode order of
        Inl err \<Rightarrow> (Some (BuildError err), g)
      | Inr lb \<Rightarrow> (None, upd_proxy p (\<lambda>h. h\<lparr>Lb := lb\<rparr>) g))"

subsection \<open>Rate limits of a proxy\<close>

definition record_limiter :: "map_ref \<Rightarrow> string \<Rightarrow> LimiterInfo \<Rightarrow> 'l gateway \<Rightarrow> 'l gateway" where
  "record_limiter m pattern info =
     upd_map m (\<lambda>pm. pm\<lparr>Limiters := (Limiters pm)(pattern \<mapsto>
        (case Limiters pm pattern of None \<Rightarrow> [] | Some infos \<Rightarrow> infos) @ [info])\<rparr>)"

definition SetRateLimiter ::
  "('m, 'l) rate_pkg \<Rightarrow> proxy_ref \<Rightarrow> LimiterInfo \<Rightarrow> 'l gateway
   \<Rightarrow> (proxy_error option \<times> 'l gateway) outcome" where
  "SetRateLimiter rate p info g =
     (case Limiter_Build rate (LimiterType info) of
        Inl err \<Rightarrow> Ret (Some (LimitError err), g)
      | Inr limiter \<Rightarrow>
          and_then (if Speed info \<noteq> 0 then Qps_SetRate rate (Volumn info) (Speed info) limiter
                    else Ret limiter) (\<lambda>limiter.
          let limiter' = (if Duration info \<noteq> 0
                then Qps_SetTimeout (int64 (Duration info * Millisecond)) limiter else limiter);
              g' = upd_proxy p (\<lambda>h. h\<lparr>Methods := (Methods h)(PathName info \<mapsto> limiter')\<rparr>) g
          in (case Owner (proxies g p) of
                None \<Rightarrow> Panic NilDereference
              | Some m \<Rightarrow> Ret (None, record_limiter m (Pattern (proxies g p)) info g'))))"

definition configRate ::
  "('m, 'l) rate_pkg \<Rightarrow> proxy_ref \<Rightarrow> string \<Rightarrow> 'l gateway \<Rightarrow> (limit_error option \<times> 'l gateway) outcome" where
  "configRate rate p path g =
     (if Methods (proxies g p) path = None then
        (case Limiter_Build rate ''qps'' of
           Inl err \<Rightarrow> Ret (Some err, g)
         | Inr limiter \<Rightarrow>
             let g' = upd_proxy p (\<lambda>h. h\<lparr>Methods := (Methods h)(path \<mapsto> limiter)\<rparr>) g
             in (case Owner (proxies g p) of
                   None \<Rightarrow> Panic NilDereference
                 | Some m \<Rightarrow> Ret (None, record_limiter m (Pattern (proxies g p))
                     \<lparr>Prefix = [], PathName = path, LimiterType = ''qps'', Volumn = - 1, Speed = 0,
                      MaxThread = - 1, Duration = 0\<rparr> g')))
      else Ret (Some LimiterAlreadyExists, g))"

text \<open>The first request on a path only creates its limiter; \<open>now\<close> is the time of the call.\<close>

definition invaildToken ::
  "('m, 'l) rate_pkg \<Rightarrow> int \<Rightarrow> proxy_ref \<Rightarrow> string \<Rightarrow> 'l gateway
   \<Rightarrow> (limit_error option \<times> 'l gateway) outcome" where
  "invaildToken rate now p api g =
     (case Methods (proxies g p) api of
        None \<Rightarrow> configRate rate p api g
      | Some limiter \<Rightarrow>
          let timeout = Qps_GetTimeout limiter;
              (err, limiter') = (if timeout = 0 then Qps_Take rate now limiter
                                 else Qps_TakeWithTimeout rate now timeout limiter)
          in Ret (err, upd_proxy p (\<lambda>h. h\<lparr>Methods := (Methods h)(api \<mapsto> limiter')\<rparr>) g))"

subsection \<open>The map of proxies\<close>

text \<open>\<open>HealthCheck\<close> starts one goroutine per host.\<close>

definition HealthCheck :: "proxy_ref \<Rightarrow> 'l gateway \<Rightarrow> 'l gateway" where
  "HealthCheck p g =
     g\<lparr>health := (health g)(p := (\<lambda>h.
         if HostMap (proxies g p) h = None then health g p h
         else (case HostsShutDown (proxies g p) h of
                 None \<Rightarrow> health g p h | Some c \<Rightarrow> c # health g p h)))\<rparr>"

definition AddRelations ::
  "map_ref \<Rightarrow> string \<Rightarrow> proxy_ref \<Rightarrow> Location \<Rightarrow> 'l gateway \<Rightarrow> 'l gateway outcome" where
  "AddRelations m pattern p location g =
     (let g1 = upd_proxy p (\<lambda>h. h\<lparr>Owner := Some m\<rparr>) g;
          g2 = upd_map m (\<lambda>pm. pm\<lparr>Relations := (Relations pm)(pattern \<mapsto> p),
                                  Locations := (Locations pm)(pattern \<mapsto> location)\<rparr>) g1
      in (case router g2 of
            None \<Rightarrow> Panic NilDereference
          | Some routes \<Rightarrow> Ret (HealthCheck p (g2\<lparr>router := Some (routes(pattern \<mapsto> p))\<rparr>))))"

definition AddProxyWithLocation ::
  "(string \<Rightarrow> string + URL) \<Rightarrow> int \<Rightarrow> map_ref \<Rightarrow> Location \<Rightarrow> 'l gateway
   \<Rightarrow> (proxy_error option \<times> 'l gateway) outcome" where
  "AddProxyWithLocation parse n m l g =
     (case NewHTTPProxy parse n (l_Pattern l) (ProxyPass l) (BalanceMode l) g of
        Inl err \<Rightarrow> Ret (Some err, g)
      | Inr (p, g') \<Rightarrow>
          and_then (AddRelations m (l_Pattern l) p l g') (\<lambda>g''. Ret (None, g'')))"

text \<open>\<open>AddProxy\<close> starts the health check of one host on a new channel.\<close>

definition AddProxy ::
  "(string \<Rightarrow> string + URL) \<Rightarrow> map_ref \<Rightarrow> string \<Rightarrow> string \<Rightarrow> 'l gateway
   \<Rightarrow> proxy_error option \<times> 'l gateway" where
  "AddProxy parse m pattern target g =
     (case Relations (maps g m) pattern of
        None \<Rightarrow> (Some PatternNotExists, g)
      | Some p \<Rightarrow>
         (case parse target of
            Inl err \<Rightarrow> (Some (ParseError err), g)
          | Inr url \<Rightarrow>
              let host = GetHost url; c = next_chan g;
                  g1 = upd_proxy p (\<lambda>h. h\<lparr>HostMap := (HostMap h)(host \<mapsto> url),
                         Alive := (Alive h)(host \<mapsto> True),
                         HostsShutDown := (HostsShutDown h)(host \<mapsto> c),
                         Lb := Balancer_Add host (Lb h)\<rparr>) g
              in (None, g1\<lparr>next_chan := Suc c,
                    health := (health g1)(p := (health g1 p)(host := c # health g1 p host))\<rparr>)))"

text \<open>A send on the channel of one host: somebody waits, or the sender is left waiting. The
  receiver is a health check, which then ends.\<close>

definition send_shutdown :: "proxy_ref \<Rightarrow> string \<Rightarrow> 'l gateway \<Rightarrow> 'l gateway option" where
  "send_shutdown p host g =
     (case HostsShutDown (proxies g p) host of
        None \<Rightarrow> None
      | Some c \<Rightarrow>
          if c \<in> set (health g p host)
          then Some (g\<lparr>health := (health g)(p := (health g p)(host := remove1 c (health g p host)))\<rparr>)
          else None)"

text \<open>What \<open>shutDownCheck\<close> does once it is told to: it shuts the hosts down one after the
  other, and waits for ever at the first one where nobody listens.\<close>

fun shutdown_loop :: "proxy_ref \<Rightarrow> string list \<Rightarrow> 'l gateway \<Rightarrow> 'l gateway" where
  "shutdown_loop p [] g = g"
| "shutdown_loop p (k # ks) g =
     (case send_shutdown p k g of None \<Rightarrow> g | Some g' \<Rightarrow> shutdown_loop p ks g')"

definition shutDownCheck :: "string list \<Rightarrow> proxy_ref \<Rightarrow> 'l gateway \<Rightarrow> 'l gateway" where
  "shutDownCheck order p g = shutdown_loop p order (g\<lparr>watchers := remove1 p (watchers g)\<rparr>)"

text \<open>\<open>order\<close> is the order in which \<open>shutDownCheck\<close> meets the hosts.\<close>

definition RemoveProxy ::
  "map_ref \<Rightarrow> string list \<Rightarrow> string \<Rightarrow> 'l gateway \<Rightarrow> (proxy_error option \<times> 'l gateway) outcome" where
  "RemoveProxy m order pattern g =
     (case Relations (maps g m) pattern of
        None \<Rightarrow> Ret (Some (CantFindProxy pattern), g)
      | Some p \<Rightarrow>
          if p \<notin> set (watchers g) then Stuck
          else
            let g1 = shutDownCheck order p g in
            (case router g1 of
               None \<Rightarrow> Panic NilDereference
             | Some routes \<Rightarrow>
                 Ret (None, upd_map m (\<lambda>pm. pm\<lparr>Relations := (Relations pm)(pattern := None),
                        Locations := (Locations pm)(pattern := None)\<rparr>)
                      (g1\<lparr>router := Some (routes(pattern := None))\<rparr>))))"

text \<open>The loop that prints the channels dereferences the proxy before \<open>has\<close> is tested. The
  \<open>select\<close> gives up after five seconds.\<close>

definition RemoveHost ::
  "map_ref \<Rightarrow> string \<Rightarrow> string \<Rightarrow> 'l gateway \<Rightarrow> (proxy_error option \<times> 'l gateway) outcome" where
  "RemoveHost m pattern host g =
     (case Relations (maps g m) pattern of
        None \<Rightarrow> Panic NilDereference
      | Some p \<Rightarrow>
         (case send_shutdown p host g of
            None \<Rightarrow> Ret (Some ShutDownTimeout, g)
          | Some g' \<Rightarrow> Ret (None, upd_proxy p (\<lambda>h. h\<lparr>HostMap := (HostMap h)(host := None)\<rparr>) g')))"

subsection \<open>Health checks\<close>

definition ReadAlive :: "'l HTTPProxy \<Rightarrow> string \<Rightarrow> bool" where
  "ReadAlive h url = (Alive h url = Some True)"

definition SetAlive :: "string \<Rightarrow> bool \<Rightarrow> 'l HTTPProxy \<Rightarrow> 'l HTTPProxy" where
  "SetAlive url a h = h\<lparr>Alive := (Alive h)(url \<mapsto> a)\<rparr>"

text \<open>One tick: the host is probed, and probed again where the first condition fails.\<close>

definition health_tick ::
  "bool \<Rightarrow> bool \<Rightarrow> string \<Rightarrow> 'l HTTPProxy \<Rightarrow> 'l HTTPProxy outcome" where
  "health_tick probe1 probe2 host h =
     (if \<not> probe1 \<and> ReadAlive h host then
        and_then (Balancer_Remove host (Lb h)) (\<lambda>lb. Ret ((SetAlive host False h)\<lparr>Lb := lb\<rparr>))
      else if probe2 \<and> \<not> ReadAlive h host then
        Ret ((SetAlive host True h)\<lparr>Lb := Balancer_Add host (Lb h)\<rparr>)
      else Ret h)"

text \<open>The goroutine then waits again, on the channel that the proxy holds by now.\<close>

definition healthCheck_tick ::
  "proxy_ref \<Rightarrow> string \<Rightarrow> chan \<Rightarrow> bool \<Rightarrow> bool \<Rightarrow> 'l gateway \<Rightarrow> 'l gateway outcome" where
  "healthCheck_tick p host c probe1 probe2 g =
     (if c \<notin> set (health g p host) then Ret g
      else and_then (health_tick probe1 probe2 host (proxies g p)) (\<lambda>h.
        let g' = g\<lparr>proxies := (proxies g)(p := h)\<rparr>;
            rest = remove1 c (health g p host)
        in Ret (g'\<lparr>health := (health g)(p := (health g p)(host :=
             (case HostsShutDown h host of None \<Rightarrow> c | Some c' \<Rightarrow> c') # rest))\<rparr>)))"

end
