(* ===== verification/GatewayInv.thy ===== *)
theory GatewayInv
  imports Gateway
begin

text \<open>
  What the operations of \<open>Gateway\<close> keep and what they break. \<open>proxy_ok\<close> says that the
  balancer, the alive map and the host map of a proxy agree; construction, health checks
  and \<open>AddProxy\<close> keep it, \<open>RemoveHost\<close> and \<open>ChangeLb\<close> do not. \<open>watched\<close> says that every
  registered proxy has its own goroutine waiting for the shutdown signal, which is what
  \<open>RemoveProxy\<close> needs to return.
\<close>

definition alive_hosts :: "'l HTTPProxy \<Rightarrow> string set" where
  "alive_hosts h = {x. Alive h x = Some True}"

definition proxy_ok :: "string set \<Rightarrow> 'l HTTPProxy \<Rightarrow> bool" where
  "proxy_ok U h \<longleftrightarrow> lb_ok U (Lb h) \<and> lb_members (Lb h) = alive_hosts h
     \<and> dom (Alive h) = dom (HostMap h) \<and> dom (HostMap h) \<subseteq> U"

definition mode_ok :: "int \<Rightarrow> string set \<Rightarrow> Algorithm \<Rightarrow> bool" where
  "mode_ok n U algo \<longleftrightarrow> algo = ''round-robin'' \<or>
     algo = ''consistence-hash'' \<and> 0 < n \<and> crc_no_collision n U"

subsection \<open>Construction\<close>

lemma target_loop_ok:
  assumes "\<And>t. t \<in> set targets \<Longrightarrow> parse t = Inr (url t)"
  shows "\<exists>r. target_loop parse targets parts = Inr r
    \<and> part_hosts r = part_hosts parts @ map (\<lambda>t. GetHost (url t)) targets
    \<and> dom (part_map r) = dom (part_map parts) \<union> (\<lambda>t. GetHost (url t)) ` set targets
    \<and> (\<forall>x. part_alive r x = (if x \<in> (\<lambda>t. GetHost (url t)) ` set targets then Some True else part_alive parts x))
    \<and> dom (part_shutdown r) = dom (part_shutdown parts) \<union> (\<lambda>t. GetHost (url t)) ` set targets"
  using assms
proof (induction targets arbitrary: parts)
  case (Cons t targets)
  let ?h = "GetHost (url t)"
  let ?parts = "\<lparr>part_map = (part_map parts)(?h \<mapsto> url t), part_alive = (part_alive parts)(?h \<mapsto> True),
      part_shutdown = (part_shutdown parts)(?h \<mapsto> part_chan parts),
      part_hosts = part_hosts parts @ [?h], part_chan = Suc (part_chan parts)\<rparr>"
  have "target_loop parse (t # targets) parts = target_loop parse targets ?parts"
    using Cons.prems by (simp add: Let_def)
  with Cons.IH [of ?parts] Cons.prems show ?case by auto
qed simp

lemma target_loop_error:
  "t \<in> set targets \<Longrightarrow> parse t = Inl e \<Longrightarrow> \<exists>e'. target_loop parse targets parts = Inl e'"
  by (induction targets arbitrary: parts) (auto simp: Let_def split: sum.splits)

subsection \<open>Properties of a proxy\<close>

text \<open>A new proxy starts consistent. When all targets parse, their host:port names differ
  and the balance mode is known, \<open>NewHTTPProxy\<close> returns a proxy whose balancer, alive map
  and host map hold exactly these hosts, with a goroutine waiting for its shutdown; if one
  target does not parse it returns an error and changes nothing.\<close>

theorem NewHTTPProxy_consistent:
  assumes "\<And>t. t \<in> set targets \<Longrightarrow> parse t = Inr (url t)"
    and "distinct (map (\<lambda>t. GetHost (url t)) targets)"
    and "(\<lambda>t. GetHost (url t)) ` set targets \<subseteq> U" and "mode_ok n U algo"
  shows "\<exists>p g'. NewHTTPProxy parse n pattern targets algo g = Inr (p, g')
    \<and> proxy_ok U (proxies g' p) \<and> Pattern (proxies g' p) = pattern
    \<and> dom (HostMap (proxies g' p)) = (\<lambda>t. GetHost (url t)) ` set targets
    \<and> lb_members (Lb (proxies g' p)) = (\<lambda>t. GetHost (url t)) ` set targets
    \<and> p \<in> set (watchers g')"
proof -
  let ?parts = "\<lparr>part_map = Map.empty, part_alive = Map.empty, part_shutdown = Map.empty, part_hosts = [],
      part_chan = next_chan g\<rparr>"
  let ?names = "(\<lambda>t. GetHost (url t)) ` set targets"
  obtain r where r: "target_loop parse targets ?parts = Inr r"
    "part_hosts r = map (\<lambda>t. GetHost (url t)) targets" "dom (part_map r) = ?names"
    "\<And>x. part_alive r x = (if x \<in> ?names then Some True else None)"
    using target_loop_ok [of targets parse url ?parts] assms(1) by auto
  obtain b where b: "Build n algo (part_hosts r) = Inr b" "lb_ok U b" "lb_members b = set (part_hosts r)"
    using Build_contract [of algo n U "part_hosts r"] assms(2-4) by (auto simp: mode_ok_def r(2))
  have "dom (part_alive r) = ?names" "{x. part_alive r x = Some True} = ?names" by (auto simp: r(4) split: if_splits)
  then show ?thesis
    using r b assms(3) by (simp add: NewHTTPProxy_def Let_def proxy_ok_def alive_hosts_def)
qed

definition demo_parse :: "string \<Rightarrow> string + URL" where
  "demo_parse s = (if take 7 s = ''http://'' then Inr \<lparr>Scheme = ''http'', Host = drop 7 s\<rparr> else Inl ''bad'')"

definition demo_gateway :: "(int \<times> int) gateway" where
  "demo_gateway =
     \<lparr>proxies = (\<lambda>_. \<lparr>HostMap = Map.empty, Pattern = [], Lb = RR (NewRoundRobin []), Alive = Map.empty,
                      Methods = Map.empty, HostsShutDown = Map.empty, Owner = None\<rparr>),
      next_proxy = 0, maps = (\<lambda>_. NewProxyMap), current = 0, next_map = 1, router = Some Map.empty,
      black_list = NewRadixTree, health = (\<lambda>_ _. []), watchers = [], next_chan = 0\<rparr>"

lemma GetHost_demo: "GetHost \<lparr>Scheme = ''http'', Host = ''a:80''\<rparr> = ''a:80''"
  "GetHost \<lparr>Scheme = ''http'', Host = ''b:80''\<rparr> = ''b:80''"
  by code_simp+

theorem NewHTTPProxy_consistent_witness:
  "\<exists>p g'. NewHTTPProxy demo_parse 3 ''/api'' [''http://a:80'', ''http://b:80''] ''round-robin'' demo_gateway
      = Inr (p, g') \<and> lb_members (Lb (proxies g' p)) = {''a:80'', ''b:80''}"
  using NewHTTPProxy_consistent [of "[''http://a:80'', ''http://b:80'']" demo_parse
      "\<lambda>s. \<lparr>Scheme = ''http'', Host = drop 7 s\<rparr>" UNIV 3 "''round-robin''" "''/api''" demo_gateway]
  by (fastforce simp: demo_parse_def GetHost_demo mode_ok_def)

text \<open>C31: health checks keep the balancer and the alive map in step. Whatever the probes
  answer, a tick on a consistent proxy returns, keeps it consistent and touches no other
  host; when both probes agree, the host is in the balancer afterwards if and only if it
  answered.\<close>

theorem health_tick_sync:
  assumes "proxy_ok U h" and "HostMap h host = Some url"
  shows "\<exists>h'. health_tick probe1 probe2 host h = Ret h' \<and> proxy_ok U h'
    \<and> HostMap h' = HostMap h \<and> lb_members (Lb h') - {host} = lb_members (Lb h) - {host}
    \<and> (probe1 = probe2 \<longrightarrow> (host \<in> lb_members (Lb h') \<longleftrightarrow> probe1) \<and> ReadAlive h' host = probe1)"
proof -
  have ok: "lb_ok U (Lb h)" "lb_members (Lb h) = alive_hosts h" "dom (Alive h) = dom (HostMap h)"
    "dom (HostMap h) \<subseteq> U"
    using assms(1) by (auto simp: proxy_ok_def)
  have alive: "ReadAlive h host \<longleftrightarrow> host \<in> lb_members (Lb h)"
    by (simp add: ReadAlive_def ok(2) alive_hosts_def)
  have dom: "host \<in> dom (Alive h)" "host \<in> U" using assms(2) ok(3,4) by auto
  consider (down) "\<not> probe1" "host \<in> lb_members (Lb h)"
    | (up) "probe2" "host \<notin> lb_members (Lb h)" "\<not> (\<not> probe1 \<and> host \<in> lb_members (Lb h))"
    | (same) "\<not> (\<not> probe1 \<and> host \<in> lb_members (Lb h))" "\<not> (probe2 \<and> host \<notin> lb_members (Lb h))"
    by blast
  then show ?thesis
  proof cases
    case down
    obtain b where b: "Balancer_Remove host (Lb h) = Ret b" "lb_ok U b"
      "lb_members b = lb_members (Lb h) - {host}"
      using lb.remove_spec [OF ok(1) down(2)] by blast
    let ?h = "(SetAlive host False h)\<lparr>Lb := b\<rparr>"
    have "health_tick probe1 probe2 host h = Ret ?h"
      using down b(1) alive by (simp add: health_tick_def)
    moreover have "proxy_ok U ?h"
      using b ok dom by (auto simp: proxy_ok_def SetAlive_def alive_hosts_def)
    ultimately show ?thesis using down b(3) by (intro exI [of _ ?h]) (auto simp: SetAlive_def ReadAlive_def)
  next
    case up
    obtain b where b: "Balancer_Add host (Lb h) = b" "lb_ok U b"
      "lb_members b = insert host (lb_members (Lb h))"
      using lb.add_spec [OF ok(1) dom(2) up(2)] by auto
    let ?h = "(SetAlive host True h)\<lparr>Lb := b\<rparr>"
    have "health_tick probe1 probe2 host h = Ret ?h"
      using up b(1) alive by (simp add: health_tick_def)
    moreover have "proxy_ok U ?h"
      using b ok dom by (auto simp: proxy_ok_def SetAlive_def alive_hosts_def)
    ultimately show ?thesis using up b(3) by (intro exI [of _ ?h]) (auto simp: SetAlive_def ReadAlive_def)
  next
    case same
    then have "health_tick probe1 probe2 host h = Ret h" using alive by (auto simp: health_tick_def)
    then show ?thesis using same assms(1) alive by (intro exI [of _ h]) auto
  qed
qed

text \<open>\<open>AddProxy\<close> gives a registered proxy one more host. For a host that the proxy does
  not know yet, the proxy stays consistent, the host is balanced to at once and one health
  check waits on its channel; the recorded location of the route, from which snapshots are
  restored, is not changed.\<close>

theorem AddProxy_new_host:
  assumes "Relations (maps g m) pattern = Some p" and "parse target = Inr url"
    and "proxy_ok U (proxies g p)" and "HostMap (proxies g p) (GetHost url) = None"
    and "GetHost url \<in> U"
  shows "\<exists>g'. AddProxy parse m pattern target g = (None, g') \<and> proxy_ok U (proxies g' p)
    \<and> lb_members (Lb (proxies g' p)) = insert (GetHost url) (lb_members (Lb (proxies g p)))
    \<and> HostMap (proxies g' p) (GetHost url) = Some url
    \<and> send_shutdown p (GetHost url) g' \<noteq> None
    \<and> Locations (maps g' m) = Locations (maps g m)"
proof -
  let ?h = "proxies g p" and ?host = "GetHost url"
  have ok: "lb_ok U (Lb ?h)" "lb_members (Lb ?h) = alive_hosts ?h" "dom (Alive ?h) = dom (HostMap ?h)"
    "dom (HostMap ?h) \<subseteq> U"
    using assms(3) by (auto simp: proxy_ok_def)
  have "?host \<notin> dom (Alive ?h)" using assms(4) ok(3) by auto
  then have new: "?host \<notin> lb_members (Lb ?h)" by (auto simp: ok(2) alive_hosts_def)
  obtain b where b: "Balancer_Add ?host (Lb ?h) = b" "lb_ok U b"
    "lb_members b = insert ?host (lb_members (Lb ?h))"
    using lb.add_spec [OF ok(1) assms(5) new] by auto
  then show ?thesis
    using assms ok
    by (auto simp: AddProxy_def Let_def upd_proxy_def proxy_ok_def alive_hosts_def send_shutdown_def)
qed

definition demo_proxy :: "(int \<times> int) HTTPProxy" where
  "demo_proxy = \<lparr>HostMap = [''a:80'' \<mapsto> \<lparr>Scheme = ''http'', Host = ''a:80''\<rparr>,
                           ''b:80'' \<mapsto> \<lparr>Scheme = ''http'', Host = ''b:80''\<rparr>],
     Pattern = ''/api'', Lb = RR (NewRoundRobin [''a:80'', ''b:80'']),
     Alive = [''a:80'' \<mapsto> True, ''b:80'' \<mapsto> True], Methods = Map.empty,
     HostsShutDown = [''a:80'' \<mapsto> 0, ''b:80'' \<mapsto> 1], Owner = Some 0\<rparr>"

text \<open>The demonstration gateway with that proxy registered under \<open>/api\<close>.\<close>

definition demo_served :: "(int \<times> int) gateway" where
  "demo_served = demo_gateway\<lparr>proxies := (\<lambda>_. demo_proxy), next_proxy := 1,
     maps := (\<lambda>_. NewProxyMap\<lparr>Relations := [''/api'' \<mapsto> 0]\<rparr>), router := Some [''/api'' \<mapsto> 0],
     health := (\<lambda>_. (\<lambda>_. [])(''a:80'' := [0], ''b:80'' := [1])), watchers := [0], next_chan := 2\<rparr>"

lemma demo_proxy_ok: "proxy_ok UNIV demo_proxy"
  by (auto simp: proxy_ok_def demo_proxy_def rr_ok_def rr_members_def NewRoundRobin_def alive_hosts_def
      split: if_splits)

theorem health_tick_sync_witness:
  "\<exists>h'. health_tick False False ''a:80'' demo_proxy = Ret h' \<and> ''a:80'' \<notin> lb_members (Lb h')"
  using health_tick_sync [OF demo_proxy_ok, of "''a:80''" _ False False] by (fastforce simp: demo_proxy_def)

theorem AddProxy_new_host_witness:
  "\<exists>g'. AddProxy demo_parse 0 ''/api'' ''http://c:80'' demo_served = (None, g')
     \<and> ''c:80'' \<in> lb_members (Lb (proxies g' 0))"
proof -
  have c: "GetHost \<lparr>Scheme = ''http'', Host = ''c:80''\<rparr> = ''c:80''" by code_simp
  show ?thesis
    using AddProxy_new_host [of demo_served 0 "''/api''" 0 demo_parse "''http://c:80''"
        "\<lparr>Scheme = ''http'', Host = ''c:80''\<rparr>" UNIV] demo_proxy_ok
    by (simp add: c) (auto simp: demo_served_def demo_gateway_def demo_parse_def demo_proxy_def)
qed

subsection \<open>Removing hosts\<close>

text \<open>A host is removed once. With one health check running for the host, \<open>RemoveHost\<close>
  succeeds, ends the check and deletes the host from the host map, but leaves it in the
  balancer and in the alive map; the same call again finds nobody listening and reports a
  timeout after five seconds. For an unknown route the call dereferences a nil pointer.\<close>

theorem RemoveHost_once:
  assumes "Relations (maps g m) pattern = Some p" and "HostsShutDown (proxies g p) host = Some c"
    and "health g p host = [c]" and "Relations (maps g m) other = None"
  shows "\<exists>g'. RemoveHost m pattern host g = Ret (None, g')
    \<and> health g' p host = [] \<and> HostMap (proxies g' p) host = None
    \<and> Lb (proxies g' p) = Lb (proxies g p) \<and> Alive (proxies g' p) = Alive (proxies g p)
    \<and> RemoveHost m pattern host g' = Ret (Some ShutDownTimeout, g')
    \<and> RemoveHost m other host g = Panic NilDereference"
  using assms by (auto simp: RemoveHost_def send_shutdown_def upd_proxy_def)

theorem RemoveHost_once_witness:
  "\<exists>g'. RemoveHost 0 ''/api'' ''a:80'' demo_served = Ret (None, g')
    \<and> ''a:80'' \<in> lb_members (Lb (proxies g' 0)) \<and> HostMap (proxies g' 0) ''a:80'' = None"
  using RemoveHost_once [of demo_served 0 "''/api''" 0 "''a:80''" 0 "''/none''"]
  by (auto simp: demo_served_def demo_gateway_def demo_proxy_def rr_members_def NewRoundRobin_def)

text \<open>\<open>RemoveProxy\<close> after \<open>RemoveHost\<close> leaks goroutines. The shutdown loop waits for ever
  at a host whose health check has already ended; when the map iteration meets that host
  first, no other health check of the proxy is ever told to stop, although the call
  reports success and the route is gone.\<close>

theorem RemoveProxy_leaks:
  assumes "Relations (maps g m) pattern = Some p" and "HostsShutDown (proxies g p) host = Some c"
    and "health g p host = [c]" and "p \<in> set (watchers g)" and "router g = Some routes"
  shows "\<exists>g1 g2. RemoveHost m pattern host g = Ret (None, g1)
    \<and> RemoveProxy m (host # order) pattern g1 = Ret (None, g2)
    \<and> Relations (maps g2 m) pattern = None
    \<and> (\<forall>other. other \<noteq> host \<longrightarrow> health g2 p other = health g p other)"
  using assms
  by (auto simp: RemoveHost_def send_shutdown_def upd_proxy_def RemoveProxy_def shutDownCheck_def
      upd_map_def Let_def)

theorem RemoveProxy_leaks_witness:
  "\<exists>g1 g2. RemoveHost 0 ''/api'' ''a:80'' demo_served = Ret (None, g1)
    \<and> RemoveProxy 0 [''a:80'', ''b:80''] ''/api'' g1 = Ret (None, g2)
    \<and> health g2 0 ''b:80'' = [1]"
  using RemoveProxy_leaks [of demo_served 0 "''/api''" 0 "''a:80''" 0 "[''/api'' \<mapsto> 0]" "[''b:80'']"]
  by (auto simp: demo_served_def demo_gateway_def demo_proxy_def)

lemma shutdown_loop_all:
  assumes "distinct ks" and "\<And>k. k \<in> set ks \<Longrightarrow> \<exists>c. HostsShutDown (proxies g p) k = Some c \<and> health g p k = c # rest k"
  shows "\<exists>hl. shutdown_loop p ks g = g\<lparr>health := (health g)(p := hl)\<rparr>
    \<and> (\<forall>k. hl k = (if k \<in> set ks then rest k else health g p k))"
  using assms
proof (induction ks arbitrary: g)
  case Nil
  show ?case by (rule exI [of _ "health g p"]) simp
next
  case (Cons k ks)
  obtain c where c: "HostsShutDown (proxies g p) k = Some c" "health g p k = c # rest k"
    using Cons.prems(2) [of k] by auto
  let ?g = "g\<lparr>health := (health g)(p := (health g p)(k := rest k))\<rparr>"
  have send: "send_shutdown p k g = Some ?g" using c by (simp add: send_shutdown_def)
  have "\<And>j. j \<in> set ks \<Longrightarrow> \<exists>c. HostsShutDown (proxies ?g p) j = Some c \<and> health ?g p j = c # rest j"
    using Cons.prems by fastforce
  moreover have "distinct ks" using Cons.prems(1) by simp
  ultimately obtain hl where hl: "shutdown_loop p ks ?g = ?g\<lparr>health := (health ?g)(p := hl)\<rparr>"
    "\<forall>j. hl j = (if j \<in> set ks then rest j else health ?g p j)"
    using Cons.IH [of ?g] by blast
  have eq: "?g\<lparr>health := (health ?g)(p := hl)\<rparr> = g\<lparr>health := (health g)(p := hl)\<rparr>"
    by (simp add: fun_eq_iff)
  have "\<forall>j. hl j = (if j \<in> set (k # ks) then rest j else health g p j)"
    using hl(2) Cons.prems(1) by auto
  moreover have "shutdown_loop p (k # ks) g = g\<lparr>health := (health g)(p := hl)\<rparr>"
    using send hl(1) eq by simp
  ultimately show ?case by blast
qed

text \<open>C25: \<open>RemoveProxy\<close> on a proxy whose hosts were left alone stops everything: it returns,
  the route is gone from the router and the map, and one health check per host has ended,
  in whatever order the hosts are met.\<close>

theorem RemoveProxy_stops_all:
  assumes "Relations (maps g m) pattern = Some p" and "p \<in> set (watchers g)"
    and "router g = Some routes"
    and "distinct order" and "set order = dom (HostsShutDown (proxies g p))"
    and "\<And>k c. HostsShutDown (proxies g p) k = Some c \<Longrightarrow> health g p k = [c]"
  shows "\<exists>g'. RemoveProxy m order pattern g = Ret (None, g')
    \<and> Relations (maps g' m) pattern = None \<and> Locations (maps g' m) pattern = None
    \<and> router g' = Some (routes(pattern := None))
    \<and> (\<forall>k \<in> dom (HostsShutDown (proxies g p)). health g' p k = [])
    \<and> Limiters (maps g' m) = Limiters (maps g m)"
proof -
  let ?g = "g\<lparr>watchers := remove1 p (watchers g)\<rparr>"
  have "\<exists>hl. shutdown_loop p order ?g = ?g\<lparr>health := (health ?g)(p := hl)\<rparr>
      \<and> (\<forall>k. hl k = (if k \<in> set order then [] else health ?g p k))"
    using assms(5,6) by (intro shutdown_loop_all [OF assms(4)]) auto
  then obtain hl where hl: "shutDownCheck order p g = ?g\<lparr>health := (health ?g)(p := hl)\<rparr>"
    "\<forall>k. hl k = (if k \<in> set order then [] else health ?g p k)"
    by (auto simp: shutDownCheck_def)
  then show ?thesis using assms(1-3,5) by (simp add: RemoveProxy_def Let_def upd_map_def)
qed

theorem RemoveProxy_stops_all_witness:
  "\<exists>g'. RemoveProxy 0 [''b:80'', ''a:80''] ''/api'' demo_served = Ret (None, g')
    \<and> health g' 0 ''a:80'' = [] \<and> health g' 0 ''b:80'' = []"
  using RemoveProxy_stops_all [of demo_served 0 "''/api''" 0 "[''/api'' \<mapsto> 0]" "[''b:80'', ''a:80'']"]
  by (fastforce simp: demo_served_def demo_gateway_def demo_proxy_def split: if_splits)

subsection \<open>Changing the balancer\<close>

text \<open>\<open>ChangeLb\<close> brings dead hosts back. It fills the new balancer from the host map, so
  a host that its health check has taken out is balanced to again; further failing checks
  leave it there, since it is already marked dead.\<close>

theorem ChangeLb_revives_dead_hosts:
  assumes "mode_ok n U mode" and "distinct order" and "set order = dom (HostMap (proxies g p))"
    and "dom (HostMap (proxies g p)) \<subseteq> U"
    and "HostMap (proxies g p) host = Some url" and "Alive (proxies g p) host = Some False"
  shows "\<exists>g'. ChangeLb n order p mode g = (None, g')
    \<and> lb_members (Lb (proxies g' p)) = dom (HostMap (proxies g p))
    \<and> host \<in> lb_members (Lb (proxies g' p))
    \<and> health_tick False False host (proxies g' p) = Ret (proxies g' p)"
proof -
  obtain b where "Build n mode order = Inr b" "lb_members b = set order"
    using Build_contract [of mode n U order] assms(1-4) by (auto simp: mode_ok_def)
  then show ?thesis
    using assms(3,5,6) by (auto simp: ChangeLb_def upd_proxy_def health_tick_def ReadAlive_def)
qed

theorem ChangeLb_revives_dead_hosts_witness:
  "\<exists>g'. ChangeLb 3 [''b:80'', ''a:80''] 0 ''round-robin''
        (upd_proxy 0 (\<lambda>h. (SetAlive ''a:80'' False h)\<lparr>Lb := RR (NewRoundRobin [''b:80''])\<rparr>) demo_served) = (None, g')
     \<and> ''a:80'' \<in> lb_members (Lb (proxies g' 0))"
  using ChangeLb_revives_dead_hosts [of 3 UNIV "''round-robin''" "[''b:80'', ''a:80'']"
      "upd_proxy 0 (\<lambda>h. (SetAlive ''a:80'' False h)\<lparr>Lb := RR (NewRoundRobin [''b:80''])\<rparr>) demo_served" 0 "''a:80''"]
  by (auto simp: upd_proxy_def SetAlive_def demo_served_def demo_gateway_def demo_proxy_def mode_ok_def)

subsection \<open>Limiters made by requests\<close>

definition first_requests ::
  "('m, 'l) rate_pkg \<Rightarrow> int \<Rightarrow> proxy_ref \<Rightarrow> string list \<Rightarrow> 'l gateway \<Rightarrow> 'l gateway outcome" where
  "first_requests rate now p paths =
     fold_outcome (\<lambda>path g. and_then (invaildToken rate now p path g) (\<lambda>(err, g'). Ret g')) paths"

definition limiter_count :: "map_ref \<Rightarrow> string \<Rightarrow> 'l gateway \<Rightarrow> nat" where
  "limiter_count m pattern g = (case Limiters (maps g m) pattern of None \<Rightarrow> 0 | Some infos \<Rightarrow> length infos)"

lemma first_requests_keep:
  assumes "first_requests rate now p paths g = Ret g'" and "path \<notin> set paths"
  shows "Methods (proxies g' p) path = Methods (proxies g p) path"
  using assms
proof (induction paths arbitrary: g)
  case (Cons x paths)
  obtain err g1 where g1: "invaildToken rate now p x g = Ret (err, g1)"
    "first_requests rate now p paths g1 = Ret g'"
    using Cons.prems(1) by (auto simp: first_requests_def and_then_eq_Ret)
  have "Methods (proxies g1 p) path = Methods (proxies g p) path"
    using g1(1) Cons.prems(2)
    by (auto simp: invaildToken_def configRate_def Let_def upd_proxy_def record_limiter_def upd_map_def
        split: option.splits sum.splits prod.splits if_splits)
  then show ?case using Cons.IH [OF g1(2)] Cons.prems(2) by simp
qed (simp add: first_requests_def)

text \<open>The first request on a path is never limited: it only creates the limiter of that
  path, and records it. A client that asks for \<open>k\<close> new paths leaves \<open>k\<close> more records in the
  replicated state, without any bound.\<close>

theorem first_requests_grow:
  assumes "Owner (proxies g p) = Some m" and "distinct paths"
    and "\<forall>path \<in> set paths. Methods (proxies g p) path = None"
  shows "\<exists>g'. first_requests rate now p paths g = Ret g'
    \<and> limiter_count m (Pattern (proxies g p)) g' = limiter_count m (Pattern (proxies g p)) g + length paths
    \<and> (\<forall>path \<in> set paths. Methods (proxies g' p) path = Some (NewQpsRateLimiter rate))"
  using assms
proof (induction paths arbitrary: g)
  case Nil
  then show ?case by (simp add: first_requests_def)
next
  case (Cons path paths)
  let ?info = "\<lparr>Prefix = [], PathName = path, LimiterType = ''qps'', Volumn = - 1, Speed = 0,
      MaxThread = - 1, Duration = 0\<rparr>"
  let ?g = "record_limiter m (Pattern (proxies g p)) ?info
      (upd_proxy p (\<lambda>h. h\<lparr>Methods := (Methods h)(path \<mapsto> NewQpsRateLimiter rate)\<rparr>) g)"
  have step: "invaildToken rate now p path g = Ret (None, ?g)"
    using Cons.prems by (simp add: invaildToken_def configRate_def Limiter_Build_def rateLimiterFactories_def)
  have count: "limiter_count m (Pattern (proxies g p)) ?g = Suc (limiter_count m (Pattern (proxies g p)) g)"
    by (simp add: limiter_count_def record_limiter_def upd_map_def upd_proxy_def split: option.splits)
  have same: "Owner (proxies ?g p) = Some m" "Pattern (proxies ?g p) = Pattern (proxies g p)"
    "\<And>x. Methods (proxies ?g p) x = (if x = path then Some (NewQpsRateLimiter rate) else Methods (proxies g p) x)"
    using Cons.prems(1) by (auto simp: record_limiter_def upd_map_def upd_proxy_def)
  then obtain g' where g': "first_requests rate now p paths ?g = Ret g'"
    "limiter_count m (Pattern (proxies ?g p)) g' = limiter_count m (Pattern (proxies ?g p)) ?g + length paths"
    "\<forall>x \<in> set paths. Methods (proxies g' p) x = Some (NewQpsRateLimiter rate)"
    using Cons.IH [of ?g] Cons.prems by fastforce
  have keep: "Methods (proxies g' p) path = Some (NewQpsRateLimiter rate)"
    using first_requests_keep [OF g'(1)] Cons.prems(2) same(3) by simp
  have "first_requests rate now p (path # paths) g = Ret g'"
    using g'(1) step by (simp add: first_requests_def)
  then show ?case using g'(2,3) keep count same(2) by auto
qed

theorem first_requests_grow_witness:
  "\<exists>g'. first_requests toy_rate 0 0 [''/x'', ''/y'', ''/z''] demo_served = Ret g'
    \<and> limiter_count 0 ''/api'' g' = 3"
  using first_requests_grow [of demo_served 0 0 "[''/x'', ''/y'', ''/z'']" toy_rate 0]
  by (auto simp: demo_served_def demo_gateway_def demo_proxy_def NewProxyMap_def limiter_count_def)

end
