(* ===== verification/FilterChain.thy ===== *)
theory FilterChain
  imports Prelude
begin

text \<open>
  \<open>filter/filter.go\<close>: request filters as a linked list built in place. A filter lives at
  an address of a store and keeps its \<open>next\<close> pointer there, so that building a second
  chain writes to the filters of the first. A filter function transforms the request and
  response (type \<open>'c\<close>) and may return an error. The chain is run by a loop over pointers,
  a \<open>partial_function (option)\<close>: \<open>None\<close> is a loop that does not end.
\<close>

type_synonym filter_ref = nat

record 'c Filter =
  filter_fun :: "'c \<Rightarrow> string option \<times> 'c"
  filter_next :: "filter_ref option"

record 'c filter_store =
  filters :: "filter_ref \<Rightarrow> 'c Filter"
  Chain :: "filter_ref option"
  next_ref :: filter_ref

definition NewFilter :: "('c \<Rightarrow> string option \<times> 'c) \<Rightarrow> 'c filter_store \<Rightarrow> filter_ref \<times> 'c filter_store" where
  "NewFilter f s =
     (next_ref s, s\<lparr>filters := (filters s)(next_ref s := \<lparr>filter_fun = f, filter_next = None\<rparr>),
                    next_ref := Suc (next_ref s)\<rparr>)"

definition set_next :: "filter_ref \<Rightarrow> filter_ref option \<Rightarrow> 'c filter_store \<Rightarrow> 'c filter_store" where
  "set_next a p s = s\<lparr>filters := (filters s)(a := (filters s a)\<lparr>filter_next := p\<rparr>)\<rparr>"

fun link_filters :: "filter_ref \<Rightarrow> filter_ref list \<Rightarrow> 'c filter_store \<Rightarrow> 'c filter_store" where
  "link_filters tail [] s = s"
| "link_filters tail (cur # fs) s = link_filters cur fs (set_next tail (Some cur) s)"

definition CreateFilterChain :: "filter_ref list \<Rightarrow> 'c filter_store \<Rightarrow> 'c filter_store" where
  "CreateFilterChain fs s =
     (case fs of
        [] \<Rightarrow> s
      | head # rest \<Rightarrow> (link_filters head rest s)\<lparr>Chain := Some head\<rparr>)"

partial_function (option) chain_loop ::
  "(filter_ref \<Rightarrow> 'c Filter) \<Rightarrow> filter_ref option \<Rightarrow> 'c \<Rightarrow> (string option \<times> 'c) option" where
  "chain_loop h root c =
     (case root of
        None \<Rightarrow> Some (None, c)
      | Some a \<Rightarrow>
          (case filter_fun (h a) c of
             (Some err, c') \<Rightarrow> Some (Some err, c')
           | (None, c') \<Rightarrow> chain_loop h (filter_next (h a)) c'))"

declare chain_loop.simps [code]

definition ExecuteFilterChain :: "'c filter_store \<Rightarrow> 'c \<Rightarrow> (string option \<times> 'c) outcome" where
  "ExecuteFilterChain s c =
     (case Chain s of
        None \<Rightarrow> Ret (None, c)
      | Some root \<Rightarrow>
          (case chain_loop (filters s) (Some root) c of None \<Rightarrow> Stuck | Some r \<Rightarrow> Ret r))"

subsection \<open>Reference: filters in order, up to the first error\<close>

fun run_filters :: "('c \<Rightarrow> string option \<times> 'c) list \<Rightarrow> 'c \<Rightarrow> string option \<times> 'c" where
  "run_filters [] c = (None, c)"
| "run_filters (f # fs) c =
     (case f c of (Some err, c') \<Rightarrow> (Some err, c') | (None, c') \<Rightarrow> run_filters fs c')"

fun chain :: "(filter_ref \<Rightarrow> 'c Filter) \<Rightarrow> filter_ref option \<Rightarrow> filter_ref list \<Rightarrow> bool" where
  "chain h p [] \<longleftrightarrow> p = None"
| "chain h p (a # as) \<longleftrightarrow> p = Some a \<and> chain h (filter_next (h a)) as"

definition funs_of :: "'c filter_store \<Rightarrow> filter_ref list \<Rightarrow> ('c \<Rightarrow> string option \<times> 'c) list" where
  "funs_of s as = map (\<lambda>a. filter_fun (filters s a)) as"

lemma chain_loop_run:
  "chain h p as \<Longrightarrow> chain_loop h p c = Some (run_filters (map (\<lambda>a. filter_fun (h a)) as) c)"
proof (induction as arbitrary: p c)
  case Nil
  then show ?case by (simp add: chain_loop.simps)
next
  case (Cons a as)
  then show ?case
    by (simp add: chain_loop.simps [of h "Some a"] split: prod.splits option.splits)
qed

lemma Execute_run:
  "chain (filters s) (Chain s) as \<Longrightarrow> ExecuteFilterChain s c = Ret (run_filters (funs_of s as) c)"
  using chain_loop_run [of "filters s" "Chain s" as c]
  by (cases as) (auto simp: ExecuteFilterChain_def funs_of_def)

subsection \<open>What linking does\<close>

lemma filter_fun_set_next [simp]:
  "filter_fun (filters (set_next a p s) b) = filter_fun (filters s b)"
  by (simp add: set_next_def)

lemma filter_next_set_next [simp]:
  "filter_next (filters (set_next a p s) b) = (if b = a then p else filter_next (filters s b))"
  by (simp add: set_next_def)

lemma filter_fun_link [simp]:
  "filter_fun (filters (link_filters t fs s) b) = filter_fun (filters s b)"
  by (induction t fs s rule: link_filters.induct) auto

lemma funs_of_Create [simp]: "funs_of (CreateFilterChain fs s) as = funs_of s as"
  by (simp add: funs_of_def CreateFilterChain_def split: list.splits)

lemma filter_next_link:
  "b \<notin> set (butlast (t # fs)) \<Longrightarrow> filter_next (filters (link_filters t fs s) b) = filter_next (filters s b)"
  by (induction t fs s rule: link_filters.induct) (auto split: if_splits)

text \<open>A linked list of distinct filters ends where the \<open>next\<close> of its last filter pointed
  before.\<close>

lemma chain_link:
  assumes "distinct (t # fs)" "chain (filters s) (filter_next (filters s (last (t # fs)))) rest"
    and "set (t # fs) \<inter> set rest = {}"
  shows "chain (filters (link_filters t fs s)) (Some t) ((t # fs) @ rest)"
  using assms
proof (induction t fs s rule: link_filters.induct)
  case (1 t s)
  then show ?case by simp
next
  case (2 t cur fs s)
  let ?s = "set_next t (Some cur) s"
  have frame: "chain (filters ?s) p rest = chain (filters s) p rest" if "t \<notin> set rest" for p
    using that by (induction rest arbitrary: p) auto
  have "last (cur # fs) \<noteq> t" using 2(2) by (metis distinct.simps(2) last_in_set list.distinct(1))
  then have "chain (filters (link_filters cur fs ?s)) (Some cur) ((cur # fs) @ rest)"
    using 2 by (intro 2(1)) (auto simp: frame)
  moreover have "filter_next (filters (link_filters cur fs ?s) t) = Some cur"
    using 2(2) by (subst filter_next_link) (auto dest: in_set_butlastD)
  ultimately show ?case by simp
qed

lemma chain_Create:
  assumes "fs \<noteq> []" "distinct fs" "chain (filters s) (filter_next (filters s (last fs))) rest"
    and "set fs \<inter> set rest = {}"
  shows "chain (filters (CreateFilterChain fs s)) (Chain (CreateFilterChain fs s)) (fs @ rest)"
  using assms chain_link by (cases fs) (auto simp: CreateFilterChain_def)

text \<open>Linking a prefix of an existing chain changes nothing.\<close>

lemma link_again:
  "chain (filters s) (Some t) ((t # fs) @ rest) \<Longrightarrow> link_filters t fs s = s"
proof (induction t fs s arbitrary: rest rule: link_filters.induct)
  case (2 t cur fs s)
  then have "filter_next (filters s t) = Some cur" by simp
  then have "set_next t (Some cur) s = s"
    by (simp add: set_next_def fun_upd_idem)
  then show ?case using 2(1) [of rest] 2(2) by simp
qed simp

lemma chain_loop_endless:
  assumes "\<And>a. a \<in> A \<Longrightarrow> \<exists>b \<in> A. filter_next (h a) = Some b"
    and "\<And>a c. a \<in> A \<Longrightarrow> fst (filter_fun (h a) c) = None"
    and "a \<in> A"
  shows "chain_loop h (Some a) c = None"
proof -
  let ?good = "\<lambda>h. (\<forall>a\<in>A. \<exists>b\<in>A. filter_next (h a) = Some b) \<and> (\<forall>a\<in>A. \<forall>c. fst (filter_fun (h a) c) = None)"
  have "?good h \<longrightarrow> (\<forall>a\<in>A. p \<noteq> Some a)" if "chain_loop h p c = Some r"
    for h :: "filter_ref \<Rightarrow> 'a Filter" and p c r
  proof (rule chain_loop.raw_induct
      [where P = "\<lambda>h p c r. ?good h \<longrightarrow> (\<forall>a\<in>A. p \<noteq> Some a)", OF _ that], intro impI ballI notI)
    fix f :: "(filter_ref \<Rightarrow> 'a Filter) \<Rightarrow> filter_ref option \<Rightarrow> 'a \<Rightarrow> (string option \<times> 'a) option"
      and h :: "filter_ref \<Rightarrow> 'a Filter" and p c r a
    assume IH: "\<And>h p c r. f h p c = Some r \<Longrightarrow> ?good h \<longrightarrow> (\<forall>a\<in>A. p \<noteq> Some a)"
      and step: "(case p of None \<Rightarrow> Some (None, c)
        | Some a \<Rightarrow> (case filter_fun (h a) c of
            (None, c') \<Rightarrow> f h (filter_next (h a)) c' | (Some err, c') \<Rightarrow> Some (Some err, c'))) = Some r"
      and a: "?good h" "a \<in> A" "p = Some a"
    obtain b where b: "b \<in> A" "filter_next (h a) = Some b" using a by blast
    obtain c' where "filter_fun (h a) c = (None, c')" using a by (metis prod.collapse)
    with step a(3) b(2) have "f h (Some b) c' = Some r" by simp
    with IH a(1) b(1) show False by blast
  qed
  with assms show ?thesis by (metis option.exhaust)
qed

lemma link_next_inside:
  "b \<in> set (butlast (t # fs)) \<Longrightarrow>
   \<exists>c \<in> set (t # fs). filter_next (filters (link_filters t fs s) b) = Some c"
proof (induction t fs s rule: link_filters.induct)
  case (2 t cur fs s)
  show ?case
  proof (cases "b \<in> set (butlast (cur # fs))")
    case True
    then show ?thesis using 2(1) by auto
  next
    case False
    then have "filter_next (filters (link_filters cur fs (set_next t (Some cur) s)) b)
        = filter_next (filters (set_next t (Some cur) s) b)"
      by (rule filter_next_link)
    then show ?thesis using False 2(2) by (auto split: if_splits)
  qed
qed simp

subsection \<open>Properties\<close>


definition demo_filters :: "nat filter_store" where
  "demo_filters =
     (let s0 = \<lparr>filters = (\<lambda>_. \<lparr>filter_fun = (\<lambda>n. (None, n)), filter_next = None\<rparr>), Chain = None, next_ref = 0\<rparr>;
          s1 = snd (NewFilter (\<lambda>n. (None, n + 1)) s0);
          s2 = snd (NewFilter (\<lambda>n. (if n = 3 then Some ''three'' else None, n * 2)) s1)
      in snd (NewFilter (\<lambda>n. (None, n + 10)) s2))"


text \<open>A chain cannot be made shorter. After building a chain from \<open>fs\<close>, building one
  from a prefix of \<open>fs\<close> (or from nothing) leaves all of \<open>fs\<close> running, since the last filter
  of the prefix keeps its link.\<close>

theorem chain_cannot_shrink:
  assumes "fs \<noteq> []" and "distinct fs" and "filter_next (filters s (last fs)) = None"
    and "fs = kept @ dropped"
  shows "ExecuteFilterChain (CreateFilterChain kept (CreateFilterChain fs s)) c
    = Ret (run_filters (funs_of s fs) c)"
proof -
  let ?s = "CreateFilterChain fs s"
  have ch: "chain (filters ?s) (Chain ?s) (fs @ [])"
    using assms(1-3) by (intro chain_Create) auto
  have "CreateFilterChain kept ?s = ?s"
  proof (cases kept)
    case Nil
    then show ?thesis by (simp add: CreateFilterChain_def)
  next
    case (Cons t rest)
    then have "chain (filters ?s) (Some t) ((t # rest) @ dropped)" "Chain ?s = Some t"
      using ch assms(4) by auto
    then have "(link_filters t rest ?s)\<lparr>Chain := Some t\<rparr> = ?s"
      using link_again [of ?s t rest dropped] by simp
    then show ?thesis unfolding Cons by (subst (1) CreateFilterChain_def) simp
  qed
  then show ?thesis using Execute_run [of ?s fs c] ch by simp
qed

theorem chain_cannot_shrink_witness:
  "ExecuteFilterChain (CreateFilterChain [0] (CreateFilterChain [0, 1, 2] demo_filters)) 2 = Ret (Some ''three'', 6)"
  using chain_cannot_shrink [of "[0, 1, 2]" demo_filters "[0]" "[1, 2]" 2]
  by (simp add: demo_filters_def NewFilter_def funs_of_def)

text \<open>A chain that lists its last filter twice is a cycle: when none of the filters
  returns an error, no request gets past it.\<close>

theorem repeated_filter_endless:
  assumes "a \<in> set fs" and "\<forall>b \<in> set fs. \<forall>c. fst (filter_fun (filters s b) c) = None"
  shows "ExecuteFilterChain (CreateFilterChain (fs @ [a]) s) c = Stuck"
proof -
  obtain t rest where fs: "fs = t # rest" using assms(1) by (cases fs) auto
  let ?s = "link_filters t (rest @ [a]) s"
  have create: "CreateFilterChain (fs @ [a]) s = ?s\<lparr>Chain := Some t\<rparr>"
    by (simp add: CreateFilterChain_def fs)
  have "\<exists>d \<in> set fs. filter_next (filters ?s b) = Some d" if "b \<in> set fs" for b
    using link_next_inside [of b t "rest @ [a]" s] that assms(1) by (auto simp: fs butlast_append)
  then have "chain_loop (filters ?s) (Some t) c = None"
    using assms(2) fs by (intro chain_loop_endless [where A = "set fs"]) auto
  then show ?thesis by (simp add: create ExecuteFilterChain_def)
qed

theorem repeated_filter_endless_witness:
  "ExecuteFilterChain (CreateFilterChain [0, 2, 0] demo_filters) 1 = Stuck"
  using repeated_filter_endless [of 0 "[0, 2]" demo_filters 1]
  by (simp add: demo_filters_def NewFilter_def)

end
