(* ===== verification/Router.thy ===== *)
theory Router
  imports GatewayInv FilterChain
begin

text \<open>
  \<open>default_router.go\<close> and \<open>router.go\<close>: the table of routes, the choice of a route and the
  pipeline that every request passes (black list, filters, route, rate limit, balancer,
  forwarding); and \<open>HTTPProxy.ServeHTTP\<close>, the shorter pipeline of a single proxy. What a
  reverse proxy of the standard library does with a request is the parameter \<open>forward\<close>.
\<close>

subsection \<open>Responses\<close>

text \<open>The first status written counts; a write without a status means 200.\<close>

record response =
  status :: "nat option"
  body :: string

definition new_response :: response where
  "new_response = \<lparr>status = None, body = []\<rparr>"

definition WriteHeader :: "nat \<Rightarrow> response \<Rightarrow> response" where
  "WriteHeader code w = (if status w = None then w\<lparr>status := Some code\<rparr> else w)"

definition Write :: "string \<Rightarrow> response \<Rightarrow> response" where
  "Write s w = (WriteHeader 200 w)\<lparr>body := body w @ s\<rparr>"

fun limit_text :: "limit_error \<Rightarrow> string" where
  "limit_text LimiterAlreadyExists = ''limiter already exists''"
| "limit_text LimiterTypeNotSupportedError = ''limiter type not supported''"
| "limit_text NoReaminTokenError = ''The token has been used up''"

fun balance_text :: "balance_error \<Rightarrow> string" where
  "balance_text NoHostError = ''no host''"
| "balance_text CantFindAnyHost = ''can't find any host''"

subsection \<open>The table of routes\<close>

type_synonym routes = "string \<Rightarrow> proxy_ref option"

definition DefaultRouter_Add :: "string \<Rightarrow> proxy_ref \<Rightarrow> routes \<Rightarrow> routes" where
  "DefaultRouter_Add p proxy r = r(p \<mapsto> proxy)"

definition DefaultRouter_Remove :: "string \<Rightarrow> routes \<Rightarrow> routes" where
  "DefaultRouter_Remove p r = r(p := None)"

definition DefaultRouter_HasPrefix :: "string \<Rightarrow> routes \<Rightarrow> bool" where
  "DefaultRouter_HasPrefix p r = (r p \<noteq> None)"

text \<open>The table is created once, by the first call with the name \<open>default\<close>.\<close>

definition GetRouterInstance :: "string \<Rightarrow> 'l gateway \<Rightarrow> 'l gateway" where
  "GetRouterInstance name g =
     (if router g = None \<and> name = ''default'' then g\<lparr>router := Some Map.empty\<rparr> else g)"

text \<open>The loop of \<open>Route\<close>, from the end of the path to its start; \<open>i\<close> is one more than the
  index it looks at.\<close>

fun route_loop :: "routes \<Rightarrow> string \<Rightarrow> nat \<Rightarrow> (proxy_ref \<times> string) option" where
  "route_loop r path 0 = None"
| "route_loop r path (Suc i) =
     (if path ! i = CHR ''/'' then
        (let nextPath = take i path in
         if DefaultRouter_HasPrefix nextPath r
         then Some (the (r nextPath), drop i path)
         else route_loop r path i)
      else route_loop r path i)"

definition DefaultRouter_Route :: "routes \<Rightarrow> string \<Rightarrow> (proxy_ref \<times> string) option" where
  "DefaultRouter_Route r path = route_loop r path (length path)"

subsection \<open>The pipeline\<close>

definition Header_Set :: "http_header \<Rightarrow> string \<Rightarrow> string \<Rightarrow> http_header" where
  "Header_Set h k v = h(CanonicalHeaderKey k \<mapsto> [v])"

text \<open>What the \<open>Director\<close> of a proxy adds to a request.\<close>

definition Director :: "http_request \<Rightarrow> http_request" where
  "Director r = r\<lparr>Header := Header_Set (Header_Set (Header r) ''X-Proxy'' ''Balancer-Reverse-Proxy'')
                             ''X-Real-IP'' (GetIP (RemoteAddr r))\<rparr>"

text \<open>The outside world of a request: the clock, the rate package, the filters and the
  reverse proxies of the standard library.\<close>

record ('m, 'l) world =
  rate :: "('m, 'l) rate_pkg"
  clock :: int
  filter_chain :: "(http_request \<times> response) filter_store"
  forward :: "URL \<Rightarrow> http_request \<Rightarrow> response \<Rightarrow> response"

definition balance_and_forward ::
  "('m, 'l) world \<Rightarrow> proxy_ref \<Rightarrow> http_request \<Rightarrow> string \<Rightarrow> response \<Rightarrow> 'l gateway
   \<Rightarrow> (response \<times> 'l gateway) outcome" where
  "balance_and_forward env p req Realpath w g =
     and_then (Balancer_Balance (GetIP (RemoteAddr req)) (Lb (proxies g p))) (\<lambda>(res, lb).
       let g' = upd_proxy p (\<lambda>h. h\<lparr>Lb := lb\<rparr>) g in
       case res of
         Inl err \<Rightarrow> Ret (Write (''balancer error: '' @ balance_text err) (WriteHeader 502 w), g')
       | Inr host \<Rightarrow>
           (let g'' = upd_proxy p (\<lambda>h. h\<lparr>Lb := Balancer_Done host (Balancer_Inc host (Lb h))\<rparr>) g' in
            case HostMap (proxies g'' p) host of
              None \<Rightarrow> Panic NilDereference
            | Some url \<Rightarrow> Ret (forward env url (Director (req\<lparr>Path := Realpath\<rparr>)) w, g'')))"

definition DefaultRouter_ServeHTTP ::
  "('m, 'l) world \<Rightarrow> routes \<Rightarrow> http_request \<Rightarrow> response \<Rightarrow> 'l gateway
   \<Rightarrow> (response \<times> 'l gateway) outcome" where
  "DefaultRouter_ServeHTTP env r req w g =
     and_then (RadixTree_AccessControl (black_list g) (RemoteIp req)) (\<lambda>isDeny.
     if isDeny then Ret (WriteHeader 403 w, g)
     else
       and_then (ExecuteFilterChain (filter_chain env) (req, w)) (\<lambda>(err, (req, w)).
       case err of
         Some msg \<Rightarrow> Ret (Write msg w, g)
       | None \<Rightarrow>
         (case DefaultRouter_Route r (Path req) of
            None \<Rightarrow> Ret (WriteHeader 404 w, g)
          | Some (p, Realpath) \<Rightarrow>
              and_then (invaildToken (rate env) (clock env) p Realpath g) (\<lambda>(err, g).
              case err of
                Some e \<Rightarrow> Ret (Write (''route error: '' @ limit_text e) (WriteHeader 400 w), g)
              | None \<Rightarrow> balance_and_forward env p req Realpath w g))))"

subsection \<open>The pipeline of a single proxy\<close>

definition HTTPProxy_accessControl :: "string \<Rightarrow> 'l gateway \<Rightarrow> bool outcome" where
  "HTTPProxy_accessControl ip g =
     and_then (RadixTree_Search (black_list g) ip) (\<lambda>v. Ret (v = []))"

definition HTTPProxy_ServeHTTP ::
  "('m, 'l) world \<Rightarrow> proxy_ref \<Rightarrow> http_request \<Rightarrow> response \<Rightarrow> 'l gateway
   \<Rightarrow> (response \<times> 'l gateway) outcome" where
  "HTTPProxy_ServeHTTP env p req w g =
     and_then (HTTPProxy_accessControl (RemoteIp req) g) (\<lambda>allowed.
     if \<not> allowed then Ret (WriteHeader 403 w, g)
     else balance_and_forward env p req (Path req) w g)"

subsection \<open>Facts about the choice of a route\<close>

lemma route_loop_None:
  "n \<le> length path \<Longrightarrow> route_loop r path n = None \<longleftrightarrow> (\<forall>i<n. path ! i = CHR ''/'' \<longrightarrow> r (take i path) = None)"
  by (induction n) (auto simp: DefaultRouter_HasPrefix_def less_Suc_eq Let_def)

lemma route_loop_Some:
  "n \<le> length path \<Longrightarrow> route_loop r path n = Some (p, rest) \<longleftrightarrow>
     (\<exists>i<n. path ! i = CHR ''/'' \<and> r (take i path) = Some p \<and> rest = drop i path
        \<and> (\<forall>j<n. i < j \<longrightarrow> path ! j = CHR ''/'' \<longrightarrow> r (take j path) = None))"
proof (induction n)
  case (Suc n)
  show ?case
  proof (cases "path ! n = CHR ''/'' \<and> r (take n path) \<noteq> None")
    case True
    then obtain q where q: "r (take n path) = Some q" by blast
    then have "route_loop r path (Suc n) = Some (q, drop n path)"
      using True by (simp add: DefaultRouter_HasPrefix_def)
    moreover have "i = n" if "i < Suc n" "\<forall>j<Suc n. i < j \<longrightarrow> path ! j = CHR ''/'' \<longrightarrow> r (take j path) = None" for i
      using that True by (meson lessI less_SucE)
    moreover have "\<forall>j<Suc n. n < j \<longrightarrow> path ! j = CHR ''/'' \<longrightarrow> r (take j path) = None"
      by simp
    ultimately show ?thesis using True q
      by (simp only: option.inject prod.inject) (metis lessI option.inject)
  next
    case False
    then have "route_loop r path (Suc n) = route_loop r path n"
      by (auto simp: DefaultRouter_HasPrefix_def)
    then show ?thesis using Suc False by (auto simp: less_Suc_eq)
  qed
qed simp

subsection \<open>Properties of the choice of a route\<close>

lemma split_at: "i < length path \<Longrightarrow> path ! i = c \<Longrightarrow> path = take i path @ c # drop (Suc i) path"
  by (metis id_take_nth_drop)

lemma Route_None:
  "DefaultRouter_Route r path = None \<longleftrightarrow> (\<forall>prefix rest. path = prefix @ CHR ''/'' # rest \<longrightarrow> r prefix = None)"
proof
  assume "DefaultRouter_Route r path = None"
  then have "r (take i path) = None" if "i < length path" "path ! i = CHR ''/''" for i
    using that by (simp add: DefaultRouter_Route_def route_loop_None)
  then show "\<forall>prefix rest. path = prefix @ CHR ''/'' # rest \<longrightarrow> r prefix = None"
    by (metis append_eq_conv_conj length_append length_Cons less_add_Suc1 nth_append_length add_Suc_right)
next
  assume *: "\<forall>prefix rest. path = prefix @ CHR ''/'' # rest \<longrightarrow> r prefix = None"
  have "r (take i path) = None" if "i < length path" "path ! i = CHR ''/''" for i
    using * split_at [OF that] by blast
  then show "DefaultRouter_Route r path = None"
    by (simp add: DefaultRouter_Route_def route_loop_None)
qed

lemma Route_Some:
  "DefaultRouter_Route r path = Some (p, suffix) \<longleftrightarrow>
     (\<exists>prefix rest. path = prefix @ suffix \<and> suffix = CHR ''/'' # rest \<and> r prefix = Some p
        \<and> (\<forall>prefix' rest'. path = prefix' @ CHR ''/'' # rest' \<longrightarrow> length prefix < length prefix' \<longrightarrow> r prefix' = None))"
    (is "?lhs \<longleftrightarrow> ?rhs")
proof
  assume ?lhs
  then obtain i where i: "i < length path" "path ! i = CHR ''/''" "r (take i path) = Some p"
    "suffix = drop i path" "\<forall>j<length path. i < j \<longrightarrow> path ! j = CHR ''/'' \<longrightarrow> r (take j path) = None"
    by (auto simp: DefaultRouter_Route_def route_loop_Some)
  have "suffix = CHR ''/'' # drop (Suc i) path" using i(1,2,4) by (simp add: Cons_nth_drop_Suc [symmetric])
  moreover have "r prefix' = None"
    if "path = prefix' @ CHR ''/'' # rest'" "length (take i path) < length prefix'" for prefix' rest'
    using i(5) [rule_format, of "length prefix'"] that i(1) by simp
  moreover have "path = take i path @ suffix" by (simp add: i(4))
  ultimately show ?rhs using i(3) by blast
next
  assume ?rhs
  then obtain prefix rest where *: "path = prefix @ suffix" "suffix = CHR ''/'' # rest" "r prefix = Some p"
    "\<And>prefix' rest'. path = prefix' @ CHR ''/'' # rest' \<Longrightarrow> length prefix < length prefix' \<Longrightarrow> r prefix' = None"
    by blast
  have "r (take j path) = None" if "j < length path" "length prefix < j" "path ! j = CHR ''/''" for j
    using *(4) [OF split_at [OF that(1,3)]] that(1,2) by simp
  then show ?lhs
    using *(1-3) unfolding DefaultRouter_Route_def
    by (subst route_loop_Some) (auto intro!: exI [of _ "length prefix"])
qed

text \<open>C20: a request goes to the longest registered prefix of its path that ends where a slash
  begins, and the rest of the path, from that slash on, is what the backend sees. No route
  is chosen exactly when no such prefix is registered.\<close>

theorem Route_longest_prefix:
  "(DefaultRouter_Route r path = None \<longleftrightarrow> (\<forall>prefix rest. path = prefix @ CHR ''/'' # rest \<longrightarrow> r prefix = None))
   \<and> (DefaultRouter_Route r path = Some (p, suffix) \<longleftrightarrow>
       (\<exists>prefix rest. path = prefix @ suffix \<and> suffix = CHR ''/'' # rest \<and> r prefix = Some p
          \<and> (\<forall>prefix' rest'. path = prefix' @ CHR ''/'' # rest' \<longrightarrow> length prefix < length prefix' \<longrightarrow> r prefix' = None)))"
  using Route_None Route_Some by blast

theorem Route_longest_prefix_witness:
  "DefaultRouter_Route [''/api'' \<mapsto> 0, ''/api/v1'' \<mapsto> 1] ''/api/v1/x'' = Some (1, ''/x'')"
proof -
  have "r' = None" if "''/api/v1/x'' = prefix' @ CHR ''/'' # rest'" "8 \<le> length prefix'"
      "[''/api'' \<mapsto> (0::nat), ''/api/v1'' \<mapsto> 1] prefix' = r'" for prefix' rest' r'
  proof -
    have "prefix' = take (length prefix') ''/api/v1/x''" using that(1) by (metis append_eq_conv_conj)
    moreover have "length prefix' = 8 \<or> length prefix' = 9" using that(1,2) by (cases "length prefix' < 10") (auto dest: arg_cong [of _ _ length])
    ultimately show ?thesis using that by auto
  qed
  then show ?thesis
    using Route_longest_prefix [of "[''/api'' \<mapsto> 0, ''/api/v1'' \<mapsto> 1]" "''/api/v1/x''" 1 "''/x''"]
    by auto
qed

text \<open>A pattern is not matched by the path that equals it, and a pattern that ends in a
  slash is matched only by paths with a double slash: the pattern \<open>/\<close> catches no ordinary
  path at all. Of the patterns a location may have, only the empty one catches everything.\<close>

theorem Route_pattern_forms:
  assumes "DefaultRouter_Route r path = Some (p, suffix)"
  shows "\<exists>pattern. r pattern = Some p \<and> path = pattern @ suffix \<and> path \<noteq> pattern
    \<and> (pattern \<noteq> [] \<and> last pattern = CHR ''/'' \<longrightarrow> (\<exists>front rest. path = front @ ''//'' @ rest))"
proof -
  obtain pattern rest where *: "path = pattern @ suffix" "suffix = CHR ''/'' # rest" "r pattern = Some p"
    using assms Route_Some [of r path p suffix] by blast
  have "\<exists>front rest. path = front @ ''//'' @ rest" if "pattern \<noteq> []" "last pattern = CHR ''/''"
  proof -
    have "pattern = butlast pattern @ ''/''" using that by (metis append_butlast_last_id)
    then have "path = butlast pattern @ ''//'' @ rest" using *(1,2) by simp
    then show ?thesis by blast
  qed
  with * show ?thesis by (intro exI [of _ pattern]) auto
qed

theorem Route_pattern_forms_witness:
  "DefaultRouter_Route [''/'' \<mapsto> 0] ''/index.html'' = None
   \<and> (\<exists>pattern. [''/'' \<mapsto> (0::nat)] pattern = Some 0 \<and> ''//x'' = pattern @ ''/x'')"
proof
  show "DefaultRouter_Route [''/'' \<mapsto> 0] ''/index.html'' = None"
    by (simp add: DefaultRouter_Route_def DefaultRouter_HasPrefix_def)
  have "DefaultRouter_Route [''/'' \<mapsto> 0] ''//x'' = Some (0, ''/x'')"
    by (simp add: DefaultRouter_Route_def DefaultRouter_HasPrefix_def)
  from Route_pattern_forms [OF this] show "\<exists>pattern. [''/'' \<mapsto> (0::nat)] pattern = Some 0 \<and> ''//x'' = pattern @ ''/x''"
    by blast
qed

subsection \<open>Properties of the pipeline\<close>

lemma invaildToken_keeps:
  assumes "Owner (proxies g p) = Some m"
  shows "\<exists>err g'. invaildToken rt now p api g = Ret (err, g')
    \<and> Lb (proxies g' p) = Lb (proxies g p) \<and> HostMap (proxies g' p) = HostMap (proxies g p)
    \<and> Alive (proxies g' p) = Alive (proxies g p)"
  using assms
  by (auto simp: invaildToken_def configRate_def Let_def upd_proxy_def record_limiter_def upd_map_def
      split: option.splits sum.splits prod.splits)

lemma invaildToken_first:
  "Methods (proxies g p) api = None \<Longrightarrow> Owner (proxies g p) = Some m \<Longrightarrow>
   \<exists>g'. invaildToken rt now p api g = Ret (None, g') \<and> Lb (proxies g' p) = Lb (proxies g p)
     \<and> HostMap (proxies g' p) = HostMap (proxies g p)"
  by (simp add: invaildToken_def configRate_def Limiter_Build_def rateLimiterFactories_def Let_def
      upd_proxy_def record_limiter_def upd_map_def)

lemma Balancer_Inc_Done [simp]: "Balancer_Done h (Balancer_Inc h b) = b"
  by (cases b) (simp_all add: RoundRobin_Inc_def RoundRobin_Done_def ConsistenceHash_Inc_def
      ConsistenceHash_Done_def)

lemma RemoteIp_dotted: "RemoteAddr req = dotted a b c d @ x \<Longrightarrow> RemoteIp req = RemoteAddr req"
  by (simp add: RemoteIp_def)

lemma Execute_none: "Chain s = None \<Longrightarrow> ExecuteFilterChain s c = Ret (None, c)"
  by (simp add: ExecuteFilterChain_def)

lemma balance_and_forward_ok:
  assumes "proxy_ok U (proxies g p)"
  shows "\<exists>w' g'. balance_and_forward env p req rest w g = Ret (w', g') \<and> proxy_ok U (proxies g' p)
    \<and> (if alive_hosts (proxies g p) = {}
       then \<exists>e. w' = Write (''balancer error: '' @ balance_text e) (WriteHeader 502 w)
       else \<exists>host url. host \<in> alive_hosts (proxies g p) \<and> HostMap (proxies g p) host = Some url
         \<and> w' = forward env url (Director (req\<lparr>Path := rest\<rparr>)) w)"
proof -
  let ?h = "proxies g p" and ?key = "GetIP (RemoteAddr req)"
  have ok: "lb_ok U (Lb ?h)" "lb_members (Lb ?h) = alive_hosts ?h" "dom (Alive ?h) = dom (HostMap ?h)"
    using assms by (auto simp: proxy_ok_def)
  show ?thesis
  proof (cases "alive_hosts ?h = {}")
    case True
    then obtain e where "Balancer_Balance ?key (Lb ?h) = Ret (Inl e, Lb ?h)"
      using lb.balance_empty [OF ok(1), of ?key] ok(2) by auto
    then show ?thesis using assms True by (simp add: balance_and_forward_def Let_def upd_proxy_def) blast
  next
    case False
    then obtain host b where b: "Balancer_Balance ?key (Lb ?h) = Ret (Inr host, b)" "host \<in> alive_hosts ?h"
      "lb_ok U b" "lb_members b = alive_hosts ?h"
      using lb.balance_member [OF ok(1), of ?key] ok(2) by auto
    have "host \<in> dom (HostMap ?h)" using b(2) ok(3) by (auto simp: alive_hosts_def)
    then obtain url where "HostMap ?h host = Some url" by blast
    then show ?thesis
      using b assms False
      by (auto simp: balance_and_forward_def Let_def upd_proxy_def proxy_ok_def alive_hosts_def)
  qed
qed


definition demo_world :: "(int, int \<times> int) world" where
  "demo_world = \<lparr>rate = toy_rate, clock = 0,
     filter_chain = \<lparr>filters = (\<lambda>_. \<lparr>filter_fun = (\<lambda>c. (None, c)), filter_next = None\<rparr>), Chain = None, next_ref = 0\<rparr>,
     forward = (\<lambda>url req w. Write (Host url @ Path req) w)\<rparr>"

definition demo_request :: http_request where
  "demo_request = \<lparr>RemoteAddr = dotted 10 0 0 7 @ '':4711'', Header = Map.empty, Path = ''/api/x''\<rparr>"

lemma demo_route: "DefaultRouter_Route [''/api'' \<mapsto> 0] (Path demo_request) = Some (0, ''/x'')"
  by (simp add: DefaultRouter_Route_def DefaultRouter_HasPrefix_def demo_request_def)

lemma demo_served_ok:
  "acl_ok (black_list demo_served)" "proxy_ok UNIV (proxies demo_served 0)"
  "Owner (proxies demo_served 0) = Some 0"
  using acl.new_invar demo_proxy_ok
  by (simp_all add: demo_served_def demo_gateway_def acl_fresh_def demo_proxy_def)


text \<open>A blocked client gets a 403 and nothing else happens: after the blocks \<open>bs\<close> have
  been added to an empty black list, a request from an address that one of them covers runs
  no filter, charges no limiter, moves no balancer and reaches no backend.\<close>

theorem blocked_client_stopped:
  assumes "list_all cidr_ok bs" and "cidr_ok (Cidr a b c d n)" and "blk \<in> set bs"
    and "covers blk (ipv4 a b c d)" and "add_all bs NewRadixTree = Ret t" and "black_list g = t"
    and "RemoteAddr req = dotted a b c d @ CHR '':'' # port"
  shows "DefaultRouter_ServeHTTP env r req w g = Ret (WriteHeader 403 w, g)"
proof -
  obtain v where v: "RadixTree_search t (ipv4 a b c d) = Some v" "v \<noteq> []"
    using add_all_search [OF assms(1), of "ipv4 a b c d"] assms(3-5) by (metis outcome.inject)
  have "RadixTree_AccessControl t (dotted a b c d @ CHR '':'' # port) = Ret True"
    using AccessControl_dotted [OF _ _ _ _ v(1)] assms(2) v(2) by simp
  then show ?thesis
    using assms(6,7) RemoteIp_dotted [OF assms(7)] by (simp add: DefaultRouter_ServeHTTP_def)
qed

theorem blocked_client_stopped_witness:
  "\<exists>t. add_all [Cidr 10 0 0 0 8] NewRadixTree = Ret t
     \<and> DefaultRouter_ServeHTTP demo_world [''/api'' \<mapsto> 0] demo_request new_response (demo_served\<lparr>black_list := t\<rparr>)
        = Ret (WriteHeader 403 new_response, demo_served\<lparr>black_list := t\<rparr>)"
proof -
  have "covers (Cidr 10 0 0 0 8) (ipv4 10 0 0 7)"
    by (simp add: covers_def in_block_def ipv4_def netmask_def mask_eq_exp_minus_1)
  moreover obtain t where "add_all [Cidr 10 0 0 0 8] NewRadixTree = Ret t"
    using add_all_search [of "[Cidr 10 0 0 0 8]"] by auto
  ultimately show ?thesis
    using blocked_client_stopped [of "[Cidr 10 0 0 0 8]" 10 0 0 7 8 "Cidr 10 0 0 0 8" t
        "demo_served\<lparr>black_list := t\<rparr>" demo_request "''4711''" demo_world "[''/api'' \<mapsto> 0]" new_response]
    by (auto simp: demo_request_def)
qed

text \<open>A filter that refuses a request is answered with status 200: the error text becomes
  the body, and no status is set. The request goes no further.\<close>

theorem filter_error_is_200:
  assumes "RadixTree_AccessControl (black_list g) (RemoteIp req) = Ret False"
    and "ExecuteFilterChain (filter_chain env) (req, new_response) = Ret (Some msg, (req', new_response))"
  shows "DefaultRouter_ServeHTTP env r req new_response g = Ret (\<lparr>status = Some 200, body = msg\<rparr>, g)"
  using assms by (simp add: DefaultRouter_ServeHTTP_def Write_def WriteHeader_def new_response_def)

definition refusing_world :: "(int, int \<times> int) world" where
  "refusing_world = demo_world\<lparr>filter_chain :=
     CreateFilterChain [0] (snd (NewFilter (\<lambda>c. (Some ''unauthorized'', c)) (filter_chain demo_world)))\<rparr>"

theorem filter_error_is_200_witness:
  "DefaultRouter_ServeHTTP refusing_world [''/api'' \<mapsto> 0] (demo_request\<lparr>RemoteAddr := ''x''\<rparr>) new_response demo_served
     = Ret (\<lparr>status = Some 200, body = ''unauthorized''\<rparr>, demo_served)"
proof -
  let ?req = "demo_request\<lparr>RemoteAddr := ''x''\<rparr>"
  have "RadixTree_AccessControl (black_list demo_served) (RemoteIp ?req) = Ret False"
    by (simp add: demo_served_def demo_gateway_def demo_request_def RemoteIp_def RadixTree_AccessControl_def
        RadixTree_Search_def InetToi_def Atoi_def ParseUint_def digit_value_def RadixTree_search_def
        search_loop.simps NewRadixTree_def nil_node_def child_def)
  moreover have "ExecuteFilterChain (filter_chain refusing_world) (?req, new_response)
      = Ret (Some ''unauthorized'', (?req, new_response))"
    by (simp add: refusing_world_def demo_world_def NewFilter_def CreateFilterChain_def ExecuteFilterChain_def
        chain_loop.simps)
  ultimately show ?thesis
    using filter_error_is_200 [of demo_served ?req refusing_world "''unauthorized''" ?req] by simp
qed

text \<open>The backend sees the client's address in \<open>X-Real-Ip\<close>, whatever headers the client
  sent: the header is overwritten with the host of the connection's remote address.\<close>

theorem Director_overwrites:
  "Header_Get (Header (Director (req\<lparr>Header := sent\<rparr>))) ''x-real-ip'' = GetIP (RemoteAddr req)
   \<and> Header_Get (Header (Director (req\<lparr>Header := sent\<rparr>))) ''X-Proxy'' = ''Balancer-Reverse-Proxy''
   \<and> Path (Director req) = Path req"
proof -
  have "CanonicalHeaderKey ''x-real-ip'' = ''X-Real-Ip''" "CanonicalHeaderKey ''X-Real-IP'' = ''X-Real-Ip''"
    "CanonicalHeaderKey ''X-Proxy'' = ''X-Proxy''"
    by code_simp+
  then show ?thesis by (simp add: Director_def Header_Set_def Header_Get_def)
qed

text \<open>C40: removing a host breaks the route. \<open>RemoveHost\<close> takes the host out of the host map
  but not out of the balancer, so the next request that is balanced to it dereferences a
  missing reverse proxy.\<close>

theorem RemoveHost_then_request_panics:
  assumes "Relations (maps g m) pattern = Some p" and "HostsShutDown (proxies g p) host = Some c"
    and "health g p host = [c]" and "Lb (proxies g p) = RR rr"
    and "rr_hosts rr \<noteq> []" and "rr_hosts rr ! (unat (idx rr) mod length (rr_hosts rr)) = host"
    and "DefaultRouter_Route r (Path req) = Some (p, rest)" and "Owner (proxies g p) = Some m"
    and "Methods (proxies g p) rest = None" and "Chain (filter_chain env) = None"
    and "RadixTree_AccessControl (black_list g) (RemoteIp req) = Ret False"
  shows "\<exists>g'. RemoveHost m pattern host g = Ret (None, g')
    \<and> DefaultRouter_ServeHTTP env r req w g' = Panic NilDereference"
proof -
  let ?g = "upd_proxy p (\<lambda>h. h\<lparr>HostMap := (HostMap h)(host := None)\<rparr>)
      (g\<lparr>health := (health g)(p := (health g p)(host := []))\<rparr>)"
  have rem: "RemoveHost m pattern host g = Ret (None, ?g)"
    using assms(1-3) by (simp add: RemoveHost_def send_shutdown_def)
  have keep: "Methods (proxies ?g p) rest = None" "Owner (proxies ?g p) = Some m" "black_list ?g = black_list g"
    "Lb (proxies ?g p) = RR rr" "HostMap (proxies ?g p) host = None"
    using assms(4,8,9) by (simp_all add: upd_proxy_def)
  obtain g2 where g2: "invaildToken (rate env) (clock env) p rest ?g = Ret (None, g2)"
    "Lb (proxies g2 p) = RR rr" "HostMap (proxies g2 p) host = None"
    using invaildToken_first [OF keep(1,2), of "rate env" "clock env"] keep(4,5) by fastforce
  have "balance_and_forward env p req rest w g2 = Panic NilDereference"
    using g2(2,3) assms(5,6)
    by (simp add: balance_and_forward_def RoundRobin_Balance_def Let_def upd_proxy_def)
  then have "DefaultRouter_ServeHTTP env r req w ?g = Panic NilDereference"
    using g2(1) assms(7,11) keep(3)
    by (simp add: DefaultRouter_ServeHTTP_def Execute_none [OF assms(10)])
  then show ?thesis using rem by blast
qed

theorem RemoveHost_then_request_panics_witness:
  "\<exists>g'. RemoveHost 0 ''/api'' ''a:80'' demo_served = Ret (None, g')
    \<and> DefaultRouter_ServeHTTP demo_world [''/api'' \<mapsto> 0] (demo_request\<lparr>RemoteAddr := ''x''\<rparr>) new_response g'
        = Panic NilDereference"
proof (rule RemoveHost_then_request_panics [where rr = "NewRoundRobin [''a:80'', ''b:80'']" and c = 0 and p = 0
    and rest = "''/x''"])
  show "RadixTree_AccessControl (black_list demo_served) (RemoteIp (demo_request\<lparr>RemoteAddr := ''x''\<rparr>)) = Ret False"
    by (simp add: demo_served_def demo_gateway_def demo_request_def RemoteIp_def RadixTree_AccessControl_def
        RadixTree_Search_def InetToi_def Atoi_def ParseUint_def digit_value_def RadixTree_search_def
        search_loop.simps NewRadixTree_def nil_node_def child_def)
  show "DefaultRouter_Route [''/api'' \<mapsto> 0] (Path (demo_request\<lparr>RemoteAddr := ''x''\<rparr>)) = Some (0, ''/x'')"
    using demo_route by simp
qed (simp_all add: demo_served_def demo_gateway_def demo_proxy_def NewRoundRobin_def demo_world_def)

lemma ParseUint_loop_colon: "\<exists>e. ParseUint_loop 10 (xs @ CHR '':'' # ys) acc = Inl e"
  by (induction "10::int" xs acc rule: ParseUint_loop.induct)
    (auto simp: digit_value_def split: option.splits)

lemma InetToi_with_port:
  assumes "a < 256" "b < 256" "c < 256"
  shows "\<exists>e. InetToi (dotted a b c d @ CHR '':'' # Itoa port) = Ret (0, Some e)"
proof -
  have split: "Split (dotted a b c d @ CHR '':'' # Itoa port) CHR ''.''
      = [Itoa a, Itoa b, Itoa c, Itoa d @ CHR '':'' # Itoa port]"
    by (simp add: dotted_def Split_append Split_no_sep)
  obtain x xs where d: "Itoa d = x # xs" by (cases "Itoa d") auto
  then have "x \<noteq> CHR ''-''" "x \<noteq> CHR ''+''" using Itoa_no_sep(4,5) [of d] by auto
  then obtain e where "Atoi (Itoa d @ CHR '':'' # Itoa port) = Inl e"
    using ParseUint_loop_colon [of "x # xs" "Itoa port" 0] by (auto simp: Atoi_def d ParseUint_def)
  then show ?thesis using assms by (simp add: InetToi_def split)
qed

text \<open>The access control of \<open>HTTPProxy.ServeHTTP\<close> looks at no address: it is given
  address and port, whose last segment does not parse, so that every client is looked up as
  0.0.0.0.\<close>

theorem HTTPProxy_accessControl_blind:
  assumes "a < 256" "b < 256" "c < 256"
  shows "HTTPProxy_accessControl (dotted a b c d @ CHR '':'' # Itoa port) g
    = HTTPProxy_accessControl ''0.0.0.0'' g"
proof -
  have "dotted 0 0 0 0 = ''0.0.0.0''" by code_simp
  then have "InetToi ''0.0.0.0'' = Ret (0, None)"
    using InetToi_ipv4 [of 0 0 0 0] by (simp add: ipv4_def)
  then show ?thesis
    using InetToi_with_port [OF assms, of d port]
    by (auto simp: HTTPProxy_accessControl_def RadixTree_Search_def)
qed

theorem HTTPProxy_accessControl_blind_witness:
  "HTTPProxy_accessControl (dotted 10 0 0 7 @ CHR '':'' # Itoa 4711) demo_gateway
    = HTTPProxy_accessControl ''0.0.0.0'' demo_gateway"
  by (rule HTTPProxy_accessControl_blind) simp_all

end
