(* ===== verification/Replication.thy ===== *)
theory Replication
  imports Router
begin

text \<open>
  The replicated state machine of the package \<open>cheryl\<close>: log entries (\<open>log_entry.go\<close>), the
  \<open>FSM\<close> that applies them (\<open>fsm.go\<close>) and the snapshots it makes and restores
  (\<open>snapshot.go\<close>). JSON is a parameter: the record \<open>cluster_env\<close> holds an encoder and a
  decoder per message, next to the other things the operations take from outside. A log
  entry is two bytes of operation type, most significant first, and the message.
\<close>

type_synonym bytes = "u8 list"

definition bytes_of :: "string \<Rightarrow> bytes" where
  "bytes_of s = map of_char s"

definition string_of :: "bytes \<Rightarrow> string" where
  "string_of bs = map (\<lambda>b. char_of (unat b)) bs"

lemma unat_of_char: "unat (of_char c :: u8) = of_char c"
proof -
  have "unat (word_of_nat (of_char c) :: u8) = of_char c"
    using nat_of_char_less_256 [of c] by (simp add: unat_of_nat)
  then show ?thesis by (simp only: of_nat_of_char)
qed

lemma string_of_bytes_of [simp]: "string_of (bytes_of s) = s"
  by (induction s) (simp_all add: string_of_def bytes_of_def unat_of_char)

subsection \<open>Messages\<close>

record LogEntry =
  Opt :: u16
  Data :: bytes

record AclLog =
  acl_Pattern :: u8
  IpAddress :: string

record HostLog =
  host_Pattern :: string
  host_Host :: string

definition LogEntry_Encode :: "LogEntry \<Rightarrow> bytes" where
  "LogEntry_Encode l = put_uint16 (Opt l) @ Data l"

record snapshot =
  snap_Locations :: "string \<Rightarrow> Location option"
  snap_Limiters :: "string \<Rightarrow> LimiterInfo list option"
  snap_RouterType :: string
  snap_Record :: "string \<Rightarrow> bool option"

text \<open>\<open>iter\<close> gives the order in which the runtime meets the keys of a map.\<close>

record ('m, 'l) cluster_env =
  env_rate :: "('m, 'l) rate_pkg"
  env_parse :: "string \<Rightarrow> string + URL"
  env_replicas :: int
  iter :: "string set \<Rightarrow> string list"
  enc_location :: "Location \<Rightarrow> bytes"
  dec_location :: "bytes \<Rightarrow> string + Location"
  enc_limiter :: "LimiterInfo \<Rightarrow> bytes"
  dec_limiter :: "bytes \<Rightarrow> string + LimiterInfo"
  enc_acl :: "AclLog \<Rightarrow> bytes"
  dec_acl :: "bytes \<Rightarrow> string + AclLog"
  enc_host :: "HostLog \<Rightarrow> bytes"
  dec_host :: "bytes \<Rightarrow> string + HostLog"

datatype fsm_error =
    CantResolve string
  | HttpProxyNotExistsError
  | ProxyMapError proxy_error
  | AclError acl_error

type_synonym 'l fsm_result = "(fsm_error option \<times> 'l gateway) outcome"

subsection \<open>Applying log entries\<close>

definition FSM_doNewHttpProxy :: "('m, 'l) cluster_env \<Rightarrow> bytes \<Rightarrow> 'l gateway \<Rightarrow> 'l fsm_result" where
  "FSM_doNewHttpProxy env data g =
     (case dec_location env data of
        Inl err \<Rightarrow> Ret (Some (CantResolve err), g)
      | Inr l \<Rightarrow>
          if Relations (maps g (current g)) (l_Pattern l) \<noteq> None then Ret (None, g)
          else and_then (AddProxyWithLocation (env_parse env) (env_replicas env) (current g) l g)
                 (\<lambda>(err, g'). Ret (None, g')))"

definition FSM_doSetRateLimiter :: "('m, 'l) cluster_env \<Rightarrow> bytes \<Rightarrow> 'l gateway \<Rightarrow> 'l fsm_result" where
  "FSM_doSetRateLimiter env data g =
     (case dec_limiter env data of
        Inl err \<Rightarrow> Ret (Some (CantResolve err), g)
      | Inr info \<Rightarrow>
         (case Relations (maps g (current g)) (Prefix info) of
            None \<Rightarrow> Ret (Some HttpProxyNotExistsError, g)
          | Some p \<Rightarrow>
              and_then (SetRateLimiter (env_rate env) p info g)
                (\<lambda>(err, g'). Ret (map_option ProxyMapError err, g'))))"

definition FSM_doHandleAcl :: "('m, 'l) cluster_env \<Rightarrow> bytes \<Rightarrow> 'l gateway \<Rightarrow> 'l fsm_result" where
  "FSM_doHandleAcl env data g =
     (case dec_acl env data of
        Inl err \<Rightarrow> Ret (Some (CantResolve err), g)
      | Inr aclLog \<Rightarrow>
          if acl_Pattern aclLog = 0 then
            and_then (RadixTree_Delete (IpAddress aclLog) (black_list g))
              (\<lambda>(err, t). Ret (map_option AclError err, g\<lparr>black_list := t\<rparr>))
          else if acl_Pattern aclLog = 1 then
            and_then (RadixTree_Add (IpAddress aclLog) (IpAddress aclLog) (black_list g))
              (\<lambda>(err, t). Ret (map_option AclError err, g\<lparr>black_list := t\<rparr>))
          else Ret (None, g))"

definition remove_order :: "('m, 'l) cluster_env \<Rightarrow> string \<Rightarrow> 'l gateway \<Rightarrow> string list" where
  "remove_order env pattern g =
     (case Relations (maps g (current g)) pattern of
        None \<Rightarrow> [] | Some p \<Rightarrow> iter env (dom (HostsShutDown (proxies g p))))"

definition FSM_doRemoveProxy :: "('m, 'l) cluster_env \<Rightarrow> bytes \<Rightarrow> 'l gateway \<Rightarrow> 'l fsm_result" where
  "FSM_doRemoveProxy env data g =
     (let proxy = string_of data in
      and_then (RemoveProxy (current g) (remove_order env proxy g) proxy g)
        (\<lambda>(err, g'). Ret (map_option ProxyMapError err, g')))"

definition FSM_doRemoveHost :: "('m, 'l) cluster_env \<Rightarrow> bytes \<Rightarrow> 'l gateway \<Rightarrow> 'l fsm_result" where
  "FSM_doRemoveHost env data g =
     (case dec_host env data of
        Inl err \<Rightarrow> Ret (Some (CantResolve err), g)
      | Inr l \<Rightarrow>
          and_then (RemoveHost (current g) (host_Pattern l) (host_Host l) g)
            (\<lambda>(err, g'). Ret (map_option ProxyMapError err, g')))"

definition FSM_doAddHost :: "('m, 'l) cluster_env \<Rightarrow> bytes \<Rightarrow> 'l gateway \<Rightarrow> 'l fsm_result" where
  "FSM_doAddHost env data g =
     (case dec_host env data of
        Inl err \<Rightarrow> Ret (Some (CantResolve err), g)
      | Inr l \<Rightarrow>
          let (err, g') = AddProxy (env_parse env) (current g) (host_Pattern l) (host_Host l) g
          in Ret (map_option ProxyMapError err, g'))"

text \<open>\<open>binary.BigEndian.Uint16\<close> panics on fewer than two bytes.\<close>

fun FSM_Apply :: "('m, 'l) cluster_env \<Rightarrow> bytes \<Rightarrow> 'l gateway \<Rightarrow> 'l fsm_result" where
  "FSM_Apply env (b0 # b1 # data) g =
     (let optType = get_uint16 b0 b1 in
      if optType = 1 then FSM_doNewHttpProxy env data g
      else if optType = 2 then FSM_doSetRateLimiter env data g
      else if optType = 3 then FSM_doHandleAcl env data g
      else if optType = 4 then FSM_doRemoveProxy env data g
      else if optType = 5 then FSM_doRemoveHost env data g
      else if optType = 6 then FSM_doAddHost env data g
      else Ret (None, g))"
| "FSM_Apply env _ g = Panic IndexOutOfRange"

subsection \<open>Snapshots\<close>

text \<open>What the JSON of a snapshot holds: \<open>Relations\<close> is excluded by its tag, and of the tree
  only \<open>Record\<close> is exported.\<close>

definition FSM_Snapshot :: "'l gateway \<Rightarrow> snapshot" where
  "FSM_Snapshot g =
     \<lparr>snap_Locations = Locations (maps g (current g)),
      snap_Limiters = Limiters (maps g (current g)),
      snap_RouterType = RouterType (maps g (current g)),
      snap_Record = Record (black_list g)\<rparr>"

fun restore_locations ::
  "('m, 'l) cluster_env \<Rightarrow> map_ref \<Rightarrow> Location list \<Rightarrow> 'l gateway \<Rightarrow> 'l gateway outcome" where
  "restore_locations env m [] g = Ret g"
| "restore_locations env m (l # ls) g =
     and_then (AddProxyWithLocation (env_parse env) (env_replicas env) m l g) (\<lambda>(err, g').
       if err \<noteq> None then Exit else restore_locations env m ls g')"

definition restore_limiters ::
  "('m, 'l) cluster_env \<Rightarrow> map_ref \<Rightarrow> string list \<Rightarrow> 'l gateway \<Rightarrow> 'l gateway outcome" where
  "restore_limiters env m ks =
     fold_outcome (\<lambda>key g.
       case Relations (maps g m) key of
         None \<Rightarrow> Ret g
       | Some p \<Rightarrow>
           fold_outcome (\<lambda>info g. and_then (SetRateLimiter (env_rate env) p info g) (\<lambda>(err, g'). Ret g'))
             (case Limiters (maps g m) key of None \<Rightarrow> [] | Some infos \<Rightarrow> infos) g) ks"

definition restore_acl :: "string list \<Rightarrow> RadixTree outcome" where
  "restore_acl ks =
     fold_outcome (\<lambda>key t. and_then (RadixTree_Add key key t) (\<lambda>(err, t'). Ret t')) ks NewRadixTree"

definition map_values :: "('m, 'l) cluster_env \<Rightarrow> (string \<Rightarrow> 'v option) \<Rightarrow> 'v list" where
  "map_values env f = map (\<lambda>k. the (f k)) (iter env (dom f))"

definition FSM_Restore :: "('m, 'l) cluster_env \<Rightarrow> snapshot \<Rightarrow> 'l gateway \<Rightarrow> 'l gateway outcome" where
  "FSM_Restore env s g =
     (let m = next_map g;
          g1 = g\<lparr>maps := (maps g)(m := \<lparr>Relations = Map.empty, Locations = snap_Locations s,
                   Limiters = snap_Limiters s, RouterType = snap_RouterType s\<rparr>),
                 current := m, next_map := Suc m\<rparr>;
          g2 = GetRouterInstance (snap_RouterType s) g1
      in and_then (restore_locations env m (map_values env (snap_Locations s)) g2) (\<lambda>g3.
         and_then (restore_limiters env m (iter env (dom (Limiters (maps g3 m)))) g3) (\<lambda>g4.
         and_then (restore_acl (iter env (dom (snap_Record s)))) (\<lambda>t.
         Ret (g4\<lparr>black_list := t\<rparr>)))))"

text \<open>The raft library asks the snapshot to write itself to a sink, and gives the bytes back to
  \<open>Restore\<close>, where an error ends the process. What is done to the sink is recorded in order;
  \<open>write\<close> and \<open>close\<close> are the answers of the sink, \<open>enc\<close> and \<open>dec\<close> the JSON library.\<close>

datatype sink_action = SinkWrite bytes | SinkClose | SinkCancel

definition snapshot_Marshal :: "(snapshot \<Rightarrow> string + bytes) \<Rightarrow> snapshot \<Rightarrow> string + bytes" where
  "snapshot_Marshal enc s = enc s"

definition snapshot_UnMarshal :: "(bytes \<Rightarrow> string + snapshot) \<Rightarrow> bytes \<Rightarrow> string + snapshot" where
  "snapshot_UnMarshal dec serialized = dec serialized"

definition snapshot_Persist ::
  "(snapshot \<Rightarrow> string + bytes) \<Rightarrow> (bytes \<Rightarrow> string option) \<Rightarrow> string option \<Rightarrow> snapshot
   \<Rightarrow> string option \<times> sink_action list" where
  "snapshot_Persist enc write close s =
     (case snapshot_Marshal enc s of
        Inl err \<Rightarrow> (Some err, [SinkCancel])
      | Inr snapshotBytes \<Rightarrow>
         (case write snapshotBytes of
            Some err \<Rightarrow> (Some err, [SinkWrite snapshotBytes, SinkCancel])
          | None \<Rightarrow>
             (case close of
                Some err \<Rightarrow> (Some err, [SinkWrite snapshotBytes, SinkClose, SinkCancel])
              | None \<Rightarrow> (None, [SinkWrite snapshotBytes, SinkClose]))))"

definition FSM_Restore_stream ::
  "('m, 'l) cluster_env \<Rightarrow> (bytes \<Rightarrow> string + snapshot) \<Rightarrow> bytes \<Rightarrow> 'l gateway \<Rightarrow> 'l gateway outcome" where
  "FSM_Restore_stream env dec serialized g =
     (case snapshot_UnMarshal dec serialized of Inl err \<Rightarrow> Exit | Inr s \<Rightarrow> FSM_Restore env s g)"

text \<open>\<open>Decode\<close> of a log entry leaves it as it is; \<open>Apply\<close> takes the bytes apart itself.\<close>

definition LogEntry_Decode :: "bytes \<Rightarrow> LogEntry \<Rightarrow> string option \<times> LogEntry" where
  "LogEntry_Decode data l = (None, l)"

end
