(* ===== verification/JsValue.thy ===== *)
theory JsValue
  imports GoStd
begin

text \<open>
  The values that the server sends and the web interface reads: JSON, with the two values
  that only JavaScript has. Objects are lists of members, since their order can be seen.
\<close>

text \<open>What comes out of a JSON reply, with \<open>undefined\<close> and \<open>NaN\<close>. Numbers are whole here,
  as all numbers of the replies are.\<close>

datatype js =
    Undefined
  | Null
  | NotANumber
  | Boolean bool
  | Number int
  | String string
  | Array "js list"
  | Object "(string \<times> js) list"

text \<open>Reading a property: only \<open>undefined\<close> and \<open>null\<close> throw, which is \<open>None\<close>.\<close>

fun field :: "js \<Rightarrow> string \<Rightarrow> js option" where
  "field Undefined k = None"
| "field Null k = None"
| "field (Object kvs) k = Some (case map_of kvs k of None \<Rightarrow> Undefined | Some v \<Rightarrow> v)"
| "field (Array vs) k = Some (if k = ''length'' then Number (int (length vs)) else Undefined)"
| "field (String s) k = Some (if k = ''length'' then Number (int (length s)) else Undefined)"
| "field _ k = Some Undefined"

text \<open>\<open>v[i]\<close> for an index.\<close>

fun js_nth :: "js \<Rightarrow> nat \<Rightarrow> js" where
  "js_nth (Array vs) i = (if i < length vs then vs ! i else Undefined)"
| "js_nth (String s) i = (if i < length s then String [s ! i] else Undefined)"
| "js_nth (Object kvs) i = (case map_of kvs (Itoa i) of None \<Rightarrow> Undefined | Some v \<Rightarrow> v)"
| "js_nth _ i = Undefined"

text \<open>The string that \<open>+\<close> makes of a value next to a string.\<close>

fun comma :: "string list \<Rightarrow> string" where
  "comma [] = []"
| "comma [t] = t"
| "comma (t # ts) = t @ '','' @ comma ts"

fun js_text :: "js \<Rightarrow> string" where
  "js_text Undefined = ''undefined''"
| "js_text Null = ''null''"
| "js_text NotANumber = ''NaN''"
| "js_text (Boolean b) = (if b then ''true'' else ''false'')"
| "js_text (Number k) = (if k < 0 then CHR ''-'' # Itoa (nat (- k)) else Itoa (nat k))"
| "js_text (String s) = s"
| "js_text (Array vs) = comma (map (\<lambda>v. if v = Undefined \<or> v = Null then [] else js_text v) vs)"
| "js_text (Object kvs) = ''[object Object]''"

fun truthy :: "js \<Rightarrow> bool" where
  "truthy Undefined = False"
| "truthy Null = False"
| "truthy NotANumber = False"
| "truthy (Boolean b) = b"
| "truthy (Number k) = (k \<noteq> 0)"
| "truthy (String s) = (s \<noteq> [])"
| "truthy _ = True"

end
