(* ===== verification/Server.thy ===== *)
theory Server
  imports ReplicationInv JsValue
begin

text \<open>
  The management API of the package \<open>cheryl\<close> (\<open>http_server.go\<close>, \<open>R.go\<close>, \<open>state.go\<close>) and
  the part of \<open>raft.go\<close> and \<open>cluster.go\<close> that connects it with the replicated log. A node is
  its gateway, the flag that permits writes, the addresses that joined through it and the
  state of the raft library. That library is a parameter: \<open>raft_Apply\<close> says whether an
  entry is committed, and a committed entry has been applied to the node's own state machine
  when the call returns. JSON decoders of the requests and the texts of error messages are
  parameters too. A panic of a handler ends the request only; a panic of the state machine
  ends the process, as \<open>logger.Errorf\<close> does.
\<close>

subsection \<open>Responses\<close>

datatype api_error =
    NotAllowed
  | CantReceive string
  | CantFindHttpProxy string
  | CantApply string
  | CantSetLimiter proxy_error
  | NoSuchMethod
  | FromProxyMap proxy_error
  | FromAcl acl_error
  | PatternMustBeginWithSlash
  | NoProxyHosts

datatype R = R (Code: int) (Msg: string) (R_Data: "(string \<times> js) list")

definition Ok :: R where
  "Ok = R 200 ''success'' []"

definition R_Error :: "int \<Rightarrow> string \<Rightarrow> R" where
  "R_Error c m = R c m []"

definition Put :: "string \<Rightarrow> js \<Rightarrow> R \<Rightarrow> R" where
  "Put k v r = R (Code r) (Msg r) ((k, v) # filter (\<lambda>kv. fst kv \<noteq> k) (R_Data r))"

definition R_Marshal :: "R \<Rightarrow> js" where
  "R_Marshal r = Object [(''code'', Number (Code r)), (''msg'', String (Msg r)), (''data'', Object (R_Data r))]"

text \<open>What a handler writes: a marshalled \<open>R\<close>, other JSON, a text, or a status alone.\<close>

datatype api_response = Json js | Plain string | Status nat

subsection \<open>The node\<close>

record ('l, 'r) node =
  nd_gateway :: "'l gateway"
  enableWrite :: bool
  peer_addresses :: "string list"
  raft_state :: 'r

record ('m, 'l, 'r) server_env =
  cluster :: "('m, 'l) cluster_env"
  raft_Apply :: "'r \<Rightarrow> bytes \<Rightarrow> string option \<times> 'r"
  raft_AddVoter :: "'r \<Rightarrow> string \<Rightarrow> string \<Rightarrow> string option \<times> 'r"
  raft_Leader :: "'r \<Rightarrow> string"
  raft_Servers :: "'r \<Rightarrow> (string \<times> string) list"
  dec_pattern :: "bytes \<Rightarrow> string + string"
  dec_method :: "bytes \<Rightarrow> string + (string \<times> string)"
  dec_change :: "bytes \<Rightarrow> string + (string \<times> string)"
  error_text :: "api_error \<Rightarrow> string"

type_synonym ('l, 'r) handled = "(api_response \<times> ('l, 'r) node) outcome"

definition fail :: "('m, 'l, 'r) server_env \<Rightarrow> int \<Rightarrow> api_error \<Rightarrow> api_response" where
  "fail env c e = Json (R_Marshal (R_Error c (error_text env e)))"

definition ok :: api_response where
  "ok = Json (R_Marshal Ok)"

definition own_proxy :: "string \<Rightarrow> ('l, 'r) node \<Rightarrow> proxy_ref option" where
  "own_proxy pattern nd = Relations (maps (nd_gateway nd) (current (nd_gateway nd))) pattern"

subsection \<open>The log\<close>

text \<open>A panic in the goroutine of the state machine is a crash.\<close>

fun crash :: "'a outcome \<Rightarrow> 'a outcome" where
  "crash (Panic p) = Exit"
| "crash m = m"

definition writeLogEntry ::
  "('m, 'l, 'r) server_env \<Rightarrow> u16 \<Rightarrow> bytes \<Rightarrow> ('l, 'r) node \<Rightarrow> (string option \<times> ('l, 'r) node) outcome" where
  "writeLogEntry env optType data nd =
     (let eventBytes = LogEntry_Encode \<lparr>Opt = optType, Data = data\<rparr>;
          (err, r') = raft_Apply env (raft_state nd) eventBytes
      in case err of
           Some e \<Rightarrow> Ret (Some e, nd\<lparr>raft_state := r'\<rparr>)
         | None \<Rightarrow>
             and_then (crash (FSM_Apply (cluster env) eventBytes (nd_gateway nd))) (\<lambda>(ret, g').
               Ret (None, nd\<lparr>nd_gateway := g', raft_state := r'\<rparr>)))"

text \<open>The end that most handlers share: the entry is written, and an error is reported.\<close>

definition log_and_answer ::
  "('m, 'l, 'r) server_env \<Rightarrow> u16 \<Rightarrow> bytes \<Rightarrow> ('l, 'r) node \<Rightarrow> ('l, 'r) handled" where
  "log_and_answer env optType data nd =
     and_then (writeLogEntry env optType data nd) (\<lambda>(err, nd').
       case err of
         Some e \<Rightarrow> Ret (fail env 500 (CantApply e), nd')
       | None \<Rightarrow> Ret (ok, nd'))"

definition set_gateway :: "'l gateway \<Rightarrow> ('l, 'r) node \<Rightarrow> ('l, 'r) node" where
  "set_gateway g nd = nd\<lparr>nd_gateway := g\<rparr>"

subsection \<open>Permission\<close>

definition checkWritePermission :: "('l, 'r) node \<Rightarrow> bool" where
  "checkWritePermission nd = enableWrite nd"

definition SetWriteFlag :: "bool \<Rightarrow> ('l, 'r) node \<Rightarrow> ('l, 'r) node" where
  "SetWriteFlag flag nd = nd\<lparr>enableWrite := flag\<rparr>"

subsection \<open>Handlers that write\<close>

text \<open>The limiter is set by the state machine first and then by the handler itself.\<close>

definition doSetRateLimiter ::
  "('m, 'l, 'r) server_env \<Rightarrow> bytes \<Rightarrow> ('l, 'r) node \<Rightarrow> ('l, 'r) handled" where
  "doSetRateLimiter env req_body nd =
     (if \<not> checkWritePermission nd then Ret (fail env 500 NotAllowed, nd)
      else (case dec_limiter (cluster env) req_body of
        Inl e \<Rightarrow> Ret (fail env 500 (CantReceive e), nd)
      | Inr info \<Rightarrow>
         (case own_proxy (Prefix info) nd of
            None \<Rightarrow> Ret (fail env 500 (CantFindHttpProxy (Prefix info)), nd)
          | Some p \<Rightarrow>
              and_then (writeLogEntry env 2 (enc_limiter (cluster env) info) nd) (\<lambda>(err, nd).
              case err of
                Some e \<Rightarrow> Ret (fail env 500 (CantApply e), nd)
              | None \<Rightarrow>
                  and_then (SetRateLimiter (env_rate (cluster env)) p info (nd_gateway nd)) (\<lambda>(err, g).
                  case err of
                    Some e \<Rightarrow> Ret (fail env 500 (CantSetLimiter e), set_gateway g nd)
                  | None \<Rightarrow> Ret (ok, set_gateway g nd))))))"

text \<open>\<open>pattern[0]\<close> panics on an empty pattern.\<close>

definition validLocation :: "Location \<Rightarrow> api_error option outcome" where
  "validLocation l =
     (case l_Pattern l of
        [] \<Rightarrow> Panic IndexOutOfRange
      | c # _ \<Rightarrow>
          if c \<noteq> CHR ''/'' then Ret (Some PatternMustBeginWithSlash)
          else if length (ProxyPass l) = 0 then Ret (Some NoProxyHosts)
          else Ret None)"

text \<open>A location that cannot be built ends the process; a log error is only logged.\<close>

definition createProxyWithLocation ::
  "('m, 'l, 'r) server_env \<Rightarrow> Location \<Rightarrow> ('l, 'r) node \<Rightarrow> ('l, 'r) node outcome" where
  "createProxyWithLocation env l nd =
     (let g = nd_gateway nd in
      and_then (AddProxyWithLocation (env_parse (cluster env)) (env_replicas (cluster env)) (current g) l g)
        (\<lambda>(err, g').
          if err \<noteq> None then Exit
          else and_then (writeLogEntry env 1 (enc_location (cluster env) l) (set_gateway g' nd))
                 (\<lambda>(err, nd'). Ret nd')))"

definition doAddProxy ::
  "('m, 'l, 'r) server_env \<Rightarrow> bytes \<Rightarrow> ('l, 'r) node \<Rightarrow> ('l, 'r) handled" where
  "doAddProxy env req_body nd =
     (if \<not> checkWritePermission nd then Ret (fail env 500 NotAllowed, nd)
      else (case dec_location (cluster env) req_body of
        Inl e \<Rightarrow> Ret (fail env 500 (CantReceive e), nd)
      | Inr location \<Rightarrow>
          and_then (validLocation location) (\<lambda>err.
          case err of
            Some e \<Rightarrow> Ret (fail env 500 e, nd)
          | None \<Rightarrow> and_then (createProxyWithLocation env location nd) (\<lambda>nd'. Ret (ok, nd')))))"

definition doAddHost ::
  "('m, 'l, 'r) server_env \<Rightarrow> bytes \<Rightarrow> ('l, 'r) node \<Rightarrow> ('l, 'r) handled" where
  "doAddHost env req_body nd =
     (case dec_host (cluster env) req_body of
        Inl e \<Rightarrow> Ret (fail env 500 (CantReceive e), nd)
      | Inr req \<Rightarrow>
          let g = nd_gateway nd;
              (err, g') = AddProxy (env_parse (cluster env)) (current g) (host_Pattern req) (host_Host req) g
          in case err of
               Some e \<Rightarrow> Ret (fail env 500 (FromProxyMap e), set_gateway g' nd)
             | None \<Rightarrow> log_and_answer env 6 (enc_host (cluster env) req) (set_gateway g' nd))"

definition doHandleAcl ::
  "('m, 'l, 'r) server_env \<Rightarrow> bytes \<Rightarrow> ('l, 'r) node \<Rightarrow> ('l, 'r) handled" where
  "doHandleAcl env req_body nd =
     (if \<not> checkWritePermission nd then Ret (fail env 500 NotAllowed, nd)
      else (case dec_acl (cluster env) req_body of
        Inl e \<Rightarrow> Ret (Status 400, nd)
      | Inr req \<Rightarrow>
          let t = black_list (nd_gateway nd) in
          and_then (if acl_Pattern req = 0 then RadixTree_Delete (IpAddress req) t
                    else RadixTree_Add (IpAddress req) (IpAddress req) t) (\<lambda>(err, t').
          let nd' = set_gateway ((nd_gateway nd)\<lparr>black_list := t'\<rparr>) nd in
          case err of
            Some e \<Rightarrow> Ret (fail env 500 (FromAcl e), nd')
          | None \<Rightarrow> log_and_answer env 3 (enc_acl (cluster env) req) nd')))"

definition doRemoveProxy ::
  "('m, 'l, 'r) server_env \<Rightarrow> bytes \<Rightarrow> ('l, 'r) node \<Rightarrow> ('l, 'r) handled" where
  "doRemoveProxy env req_body nd =
     (case dec_pattern env req_body of
        Inl e \<Rightarrow> Ret (fail env 500 (CantReceive e), nd)
      | Inr pattern \<Rightarrow>
          let g = nd_gateway nd in
          and_then (RemoveProxy (current g) (remove_order (cluster env) pattern g) pattern g) (\<lambda>(err, g').
          case err of
            Some e \<Rightarrow> Ret (fail env 500 (FromProxyMap e), set_gateway g' nd)
          | None \<Rightarrow> log_and_answer env 4 (bytes_of pattern) (set_gateway g' nd)))"

definition doRemoveHost ::
  "('m, 'l, 'r) server_env \<Rightarrow> bytes \<Rightarrow> ('l, 'r) node \<Rightarrow> ('l, 'r) handled" where
  "doRemoveHost env req_body nd =
     (case dec_host (cluster env) req_body of
        Inl e \<Rightarrow> Ret (fail env 500 (CantReceive e), nd)
      | Inr req \<Rightarrow>
          let g = nd_gateway nd in
          and_then (RemoveHost (current g) (host_Pattern req) (host_Host req) g) (\<lambda>(err, g').
          case err of
            Some e \<Rightarrow> Ret (fail env 500 (FromProxyMap e), set_gateway g' nd)
          | None \<Rightarrow> log_and_answer env 5 (enc_host (cluster env) req) (set_gateway g' nd)))"

text \<open>An unknown prefix reads a \<open>nil\<close> proxy.\<close>

definition doChangeLb ::
  "('m, 'l, 'r) server_env \<Rightarrow> bytes \<Rightarrow> ('l, 'r) node \<Rightarrow> ('l, 'r) handled" where
  "doChangeLb env req_body nd =
     (case dec_change env req_body of
        Inl e \<Rightarrow> Ret (fail env 500 (CantReceive e), nd)
      | Inr (pre, mode) \<Rightarrow>
         (case own_proxy pre nd of
            None \<Rightarrow> Panic NilDereference
          | Some p \<Rightarrow>
              let g = nd_gateway nd;
                  (err, g') = ChangeLb (env_replicas (cluster env))
                    (iter (cluster env) (dom (HostMap (proxies g p)))) p mode g
              in case err of
                   Some e \<Rightarrow> Ret (fail env 500 (FromProxyMap e), set_gateway g' nd)
                 | None \<Rightarrow> Ret (ok, set_gateway g' nd)))"

subsection \<open>Handlers that read\<close>

definition doPing :: "('l, 'r) node \<Rightarrow> ('l, 'r) handled" where
  "doPing nd = Ret (Plain ''pong'', nd)"

definition doGetMethods :: "('m, 'l, 'r) server_env \<Rightarrow> ('l, 'r) node \<Rightarrow> ('l, 'r) handled" where
  "doGetMethods env nd =
     (let g = nd_gateway nd; relation = Relations (maps g (current g)); it = iter (cluster env) in
      Ret (Json (Array (map (\<lambda>pre. Object
             [(''prefix'', String pre),
              (''methodsPath'', Array (map String (it (dom (Methods (proxies g (the (relation pre))))))))])
             (it (dom relation)))), nd))"

definition doGetProxy :: "('m, 'l, 'r) server_env \<Rightarrow> ('l, 'r) node \<Rightarrow> ('l, 'r) handled" where
  "doGetProxy env nd =
     (let g = nd_gateway nd; relation = Relations (maps g (current g)); it = iter (cluster env) in
      Ret (Json (R_Marshal (Put ''data'' (Object (map (\<lambda>k.
             let v = proxies g (the (relation k)) in
             (k, Object [(''balancerMode'', String (Balancer_Mode (Lb v))),
                         (''hosts'', Array (map (\<lambda>h. Object [(''host'', String h),
                             (''alive'', Boolean (ReadAlive v h))]) (it (dom (HostMap v)))))]))
             (it (dom relation)))) Ok)), nd))"

text \<open>Every limiter in use is a \<open>QpsRateLimiter\<close>; an unknown pattern reads a \<open>nil\<close> proxy.\<close>

definition doGetMehtodLimiter ::
  "('m, 'l, 'r) server_env \<Rightarrow> bytes \<Rightarrow> ('l, 'r) node \<Rightarrow> ('l, 'r) handled" where
  "doGetMehtodLimiter env req_body nd =
     (case dec_method env req_body of
        Inl e \<Rightarrow> Ret (fail env 500 (CantReceive e), nd)
      | Inr (pattern, meth) \<Rightarrow>
         (case own_proxy pattern nd of
            None \<Rightarrow> Panic NilDereference
          | Some p \<Rightarrow>
             (case Methods (proxies (nd_gateway nd) p) meth of
                None \<Rightarrow> Ret (fail env 404 NoSuchMethod, nd)
              | Some limiter \<Rightarrow>
                  Ret (Json (R_Marshal (Put ''method'' (Object
                    [(''type'', String ''qps''),
                     (''speed'', Number (Qps_GetSpeed (env_rate (cluster env)) limiter)),
                     (''volumn'', Number (Qps_GetVolumn (env_rate (cluster env)) limiter)),
                     (''timeout'', Number (Qps_GetTimeout limiter))]) Ok)), nd))))"

definition doGetAccessControlList :: "('m, 'l, 'r) server_env \<Rightarrow> ('l, 'r) node \<Rightarrow> ('l, 'r) handled" where
  "doGetAccessControlList env nd =
     Ret (Json (R_Marshal (Put ''list''
       (Array (map String (iter (cluster env) (dom (Record (black_list (nd_gateway nd))))))) Ok)), nd)"

definition doGetRateLimiterType :: "('m, 'l, 'r) server_env \<Rightarrow> ('l, 'r) node \<Rightarrow> ('l, 'r) handled" where
  "doGetRateLimiterType env nd =
     Ret (Json (R_Marshal (Put ''list''
       (Array (map String (iter (cluster env) (dom (rateLimiterFactories (env_rate (cluster env))))))) Ok)), nd)"

definition doGetBalancerMode :: "('m, 'l, 'r) server_env \<Rightarrow> ('l, 'r) node \<Rightarrow> ('l, 'r) handled" where
  "doGetBalancerMode env nd =
     Ret (Json (R_Marshal (Put ''mode''
       (Array (map String (iter (cluster env) (dom (factories (env_replicas (cluster env))))))) Ok)), nd)"

definition doGetRaftClusterInfo :: "('m, 'l, 'r) server_env \<Rightarrow> ('l, 'r) node \<Rightarrow> ('l, 'r) handled" where
  "doGetRaftClusterInfo env nd =
     (let leader = raft_Leader env (raft_state nd) in
      Ret (Json (R_Marshal (Put ''data'' (Array (map (\<lambda>(ident, addr). Object
             [(''serverId'', String ident), (''serverAddress'', String addr),
              (''isLeader'', Boolean (addr = leader))])
             (raft_Servers env (raft_state nd)))) Ok)), nd))"

definition doGetInfo ::
  "('m, 'l, 'r) server_env \<Rightarrow> CherylConfig \<Rightarrow> ('l, 'r) node \<Rightarrow> ('l, 'r) handled" where
  "doGetInfo env conf nd =
     Ret (Json (R_Marshal (Put ''info'' (Object
       [(''name'', String (Name conf)), (''raftAddress'', String (RaftTCPAddress conf)),
        (''isLeader'', Boolean (RaftTCPAddress conf = raft_Leader env (raft_state nd))),
        (''proxyPort'', Number (Port_cfg conf))]) Ok)), nd)"

subsection \<open>Joining the cluster\<close>

text \<open>The texts of the two errors are never compared with anything but \<open>ok\<close>.\<close>

definition doJoin ::
  "('m, 'l, 'r) server_env \<Rightarrow> string \<Rightarrow> string \<Rightarrow> ('l, 'r) node \<Rightarrow> ('l, 'r) handled" where
  "doJoin env peerAddress name nd =
     (if peerAddress = [] then Ret (Plain ''doJoin: invaild peerAddress'', nd)
      else
        (let (err, r') = raft_AddVoter env (raft_state nd) name peerAddress in
         case err of
           Some e \<Rightarrow> Ret (Plain (''Error joining peer to raft, peeraddress:'' @ peerAddress @ '', err:'' @ e @ '', code:500''),
                        nd\<lparr>raft_state := r'\<rparr>)
         | None \<Rightarrow> Ret (Plain ''ok'', nd\<lparr>raft_state := r', peer_addresses := peer_addresses nd @ [peerAddress]\<rparr>)))"

datatype join_error = JoinRequestFailed string | JoinClusterFail

text \<open>\<open>http_get\<close> is the client of the standard library together with the network.\<close>

definition join_url :: "CherylConfig \<Rightarrow> string" where
  "join_url conf = ''http://'' @ LeaderAddress conf @ ''/join?peerAddress='' @ RaftTCPAddress conf
     @ ''&name='' @ Name conf"

definition joinRaftCluster :: "(string \<Rightarrow> string + string) \<Rightarrow> CherylConfig \<Rightarrow> join_error option" where
  "joinRaftCluster http_get conf =
     (case http_get (join_url conf) of
        Inl e \<Rightarrow> Some (JoinRequestFailed e)
      | Inr answer \<Rightarrow> if answer \<noteq> ''ok'' then Some JoinClusterFail else None)"

subsection \<open>Elections\<close>

definition createProxy ::
  "('m, 'l, 'r) server_env \<Rightarrow> CherylConfig \<Rightarrow> ('l, 'r) node \<Rightarrow> ('l, 'r) node outcome" where
  "createProxy env conf = fold_outcome (createProxyWithLocation env) (Locations_cfg conf)"

text \<open>One round of the loop over the notifications of the raft library. \<open>init\<close> tells whether
  the data directory was there when the process started.\<close>

definition leader_notified ::
  "('m, 'l, 'r) server_env \<Rightarrow> CherylConfig \<Rightarrow> bool \<Rightarrow> bool \<Rightarrow> ('l, 'r) node \<Rightarrow> ('l, 'r) node outcome" where
  "leader_notified env conf init leader nd =
     (if leader \<or> IsLeader conf then
        and_then (if \<not> init then createProxy env conf nd else Ret nd) (\<lambda>nd'. Ret (SetWriteFlag True nd'))
      else Ret (SetWriteFlag False nd))"

subsection \<open>The multiplexer\<close>

text \<open>\<open>newHttpServer\<close> registers one handler per path; every other path is a file.\<close>

record http_call =
  call_path :: string
  call_body :: bytes
  call_query :: "string \<Rightarrow> string"

definition serve_api ::
  "('m, 'l, 'r) server_env \<Rightarrow> CherylConfig \<Rightarrow> (string \<Rightarrow> api_response) \<Rightarrow> http_call \<Rightarrow> ('l, 'r) node \<Rightarrow> ('l, 'r) handled" where
  "serve_api env conf file r nd =
     (let p = call_path r; b = call_body r in
      if p = ''/ping'' then doPing nd
      else if p = ''/join'' then doJoin env (call_query r ''peerAddress'') (call_query r ''name'') nd
      else if p = ''/methods'' then doGetMethods env nd
      else if p = ''/limiter'' then doSetRateLimiter env b nd
      else if p = ''/peers'' then doGetRaftClusterInfo env nd
      else if p = ''/info'' then doGetInfo env conf nd
      else if p = ''/proxy'' then doGetProxy env nd
      else if p = ''/methodInfo'' then doGetMehtodLimiter env b nd
      else if p = ''/addProxy'' then doAddProxy env b nd
      else if p = ''/addHost'' then doAddHost env b nd
      else if p = ''/acl'' then doHandleAcl env b nd
      else if p = ''/getAcl'' then doGetAccessControlList env nd
      else if p = ''/getRateLimiterType'' then doGetRateLimiterType env nd
      else if p = ''/removeProxy'' then doRemoveProxy env b nd
      else if p = ''/removeHost'' then doRemoveHost env b nd
      else if p = ''/balancerMode'' then doGetBalancerMode env nd
      else if p = ''/changeLb'' then doChangeLb env b nd
      else Ret (file p, nd))"

end
