(* ===== verification/ServerInv.thy ===== *)
theory ServerInv
  imports Server Acl
begin

text \<open>
  What every handler of the management API keeps. \<open>fine\<close> says that a handler does not hang and
  leaves a node whose registered proxies still have their goroutines waiting; the lemmas show
  it of each handler, and \<open>serve_api_fine\<close> of the multiplexer.
\<close>

subsection \<open>Sharing the end of the handlers\<close>

lemma crash_eq_Ret [simp]: "crash m = Ret x \<longleftrightarrow> m = Ret x"
  by (cases m) simp_all

lemma crash_eq_Stuck [simp]: "crash m = Stuck \<longleftrightarrow> m = Stuck"
  by (cases m) simp_all

lemma set_gateway_simps [simp]:
  "nd_gateway (set_gateway g nd) = g" "enableWrite (set_gateway g nd) = enableWrite nd"
  "raft_state (set_gateway g nd) = raft_state nd" "peer_addresses (set_gateway g nd) = peer_addresses nd"
  by (simp_all add: set_gateway_def)

definition watched_node :: "('l, 'r) node \<Rightarrow> bool" where
  "watched_node nd \<longleftrightarrow> watched (nd_gateway nd)"

text \<open>A result that does not hang and keeps the invariant.\<close>

definition fine :: "('a \<times> ('l, 'r) node) outcome \<Rightarrow> bool" where
  "fine m \<longleftrightarrow> m \<noteq> Stuck \<and> (\<forall>a nd. m = Ret (a, nd) \<longrightarrow> watched_node nd)"

lemma fine_simps [simp]:
  "fine (Ret (a, nd)) \<longleftrightarrow> watched_node nd" "fine (Panic p)" "fine Exit" "\<not> fine Stuck"
  by (simp_all add: fine_def)

lemma fine_bind:
  "m \<noteq> Stuck \<Longrightarrow> (\<And>x. m = Ret x \<Longrightarrow> fine (f x)) \<Longrightarrow> fine (and_then m f)"
  by (cases m) simp_all

lemma writeLogEntry_fine:
  assumes "watched_node nd" and "optType \<noteq> 3"
  shows "fine (writeLogEntry env optType data nd)"
proof -
  let ?e = "LogEntry_Encode \<lparr>Opt = optType, Data = data\<rparr>"
  have apply_ok: "FSM_Apply (cluster env) ?e (nd_gateway nd) \<noteq> Stuck
      \<and> (\<forall>err g'. FSM_Apply (cluster env) ?e (nd_gateway nd) = Ret (err, g') \<longrightarrow> watched g')"
    using assms by (intro FSM_Apply_watched) (simp_all add: watched_node_def)
  obtain err r' where r: "raft_Apply env (raft_state nd) ?e = (err, r')" by (cases "raft_Apply env (raft_state nd) ?e")
  show ?thesis
  proof (cases err)
    case (Some e)
    then show ?thesis using assms(1) by (simp add: writeLogEntry_def r watched_node_def)
  next
    case None
    then show ?thesis
      using apply_ok by (auto simp: writeLogEntry_def r watched_node_def intro!: fine_bind)
  qed
qed

lemma writeLogEntry_watched:
  assumes "watched_node nd" and "optType \<noteq> 3"
  shows "writeLogEntry env optType data nd \<noteq> Stuck"
    and "writeLogEntry env optType data nd = Ret (err, nd') \<Longrightarrow> watched_node nd'"
  using writeLogEntry_fine [OF assms, of env data] by (auto simp: fine_def)

lemma log_and_answer_fine:
  "watched_node nd \<Longrightarrow> optType \<noteq> 3 \<Longrightarrow> fine (log_and_answer env optType data nd)"
  using writeLogEntry_fine [of nd optType env data]
  by (auto simp: log_and_answer_def fine_def and_then_eq_Ret and_then_Stuck split: option.splits)

lemma watched_node_set [simp]: "watched_node (set_gateway g nd) \<longleftrightarrow> watched g"
  by (simp add: watched_node_def)

lemma log_and_answer_set [simp]:
  "watched g \<Longrightarrow> optType \<noteq> 3 \<Longrightarrow> fine (log_and_answer env optType data (set_gateway g nd))"
  by (rule log_and_answer_fine) simp_all

lemma createProxyWithLocation_cases:
  assumes "watched_node nd"
  shows "createProxyWithLocation env l nd \<noteq> Stuck
    \<and> (\<forall>nd'. createProxyWithLocation env l nd = Ret nd' \<longrightarrow> watched_node nd')"
proof -
  let ?g = "nd_gateway nd"
  let ?add = "AddProxyWithLocation (env_parse (cluster env)) (env_replicas (cluster env)) (current ?g) l ?g"
  have "watched g'" if "?add = Ret (err, g')" for err g'
    using AddProxyWithLocation_watched [OF that] assms by (simp add: watched_node_def)
  moreover have "fine (writeLogEntry env 1 data (set_gateway g' nd))" if "watched g'" for g' data
    using that by (intro writeLogEntry_fine) simp_all
  ultimately show ?thesis
    by (auto simp: createProxyWithLocation_def Let_def and_then_eq_Ret and_then_Stuck
        AddProxyWithLocation_not_Stuck fine_def split: if_splits)
qed

subsection \<open>Each handler\<close>

lemma doAddProxy_fine: "watched_node nd \<Longrightarrow> fine (doAddProxy env b nd)"
  using createProxyWithLocation_cases [of nd env]
  by (auto simp: doAddProxy_def validLocation_def split: sum.splits list.splits intro!: fine_bind)

lemma SetRateLimiter_fine:
  assumes "watched_node nd"
  shows "fine (and_then (SetRateLimiter rt p info (nd_gateway nd)) (\<lambda>(err, g).
     case err of Some e \<Rightarrow> Ret (f e, set_gateway g nd) | None \<Rightarrow> Ret (y, set_gateway g nd)))"
  using assms SetRateLimiter_watched
  by (auto simp: SetRateLimiter_not_Stuck watched_node_def split: option.splits intro!: fine_bind)

lemma doSetRateLimiter_fine:
  assumes "watched_node nd"
  shows "fine (doSetRateLimiter env b nd)"
proof -
  have log: "fine (and_then (writeLogEntry env 2 data nd) (\<lambda>(err, nd). case err of Some e \<Rightarrow> Ret (f e, nd)
      | None \<Rightarrow> and_then (SetRateLimiter rt p info (nd_gateway nd)) (\<lambda>(err, g).
          case err of Some e \<Rightarrow> Ret (h e, set_gateway g nd) | None \<Rightarrow> Ret (y, set_gateway g nd))))" for data f rt p info h y
    using writeLogEntry_watched [OF assms, of 2 env data]
    by (auto intro!: fine_bind SetRateLimiter_fine split: option.splits)
  show ?thesis
    using assms by (simp add: doSetRateLimiter_def log split: sum.split option.split)
qed

lemma doAddHost_fine: "watched_node nd \<Longrightarrow> fine (doAddHost env b nd)"
  using AddProxy_watched [of "nd_gateway nd"]
  by (auto simp: doAddHost_def Let_def watched_node_def split: sum.splits prod.splits option.splits)

lemma doRemoveProxy_fine: "watched_node nd \<Longrightarrow> fine (doRemoveProxy env b nd)"
  using RemoveProxy_watched [of "nd_gateway nd"]
  by (auto simp: doRemoveProxy_def Let_def watched_node_def split: sum.splits option.splits intro!: fine_bind)

lemma doRemoveHost_fine: "watched_node nd \<Longrightarrow> fine (doRemoveHost env b nd)"
  using RemoveHost_watched [of "nd_gateway nd"]
  by (auto simp: doRemoveHost_def Let_def watched_node_def split: sum.splits option.splits intro!: fine_bind)

lemma ChangeLb_watched: "watched g \<Longrightarrow> ChangeLb n ks p mode g = (err, g') \<Longrightarrow> watched g'"
  by (auto simp: ChangeLb_def upd_proxy_def watched_def Let_def split: sum.splits)

lemma doChangeLb_fine: "watched_node nd \<Longrightarrow> fine (doChangeLb env b nd)"
  using ChangeLb_watched [of "nd_gateway nd"]
  by (auto simp: doChangeLb_def Let_def watched_node_def split: sum.splits prod.splits option.splits)

lemma doJoin_fine: "watched_node nd \<Longrightarrow> fine (doJoin env peer n nd)"
  by (auto simp: doJoin_def watched_node_def split: prod.splits option.splits)

lemma reading_fine:
  "watched_node nd \<Longrightarrow> fine (doPing nd)" "watched_node nd \<Longrightarrow> fine (doGetMethods env nd)"
  "watched_node nd \<Longrightarrow> fine (doGetProxy env nd)" "watched_node nd \<Longrightarrow> fine (doGetMehtodLimiter env b nd)"
  "watched_node nd \<Longrightarrow> fine (doGetAccessControlList env nd)" "watched_node nd \<Longrightarrow> fine (doGetRateLimiterType env nd)"
  "watched_node nd \<Longrightarrow> fine (doGetBalancerMode env nd)" "watched_node nd \<Longrightarrow> fine (doGetRaftClusterInfo env nd)"
  "watched_node nd \<Longrightarrow> fine (doGetInfo env conf nd)"
  by (simp_all add: doPing_def doGetMethods_def doGetProxy_def doGetAccessControlList_def doGetRateLimiterType_def
      doGetBalancerMode_def doGetRaftClusterInfo_def doGetInfo_def Let_def)
    (simp add: doGetMehtodLimiter_def split: sum.splits prod.splits option.splits)

lemmas handlers_fine = doAddProxy_fine doSetRateLimiter_fine doAddHost_fine doRemoveProxy_fine doRemoveHost_fine
  doChangeLb_fine doJoin_fine reading_fine

lemma serve_api_fine:
  assumes "watched (nd_gateway nd)" and "call_path r \<noteq> ''/acl''"
  shows "fine (serve_api env conf file r nd)"
  using assms by (simp add: serve_api_def Let_def handlers_fine watched_node_def)

end
