(* ===== verification/Restore.thy ===== *)
theory Restore
  imports ReplicationInv AclReuse
begin

text \<open>
  Restoring a snapshot (\<open>FSM.Restore\<close>): the proxies are made again from the locations, the
  limiters are set again and the black list is filled from its key set. \<open>registered\<close> is the
  invariant of the loop over the locations, \<open>limiters_again\<close> says what the loop over the
  limiters does to the records it reads. The properties compare the restored state with the
  one the snapshot was taken from.
\<close>

definition iter_ok :: "('m, 'l) cluster_env \<Rightarrow> string set \<Rightarrow> bool" where
  "iter_ok env S \<longleftrightarrow> distinct (iter env S) \<and> set (iter env S) = S"

definition location_ok :: "('m, 'l) cluster_env \<Rightarrow> Location \<Rightarrow> bool" where
  "location_ok env l \<longleftrightarrow> (\<forall>t \<in> set (ProxyPass l). \<exists>u. env_parse env t = Inr u)
     \<and> BalanceMode l \<in> {''round-robin'', ''consistence-hash''}"

definition registered :: "map_ref \<Rightarrow> 'l gateway \<Rightarrow> bool" where
  "registered m g \<longleftrightarrow> (\<forall>k p. Relations (maps g m) k = Some p \<longrightarrow>
      p < next_proxy g \<and> Pattern (proxies g p) = k \<and> Owner (proxies g p) = Some m)"

subsection \<open>The loop over the locations\<close>

lemma NewHTTPProxy_ok:
  assumes "location_ok env l"
  shows "\<exists>g'. NewHTTPProxy (env_parse env) n (l_Pattern l) (ProxyPass l) (BalanceMode l) g = Inr (next_proxy g, g')
    \<and> maps g' = maps g \<and> current g' = current g \<and> router g' = router g \<and> next_proxy g' = Suc (next_proxy g)
    \<and> Pattern (proxies g' (next_proxy g)) = l_Pattern l
    \<and> (\<forall>q. q \<noteq> next_proxy g \<longrightarrow> proxies g' q = proxies g q)"
proof -
  let ?parts = "\<lparr>part_map = Map.empty, part_alive = Map.empty, part_shutdown = Map.empty, part_hosts = [],
      part_chan = next_chan g\<rparr>"
  obtain url where url: "\<And>t. t \<in> set (ProxyPass l) \<Longrightarrow> env_parse env t = Inr (url t)"
    using assms unfolding location_ok_def by metis
  obtain r where r: "target_loop (env_parse env) (ProxyPass l) ?parts = Inr r"
    using target_loop_ok [of "ProxyPass l" "env_parse env" url ?parts] url by blast
  obtain b where "Build n (BalanceMode l) (part_hosts r) = Inr b"
    using assms by (auto simp: location_ok_def Build_def factories_def)
  with r show ?thesis by (simp add: NewHTTPProxy_def Let_def)
qed

lemma AddProxyWithLocation_ok:
  assumes "location_ok env l" "router g = Some routes" "registered m g"
  shows "\<exists>g'. AddProxyWithLocation (env_parse env) n m l g = Ret (None, g') \<and> registered m g'
    \<and> Relations (maps g' m) = (Relations (maps g m))(l_Pattern l \<mapsto> next_proxy g)
    \<and> Limiters (maps g' m) = Limiters (maps g m)
    \<and> router g' = Some (routes(l_Pattern l \<mapsto> next_proxy g)) \<and> current g' = current g"
proof -
  obtain g1 where new: "NewHTTPProxy (env_parse env) n (l_Pattern l) (ProxyPass l) (BalanceMode l) g = Inr (next_proxy g, g1)"
    and g1: "maps g1 = maps g" "current g1 = current g" "router g1 = router g" "next_proxy g1 = Suc (next_proxy g)"
      "Pattern (proxies g1 (next_proxy g)) = l_Pattern l" "\<And>q. q \<noteq> next_proxy g \<Longrightarrow> proxies g1 q = proxies g q"
    using NewHTTPProxy_ok [OF assms(1)] by blast
  let ?g = "HealthCheck (next_proxy g) (upd_map m (\<lambda>pm. pm\<lparr>Relations := (Relations pm)(l_Pattern l \<mapsto> next_proxy g),
      Locations := (Locations pm)(l_Pattern l \<mapsto> l)\<rparr>) (upd_proxy (next_proxy g) (\<lambda>h. h\<lparr>Owner := Some m\<rparr>) g1)
      \<lparr>router := Some (routes(l_Pattern l \<mapsto> next_proxy g))\<rparr>)"
  have "AddProxyWithLocation (env_parse env) n m l g = Ret (None, ?g)"
    using new g1(3) assms(2) by (simp add: AddProxyWithLocation_def AddRelations_def Let_def upd_map_def)
  moreover have "Relations (maps ?g m) = (Relations (maps g m))(l_Pattern l \<mapsto> next_proxy g)"
    "Limiters (maps ?g m) = Limiters (maps g m)" "current ?g = current g"
    "router ?g = Some (routes(l_Pattern l \<mapsto> next_proxy g))"
    using g1 by (simp_all add: HealthCheck_def upd_map_def upd_proxy_def)
  moreover have "registered m ?g"
    using assms(3) g1 unfolding registered_def
    by (fastforce simp: HealthCheck_def upd_map_def upd_proxy_def split: if_splits)
  ultimately show ?thesis by blast
qed

lemma restore_locations_ok:
  assumes "\<And>l. l \<in> set ls \<Longrightarrow> location_ok env l" "router g = Some routes" "registered m g"
  shows "\<exists>g' routes'. restore_locations env m ls g = Ret g' \<and> registered m g'
    \<and> dom (Relations (maps g' m)) = dom (Relations (maps g m)) \<union> l_Pattern ` set ls
    \<and> Limiters (maps g' m) = Limiters (maps g m) \<and> current g' = current g \<and> router g' = Some routes'
    \<and> (\<forall>k. k \<notin> l_Pattern ` set ls \<longrightarrow> routes' k = routes k)
    \<and> (\<forall>k \<in> l_Pattern ` set ls. routes' k = Relations (maps g' m) k)
    \<and> (\<forall>k. k \<notin> l_Pattern ` set ls \<longrightarrow> Relations (maps g' m) k = Relations (maps g m) k)"
  using assms
proof (induction ls arbitrary: g routes)
  case (Cons l ls)
  obtain g1 where g1: "AddProxyWithLocation (env_parse env) (env_replicas env) m l g = Ret (None, g1)"
    "registered m g1" "Relations (maps g1 m) = (Relations (maps g m))(l_Pattern l \<mapsto> next_proxy g)"
    "Limiters (maps g1 m) = Limiters (maps g m)" "router g1 = Some (routes(l_Pattern l \<mapsto> next_proxy g))"
    "current g1 = current g"
    using AddProxyWithLocation_ok [OF _ Cons.prems(2,3)] Cons.prems(1) by (meson list.set_intros(1))
  obtain g' routes' where IH: "restore_locations env m ls g1 = Ret g'" "registered m g'"
    "dom (Relations (maps g' m)) = dom (Relations (maps g1 m)) \<union> l_Pattern ` set ls"
    "Limiters (maps g' m) = Limiters (maps g1 m)" "current g' = current g1" "router g' = Some routes'"
    "\<forall>k. k \<notin> l_Pattern ` set ls \<longrightarrow> routes' k = (routes(l_Pattern l \<mapsto> next_proxy g)) k"
    "\<forall>k \<in> l_Pattern ` set ls. routes' k = Relations (maps g' m) k"
    "\<forall>k. k \<notin> l_Pattern ` set ls \<longrightarrow> Relations (maps g' m) k = Relations (maps g1 m) k"
    using Cons.IH [OF _ g1(5,2)] Cons.prems(1) by (metis list.set_intros(2))
  have "\<forall>k. k \<notin> l_Pattern ` set (l # ls) \<longrightarrow> routes' k = routes k"
    "\<forall>k. k \<notin> l_Pattern ` set (l # ls) \<longrightarrow> Relations (maps g' m) k = Relations (maps g m) k"
    using IH(7,9) g1(3) by simp_all
  moreover have "\<forall>k \<in> l_Pattern ` set (l # ls). routes' k = Relations (maps g' m) k"
    using IH(7-9) g1(3) by (metis fun_upd_same image_insert insertE list.simps(15))
  moreover have "dom (Relations (maps g' m)) = dom (Relations (maps g m)) \<union> l_Pattern ` set (l # ls)"
    using IH(3) g1(3) by auto
  ultimately show ?case using IH g1 by (intro exI [of _ g'] exI [of _ routes']) simp
qed simp

subsection \<open>The loop over the limiters\<close>

definition limiters_at :: "map_ref \<Rightarrow> string \<Rightarrow> 'l gateway \<Rightarrow> LimiterInfo list" where
  "limiters_at m k g = (case Limiters (maps g m) k of None \<Rightarrow> [] | Some infos \<Rightarrow> infos)"

lemma record_limiter_at:
  "limiters_at m k (record_limiter m pat i g) = (if k = pat then limiters_at m k g @ [i] else limiters_at m k g)"
  by (simp add: limiters_at_def record_limiter_def upd_map_def)

lemma limiters_at_upd_proxy [simp]: "limiters_at m k (upd_proxy p f g) = limiters_at m k g"
  by (simp add: limiters_at_def)

lemma set_limiter_ok:
  assumes "LimiterType info = ''qps''" "registered m g" "Relations (maps g m) k = Some p"
  shows "\<exists>g'. SetRateLimiter rt p info g = Ret (None, g') \<and> registered m g'
    \<and> Relations (maps g' m) = Relations (maps g m)
    \<and> (\<forall>j. limiters_at m j g' = (if j = k then limiters_at m j g @ [info] else limiters_at m j g))
    \<and> current g' = current g \<and> router g' = router g"
proof -
  have p: "Pattern (proxies g p) = k" "Owner (proxies g p) = Some m"
    using assms(2,3) by (auto simp: registered_def)
  obtain lim where "(if Speed info \<noteq> 0 then Qps_SetRate rt (Volumn info) (Speed info) (NewQpsRateLimiter rt)
      else Ret (NewQpsRateLimiter rt)) = Ret lim"
    by (cases "Speed info = 0") (auto simp: Qps_SetRate_def go_div_def)
  then obtain lim' where set: "SetRateLimiter rt p info g = Ret (None, record_limiter m k info
      (upd_proxy p (\<lambda>h. h\<lparr>Methods := (Methods h)(PathName info \<mapsto> lim')\<rparr>) g))"
    using assms(1) p by (auto simp: SetRateLimiter_def Limiter_Build_def rateLimiterFactories_def Let_def)
  let ?g = "record_limiter m k info (upd_proxy p (\<lambda>h. h\<lparr>Methods := (Methods h)(PathName info \<mapsto> lim')\<rparr>) g)"
  have "Pattern (proxies ?g q) = Pattern (proxies g q)" "Owner (proxies ?g q) = Owner (proxies g q)" for q
    by (simp_all add: upd_proxy_def)
  then have "registered m ?g" using assms(2) by (simp add: registered_def)
  with set show ?thesis by (intro exI [of _ ?g]) (simp add: record_limiter_at)
qed

lemma set_limiters_ok:
  assumes "\<And>i. i \<in> set infos \<Longrightarrow> LimiterType i = ''qps''" "registered m g" "Relations (maps g m) k = Some p"
  shows "\<exists>g'. fold_outcome (\<lambda>info g. and_then (SetRateLimiter rt p info g) (\<lambda>(err, g'). Ret g')) infos g = Ret g'
    \<and> registered m g' \<and> Relations (maps g' m) = Relations (maps g m)
    \<and> (\<forall>j. limiters_at m j g' = (if j = k then limiters_at m j g @ infos else limiters_at m j g))
    \<and> current g' = current g \<and> router g' = router g"
  using assms
proof (induction infos arbitrary: g)
  case (Cons i infos)
  obtain g1 where g1: "SetRateLimiter rt p i g = Ret (None, g1)" "registered m g1"
    "Relations (maps g1 m) = Relations (maps g m)" "current g1 = current g" "router g1 = router g"
    "\<And>j. limiters_at m j g1 = (if j = k then limiters_at m j g @ [i] else limiters_at m j g)"
    using set_limiter_ok [OF _ Cons.prems(2,3), where info = i and rt = rt] Cons.prems(1) by auto
  obtain g2 where g2: "fold_outcome (\<lambda>info g. and_then (SetRateLimiter rt p info g) (\<lambda>(err, g'). Ret g')) infos g1 = Ret g2"
    "registered m g2" "Relations (maps g2 m) = Relations (maps g1 m)" "current g2 = current g1" "router g2 = router g1"
    "\<And>j. limiters_at m j g2 = (if j = k then limiters_at m j g1 @ infos else limiters_at m j g1)"
    using Cons.IH [OF _ g1(2)] Cons.prems(1,3) g1(3) by auto
  show ?case using g1 g2 by (intro exI [of _ g2]) simp
qed simp

text \<open>Every key that has a proxy gets its own records appended once more.\<close>

lemma restore_limiters_ok:
  assumes "distinct ks" "\<forall>k \<in> set ks. \<forall>i \<in> set (limiters_at m k g). LimiterType i = ''qps''"
    and "registered m g"
  shows "\<exists>g'. restore_limiters env m ks g = Ret g' \<and> registered m g'
    \<and> Relations (maps g' m) = Relations (maps g m) \<and> current g' = current g \<and> router g' = router g
    \<and> (\<forall>k. limiters_at m k g' = (if k \<in> set ks \<and> Relations (maps g m) k \<noteq> None
          then limiters_at m k g @ limiters_at m k g else limiters_at m k g))"
  using assms
proof (induction ks arbitrary: g)
  case Nil
  then show ?case by (simp add: restore_limiters_def)
next
  case (Cons k ks)
  show ?case
  proof (cases "Relations (maps g m) k")
    case None
    then have "restore_limiters env m (k # ks) g = restore_limiters env m ks g"
      by (simp add: restore_limiters_def)
    then show ?thesis using Cons.IH [OF _ _ Cons.prems(3)] Cons.prems None by fastforce
  next
    case (Some p)
    obtain g1 where g1: "fold_outcome (\<lambda>info g. and_then (SetRateLimiter (env_rate env) p info g) (\<lambda>(err, g'). Ret g'))
        (limiters_at m k g) g = Ret g1"
      "registered m g1" "Relations (maps g1 m) = Relations (maps g m)" "current g1 = current g" "router g1 = router g"
      "\<And>j. limiters_at m j g1 = (if j = k then limiters_at m j g @ limiters_at m k g else limiters_at m j g)"
      using set_limiters_ok [OF _ Cons.prems(3) Some, where infos = "limiters_at m k g" and rt = "env_rate env"] Cons.prems(2)
      by auto
    have step: "restore_limiters env m (k # ks) g = restore_limiters env m ks g1"
      using g1(1) Some by (simp add: restore_limiters_def limiters_at_def)
    have qps: "\<forall>j \<in> set ks. \<forall>i \<in> set (limiters_at m j g1). LimiterType i = ''qps''"
      and dist: "distinct ks"
      using Cons.prems(1,2) g1(6) by (auto split: if_splits)
    obtain g2 where g2: "restore_limiters env m ks g1 = Ret g2"
      "registered m g2" "Relations (maps g2 m) = Relations (maps g1 m)" "current g2 = current g1" "router g2 = router g1"
      "\<And>j. limiters_at m j g2 = (if j \<in> set ks \<and> Relations (maps g1 m) j \<noteq> None
          then limiters_at m j g1 @ limiters_at m j g1 else limiters_at m j g1)"
      using Cons.IH [OF dist qps g1(2)] by blast
    show ?thesis
      using g1 g2 step Some Cons.prems(1) by (intro exI [of _ g2]) auto
  qed
qed

subsection \<open>Restore as a whole\<close>

text \<open>What a snapshot must hold for its restore to return: every location is registered under
  its own pattern and can be built, every limiter is of a known type, and the key set of the
  black list consists of blocks.\<close>

definition snapshot_ok :: "('m, 'l) cluster_env \<Rightarrow> snapshot \<Rightarrow> cidr list \<Rightarrow> bool" where
  "snapshot_ok env s bs \<longleftrightarrow>
     (\<forall>k l. snap_Locations s k = Some l \<longrightarrow> l_Pattern l = k \<and> location_ok env l)
     \<and> (\<forall>k infos. snap_Limiters s k = Some infos \<longrightarrow> (\<forall>i \<in> set infos. LimiterType i = ''qps''))
     \<and> iter_ok env (dom (snap_Locations s)) \<and> iter_ok env (dom (snap_Limiters s))
     \<and> iter env (dom (snap_Record s)) = map cidr_text bs \<and> list_all cidr_ok bs"

lemma restore_acl_add_all: "restore_acl (map cidr_text bs) = add_all bs NewRadixTree"
  by (simp add: restore_acl_def add_all_def fold_outcome_map)

lemma Restore_ok:
  assumes "snapshot_ok env s bs" and "router g = Some routes"
  shows "\<exists>g' routes' t. FSM_Restore env s g = Ret g' \<and> router g' = Some routes'
    \<and> add_all bs NewRadixTree = Ret t \<and> black_list g' = t
    \<and> dom (Relations (maps g' (current g'))) = dom (snap_Locations s)
    \<and> (\<forall>k. k \<notin> dom (snap_Locations s) \<longrightarrow> routes' k = routes k)
    \<and> (\<forall>k \<in> dom (snap_Locations s). routes' k = Relations (maps g' (current g')) k)
    \<and> registered (current g') g'
    \<and> (\<forall>k. limiters_at (current g') k g' =
         (let infos = (case snap_Limiters s k of None \<Rightarrow> [] | Some infos \<Rightarrow> infos)
          in if k \<in> dom (snap_Locations s) then infos @ infos else infos))"
proof -
  note ok = assms(1) [unfolded snapshot_ok_def]
  let ?m = "next_map g" and ?ls = "map_values env (snap_Locations s)"
  let ?g1 = "g\<lparr>maps := (maps g)(?m := \<lparr>Relations = Map.empty, Locations = snap_Locations s,
      Limiters = snap_Limiters s, RouterType = snap_RouterType s\<rparr>), current := ?m, next_map := Suc ?m\<rparr>"
  have g2: "GetRouterInstance (snap_RouterType s) ?g1 = ?g1" "router ?g1 = Some routes" "registered ?m ?g1"
    using assms(2) by (simp_all add: GetRouterInstance_def registered_def)
  have ls: "l_Pattern ` set ?ls = dom (snap_Locations s)" "\<And>l. l \<in> set ?ls \<Longrightarrow> location_ok env l"
  proof -
    have it: "set (iter env (dom (snap_Locations s))) = dom (snap_Locations s)"
      using ok by (simp add: iter_ok_def)
    have "l_Pattern (the (snap_Locations s k)) = k \<and> location_ok env (the (snap_Locations s k))"
      if "k \<in> dom (snap_Locations s)" for k
      using ok that by (metis domD option.sel)
    then show "l_Pattern ` set ?ls = dom (snap_Locations s)" "\<And>l. l \<in> set ?ls \<Longrightarrow> location_ok env l"
      unfolding map_values_def set_map it image_image by auto
  qed
  obtain g3 routes' where g3: "restore_locations env ?m ?ls ?g1 = Ret g3" "registered ?m g3"
    "dom (Relations (maps g3 ?m)) = dom (snap_Locations s)"
    "Limiters (maps g3 ?m) = snap_Limiters s" "current g3 = ?m" "router g3 = Some routes'"
    "\<forall>k. k \<notin> dom (snap_Locations s) \<longrightarrow> routes' k = routes k"
    "\<forall>k \<in> dom (snap_Locations s). routes' k = Relations (maps g3 ?m) k"
    using restore_locations_ok [of ?ls env ?g1 routes ?m, OF ls(2) g2(2,3)] unfolding ls(1) by auto
  let ?ks = "iter env (dom (Limiters (maps g3 ?m)))"
  have dist: "distinct ?ks" and set_ks: "set ?ks = dom (snap_Limiters s)"
    using ok by (simp_all add: iter_ok_def g3(4))
  have qps: "\<forall>k \<in> set ?ks. \<forall>i \<in> set (limiters_at ?m k g3). LimiterType i = ''qps''"
  proof (intro ballI)
    fix k i
    assume i: "i \<in> set (limiters_at ?m k g3)"
    show "LimiterType i = ''qps''"
    proof (cases "snap_Limiters s k")
      case None
      with i show ?thesis by (simp add: limiters_at_def g3(4))
    next
      case (Some infos)
      with i have "i \<in> set infos" by (simp add: limiters_at_def g3(4))
      with Some ok show ?thesis by blast
    qed
  qed
  obtain g4 where g4: "restore_limiters env ?m ?ks g3 = Ret g4" "registered ?m g4"
    "Relations (maps g4 ?m) = Relations (maps g3 ?m)" "current g4 = current g3" "router g4 = router g3"
    "\<forall>k. limiters_at ?m k g4 = (if k \<in> set ?ks \<and> Relations (maps g3 ?m) k \<noteq> None
          then limiters_at ?m k g3 @ limiters_at ?m k g3 else limiters_at ?m k g3)"
    using restore_limiters_ok [OF dist qps g3(2), of env] by blast
  obtain t where t: "add_all bs NewRadixTree = Ret t" using add_all_search ok by metis
  then have acl: "restore_acl (iter env (dom (snap_Record s))) = Ret t"
    using ok by (simp add: restore_acl_add_all)
  let ?g' = "g4\<lparr>black_list := t\<rparr>"
  have res: "FSM_Restore env s g = Ret ?g'"
    unfolding FSM_Restore_def Let_def g2(1) using g3(1) g4(1) acl by simp
  have lim: "limiters_at ?m k ?g' =
      (let infos = (case snap_Limiters s k of None \<Rightarrow> [] | Some infos \<Rightarrow> infos)
       in if k \<in> dom (snap_Locations s) then infos @ infos else infos)" for k
  proof -
    have "limiters_at ?m k ?g' = limiters_at ?m k g4" by (simp add: limiters_at_def)
    moreover have "limiters_at ?m k g3 = (case snap_Limiters s k of None \<Rightarrow> [] | Some infos \<Rightarrow> infos)"
      by (simp add: limiters_at_def g3(4))
    moreover have "Relations (maps g3 ?m) k \<noteq> None \<longleftrightarrow> k \<in> dom (snap_Locations s)"
      using g3(3) by (metis domIff)
    ultimately show ?thesis using g4(6) set_ks by (auto simp: Let_def)
  qed
  have "registered ?m ?g'" using g4(2) by (simp add: registered_def)
  then show ?thesis
    using res t lim g3 g4 by (intro exI [of _ ?g'] exI [of _ routes'] exI [of _ t]) simp
qed

subsection \<open>A snapshot to restore\<close>

definition demo_limiter :: LimiterInfo where
  "demo_limiter = \<lparr>Prefix = ''/api'', PathName = ''/x'', LimiterType = ''qps'', Volumn = 10, Speed = 50, MaxThread = 0,
     Duration = 0\<rparr>"

definition demo_snapshot :: snapshot where
  "demo_snapshot = \<lparr>snap_Locations = [''/img'' \<mapsto> \<lparr>l_Pattern = ''/img'', ProxyPass = [''http://c:80''],
       BalanceMode = ''round-robin''\<rparr>],
     snap_Limiters = [''/img'' \<mapsto> [demo_limiter]], snap_RouterType = ''default'',
     snap_Record = [''10.0.0.0/8'' \<mapsto> True]\<rparr>"

lemma demo_cidr_text: "cidr_text (Cidr 10 0 0 0 8) = ''10.0.0.0/8''"
  by code_simp

lemma demo_snapshot_ok: "snapshot_ok demo_env demo_snapshot [Cidr 10 0 0 0 8]"
proof -
  have "iter demo_env S = filter (\<lambda>k. k \<in> S) [''/api'', ''/img'', ''b:80'', ''a:80'', ''10.0.0.0/8'', ''10.0.0.7/32'']" for S
    by (simp add: demo_env_def)
  then have "iter demo_env {''/img''} = [''/img'']" "iter demo_env {''10.0.0.0/8''} = [''10.0.0.0/8'']" by simp_all
  then show ?thesis
    by (simp add: snapshot_ok_def demo_snapshot_def location_ok_def iter_ok_def demo_limiter_def demo_cidr_text
        del: cidr_text.simps) (simp add: demo_env_def demo_parse_def)
qed

lemma demo_routes: "router demo_served = Some [''/api'' \<mapsto> 0]"
  by (simp add: demo_served_def demo_gateway_def)

subsection \<open>Properties\<close>

text \<open>C16: a restore rebuilds the routing table of the snapshot. It returns, every location of
  the snapshot has a proxy that the router also finds, no other route is registered in the
  map, and the black list refuses exactly the clients that a block of the snapshot's key set
  covers, in whatever order the maps are read.\<close>

theorem Restore_rebuilds:
  assumes "snapshot_ok env s bs" and "router g = Some routes" and "cidr_ok (Cidr a b c d n)"
  shows "\<exists>g' routes'. FSM_Restore env s g = Ret g' \<and> router g' = Some routes'
    \<and> dom (Relations (maps g' (current g'))) = dom (snap_Locations s)
    \<and> (\<forall>k \<in> dom (snap_Locations s). routes' k = Relations (maps g' (current g')) k)
    \<and> RadixTree_AccessControl (black_list g') (dotted a b c d @ CHR '':'' # port)
        = Ret (\<exists>blk \<in> set bs. covers blk (ipv4 a b c d))"
proof -
  obtain g' routes' t where g': "FSM_Restore env s g = Ret g'" "router g' = Some routes'"
    "add_all bs NewRadixTree = Ret t" "black_list g' = t"
    "dom (Relations (maps g' (current g'))) = dom (snap_Locations s)"
    "\<forall>k \<in> dom (snap_Locations s). routes' k = Relations (maps g' (current g')) k"
    using Restore_ok [OF assms(1,2)] by blast
  have "list_all cidr_ok bs" using assms(1) by (simp add: snapshot_ok_def)
  from add_all_search [OF this, of "ipv4 a b c d"] obtain v where
    "RadixTree_search t (ipv4 a b c d) = Some v" "v \<noteq> [] \<longleftrightarrow> (\<exists>blk \<in> set bs. covers blk (ipv4 a b c d))"
    using g'(3) by (metis outcome.inject)
  then have "RadixTree_AccessControl (black_list g') (dotted a b c d @ CHR '':'' # port)
      = Ret (\<exists>blk \<in> set bs. covers blk (ipv4 a b c d))"
    using AccessControl_dotted [of a b c d t v port] assms(3) g'(4) by simp
  then show ?thesis using g' by blast
qed

theorem Restore_rebuilds_witness:
  "\<exists>g'. FSM_Restore demo_env demo_snapshot demo_served = Ret g'
    \<and> RadixTree_AccessControl (black_list g') (dotted 10 9 9 9 @ '':4711'') = Ret True"
  using Restore_rebuilds [OF demo_snapshot_ok demo_routes, of 10 9 9 9 32 "''4711''"]
  by (auto simp: covers_def in_block_def ipv4_def netmask_def mask_eq_exp_minus_1)

text \<open>A restore doubles the limiter records. Setting the limiters again appends them to
  the list that is being read, so after each restore (and in the next snapshot) a route has
  every record twice as often.\<close>

theorem Restore_doubles_limiters:
  assumes "snapshot_ok env s bs" and "router g = Some routes"
    and "snap_Locations s k = Some l" and "snap_Limiters s k = Some infos"
  shows "\<exists>g'. FSM_Restore env s g = Ret g'
    \<and> length (limiters_at (current g') k g') = 2 * length infos"
  using Restore_ok [OF assms(1,2)] assms(3,4) by (auto simp: Let_def)

theorem Restore_doubles_limiters_witness:
  "\<exists>g'. FSM_Restore demo_env demo_snapshot demo_served = Ret g' \<and> length (limiters_at (current g') ''/img'' g') = 2"
proof -
  obtain l where "snap_Locations demo_snapshot ''/img'' = Some l" "snap_Limiters demo_snapshot ''/img'' = Some [demo_limiter]"
    by (simp add: demo_snapshot_def)
  from Restore_doubles_limiters [OF demo_snapshot_ok demo_routes this] show ?thesis by simp
qed

text \<open>A restore keeps the routes that the snapshot does not have. The router is not
  cleared, so a route that was removed before the snapshot was taken elsewhere is still
  served by its old proxy here, although the map no longer lists it.\<close>

theorem Restore_keeps_stale_routes:
  assumes "snapshot_ok env s bs" and "router g = Some routes"
    and "routes k = Some p" and "snap_Locations s k = None"
  shows "\<exists>g' routes'. FSM_Restore env s g = Ret g' \<and> router g' = Some routes'
    \<and> routes' k = Some p \<and> Relations (maps g' (current g')) k = None"
  using Restore_ok [OF assms(1,2)] assms(3,4) by (metis domIff)

theorem Restore_keeps_stale_routes_witness:
  "\<exists>g' routes'. FSM_Restore demo_env demo_snapshot demo_served = Ret g' \<and> router g' = Some routes'
    \<and> routes' ''/api'' = Some 0 \<and> Relations (maps g' (current g')) ''/api'' = None"
  by (rule Restore_keeps_stale_routes [OF demo_snapshot_ok demo_routes]) (simp_all add: demo_snapshot_def)

text \<open>A host added or removed with \<open>AddProxy\<close> or \<open>RemoveHost\<close>, and a changed balancer,
  leave no trace in a snapshot: it is the same as before the call, so a restore returns to
  the hosts and the mode of the route's location.\<close>

theorem Snapshot_misses_hosts:
  "FSM_Snapshot (snd (AddProxy parse (current g) pattern target g)) = FSM_Snapshot g
   \<and> (case RemoveHost (current g) pattern host g of Ret (err, g') \<Rightarrow> FSM_Snapshot g' = FSM_Snapshot g | _ \<Rightarrow> True)
   \<and> FSM_Snapshot (snd (ChangeLb n order p mode g)) = FSM_Snapshot g"
  by (auto simp: FSM_Snapshot_def AddProxy_def RemoveHost_def send_shutdown_def ChangeLb_def Let_def upd_proxy_def
      split: option.splits sum.splits)

end
