(* ===== verification/Cluster.thy ===== *)
theory Cluster
  imports ServerInv Restore
begin

text \<open>
  The leader and its followers. A handler of the leader changes its own gateway, and the log
  entry it writes is then applied on every node, the leader included: what one handler call
  does to the leader is compared with what its log entry does to a follower that was in the
  same state. The other properties are about the write permission and about requests that end
  the process.
\<close>

subsection \<open>The black list on the leader and on a follower\<close>

text \<open>Two black lists that answer alike: the same entries and the same key set, whatever the
  addresses of the nodes.\<close>

definition acl_equiv :: "RadixTree \<Rightarrow> RadixTree \<Rightarrow> bool" where
  "acl_equiv t t' \<longleftrightarrow> tree_entry t = tree_entry t' \<and> Record t = Record t'"

lemma acl_entry_add:
  assumes "acl_fresh t" "cidr_ok b"
  obtains t1 where "RadixTree_Add (cidr_text b) (cidr_text b) t = Ret (None, t1)" "acl_fresh t1"
    "tree_entry t1 = (tree_entry t)(cidr_path b := cidr_text b)" "Record t1 = (Record t)(cidr_text b \<mapsto> True)"
  using Add_cidr_exact [OF assms(1,2), of "cidr_text b"] by (auto simp: fun_eq_iff)

lemma acl_entry_delete:
  assumes "acl_ok t" "cidr_ok b" "cidr_len b \<noteq> 0"
  obtains t1 where "RadixTree_Delete (cidr_text b) t =
      Ret (if tree_entry t (cidr_path b) \<noteq> [] then None else Some CantFindIpNet, t1)" "acl_ok t1"
    "tree_entry t1 = (tree_entry t)(cidr_path b := [])"
    "Record t1 = (if tree_entry t (cidr_path b) \<noteq> [] then (Record t)(cidr_text b := None) else Record t)"
  using Delete_cidr_exact [OF assms(1,2)] assms(3) by (auto simp: fun_eq_iff)

lemma FSM_Apply_acl:
  assumes "dec_acl env (enc_acl env req) = Inr req"
  shows "FSM_Apply env (LogEntry_Encode \<lparr>Opt = 3, Data = enc_acl env req\<rparr>) g =
     (if acl_Pattern req = 0 then
        and_then (RadixTree_Delete (IpAddress req) (black_list g)) (\<lambda>(err, t). Ret (map_option AclError err, g\<lparr>black_list := t\<rparr>))
      else if acl_Pattern req = 1 then
        and_then (RadixTree_Add (IpAddress req) (IpAddress req) (black_list g)) (\<lambda>(err, t). Ret (map_option AclError err, g\<lparr>black_list := t\<rparr>))
      else Ret (None, g))"
  using assms by (simp add: FSM_Apply_Encode FSM_doHandleAcl_def)

text \<open>The node permits writes, the request decodes to \<open>req\<close>, the encoding of messages is
  faithful and the raft library commits the entry.\<close>

definition accepts_acl :: "('m, 'l, 'r) server_env \<Rightarrow> bytes \<Rightarrow> AclLog \<Rightarrow> ('l, 'r) node \<Rightarrow> bool" where
  "accepts_acl env b req nd \<longleftrightarrow> enableWrite nd \<and> dec_acl (cluster env) b = Inr req
     \<and> dec_acl (cluster env) (enc_acl (cluster env) req) = Inr req
     \<and> fst (raft_Apply env (raft_state nd) (LogEntry_Encode \<lparr>Opt = 3, Data = enc_acl (cluster env) req\<rparr>)) = None"

lemma doHandleAcl_accepted:
  assumes "accepts_acl env b req nd"
    and "(if acl_Pattern req = 0 then RadixTree_Delete (IpAddress req) (black_list (nd_gateway nd))
          else RadixTree_Add (IpAddress req) (IpAddress req) (black_list (nd_gateway nd))) = Ret (None, t1)"
    and "FSM_Apply (cluster env) (LogEntry_Encode \<lparr>Opt = 3, Data = enc_acl (cluster env) req\<rparr>)
          ((nd_gateway nd)\<lparr>black_list := t1\<rparr>) = Ret (ret, g')"
  shows "\<exists>nd'. doHandleAcl env b nd = Ret (ok, nd') \<and> nd_gateway nd' = g' \<and> enableWrite nd'"
proof -
  obtain r' where "raft_Apply env (raft_state nd) (LogEntry_Encode \<lparr>Opt = 3, Data = enc_acl (cluster env) req\<rparr>) = (None, r')"
    using assms(1) by (metis accepts_acl_def prod.collapse)
  then show ?thesis
    using assms by (simp add: doHandleAcl_def accepts_acl_def checkWritePermission_def log_and_answer_def
        writeLogEntry_def Let_def)
qed

text \<open>What an accepted request does to the leader, which runs the operation by hand and from the
  log, and what the log entry does to a follower.\<close>

lemma leader_adds_block:
  assumes "accepts_acl env b req nd" and "acl_Pattern req = 1" "IpAddress req = cidr_text blk" "cidr_ok blk"
    and "acl_fresh (black_list (nd_gateway nd))"
  obtains nd' t2 where "doHandleAcl env b nd = Ret (ok, nd')" "enableWrite nd'"
    "nd_gateway nd' = (nd_gateway nd)\<lparr>black_list := t2\<rparr>" "acl_fresh t2"
    "tree_entry t2 = (tree_entry (black_list (nd_gateway nd)))(cidr_path blk := cidr_text blk)"
    "Record t2 = (Record (black_list (nd_gateway nd)))(cidr_text blk \<mapsto> True)"
proof -
  have faithful: "dec_acl (cluster env) (enc_acl (cluster env) req) = Inr req" using assms(1) by (simp add: accepts_acl_def)
  obtain t1 where t1: "RadixTree_Add (cidr_text blk) (cidr_text blk) (black_list (nd_gateway nd)) = Ret (None, t1)" "acl_fresh t1"
    "tree_entry t1 = (tree_entry (black_list (nd_gateway nd)))(cidr_path blk := cidr_text blk)"
    "Record t1 = (Record (black_list (nd_gateway nd)))(cidr_text blk \<mapsto> True)"
    using acl_entry_add [OF assms(5,4)] by blast
  obtain t2 where t2: "RadixTree_Add (cidr_text blk) (cidr_text blk) t1 = Ret (None, t2)" "acl_fresh t2"
    "tree_entry t2 = tree_entry t1" "Record t2 = Record t1"
    using acl_entry_add [OF t1(2) assms(4)] t1(3,4) by (auto simp: fun_upd_idem)
  have step: "FSM_Apply (cluster env) (LogEntry_Encode \<lparr>Opt = 3, Data = enc_acl (cluster env) req\<rparr>)
      ((nd_gateway nd)\<lparr>black_list := t1\<rparr>) = Ret (None, (nd_gateway nd)\<lparr>black_list := t2\<rparr>)"
    using assms(2,3) t2(1) by (simp add: FSM_Apply_acl [OF faithful])
  show thesis
    using doHandleAcl_accepted [OF assms(1) _ step] assms(2,3) t1 t2 that by auto
qed

lemma leader_deletes_block:
  assumes "accepts_acl env b req nd" and "acl_Pattern req = 0" "IpAddress req = cidr_text blk" "cidr_ok blk"
    and "cidr_len blk \<noteq> 0" "acl_ok (black_list (nd_gateway nd))"
    and "tree_entry (black_list (nd_gateway nd)) (cidr_path blk) \<noteq> []"
  obtains nd' t2 where "doHandleAcl env b nd = Ret (ok, nd')" "enableWrite nd'"
    "nd_gateway nd' = (nd_gateway nd)\<lparr>black_list := t2\<rparr>" "acl_ok t2"
    "tree_entry t2 = (tree_entry (black_list (nd_gateway nd)))(cidr_path blk := [])"
    "Record t2 = (Record (black_list (nd_gateway nd)))(cidr_text blk := None)"
proof -
  have faithful: "dec_acl (cluster env) (enc_acl (cluster env) req) = Inr req" using assms(1) by (simp add: accepts_acl_def)
  obtain t1 where t1: "RadixTree_Delete (cidr_text blk) (black_list (nd_gateway nd)) = Ret (None, t1)" "acl_ok t1"
    "tree_entry t1 = (tree_entry (black_list (nd_gateway nd)))(cidr_path blk := [])"
    "Record t1 = (Record (black_list (nd_gateway nd)))(cidr_text blk := None)"
    using acl_entry_delete [OF assms(6,4,5)] assms(7) by auto
  obtain t2 where t2: "RadixTree_Delete (cidr_text blk) t1 = Ret (Some CantFindIpNet, t2)" "acl_ok t2"
    "tree_entry t2 = tree_entry t1" "Record t2 = Record t1"
    using acl_entry_delete [OF t1(2) assms(4,5)] t1(3) by (auto simp: fun_upd_idem)
  have step: "FSM_Apply (cluster env) (LogEntry_Encode \<lparr>Opt = 3, Data = enc_acl (cluster env) req\<rparr>)
      ((nd_gateway nd)\<lparr>black_list := t1\<rparr>) = Ret (Some (AclError CantFindIpNet), (nd_gateway nd)\<lparr>black_list := t2\<rparr>)"
    using assms(2,3) t2(1) by (simp add: FSM_Apply_acl [OF faithful])
  show thesis
    using doHandleAcl_accepted [OF assms(1) _ step] assms(2,3) t1 t2 that by auto
qed

lemma follower_applies_block:
  assumes "dec_acl env (enc_acl env req) = Inr req" and "IpAddress req = cidr_text blk" "cidr_ok blk" "cidr_len blk \<noteq> 0"
    and "acl_fresh (black_list gf)" "acl_Pattern req \<in> {0, 1}" "acl_Pattern req = 0 \<Longrightarrow> tree_entry (black_list gf) (cidr_path blk) \<noteq> []"
  obtains ret gf' where "FSM_Apply env (LogEntry_Encode \<lparr>Opt = 3, Data = enc_acl env req\<rparr>) gf = Ret (ret, gf')"
    "tree_entry (black_list gf') = (tree_entry (black_list gf))(cidr_path blk := (if acl_Pattern req = 0 then [] else cidr_text blk))"
    "Record (black_list gf') = (Record (black_list gf))(cidr_text blk := (if acl_Pattern req = 0 then None else Some True))"
proof (cases "acl_Pattern req = 0")
  case True
  obtain f1 where "RadixTree_Delete (cidr_text blk) (black_list gf) = Ret (None, f1)"
    "tree_entry f1 = (tree_entry (black_list gf))(cidr_path blk := [])" "Record f1 = (Record (black_list gf))(cidr_text blk := None)"
    using acl_entry_delete [OF _ assms(3,4), of "black_list gf"] assms(5,7) True by (auto simp: acl_fresh_def)
  then show thesis using True assms(2) that by (simp add: FSM_Apply_acl [OF assms(1)])
next
  case False
  then have one: "acl_Pattern req = 1" using assms(6) by simp
  obtain f1 where "RadixTree_Add (cidr_text blk) (cidr_text blk) (black_list gf) = Ret (None, f1)"
    "tree_entry f1 = (tree_entry (black_list gf))(cidr_path blk := cidr_text blk)" "Record f1 = (Record (black_list gf))(cidr_text blk \<mapsto> True)"
    using acl_entry_add [OF assms(5,3)] by blast
  then show thesis using one assms(2) that by (simp add: FSM_Apply_acl [OF assms(1)])
qed


subsection \<open>A server to compute with\<close>

definition demo_server :: "(int, int \<times> int, unit) server_env" where
  "demo_server = \<lparr>cluster = demo_env, raft_Apply = (\<lambda>r bs. (None, r)), raft_AddVoter = (\<lambda>r name addr. (None, r)),
     raft_Leader = (\<lambda>r. ''10.0.0.1:7000''), raft_Servers = (\<lambda>r. [(''node1'', ''10.0.0.1:7000'')]),
     dec_pattern = (\<lambda>bs. Inr (string_of bs)),
     dec_method = (\<lambda>bs. case Split (string_of bs) CHR ''|'' of p # m # _ \<Rightarrow> Inr (p, m) | _ \<Rightarrow> Inl ''short''),
     dec_change = (\<lambda>bs. case Split (string_of bs) CHR ''|'' of p # m # _ \<Rightarrow> Inr (p, m) | _ \<Rightarrow> Inl ''short''),
     error_text = (\<lambda>e. ''error'')\<rparr>"

definition demo_node :: "(int \<times> int, unit) node" where
  "demo_node = \<lparr>nd_gateway = demo_served, enableWrite = True, peer_addresses = [], raft_state = ()\<rparr>"

text \<open>The same server where the raft library refuses every entry, as on a follower.\<close>

definition follower_server :: "(int, int \<times> int, unit) server_env" where
  "follower_server = demo_server\<lparr>raft_Apply := (\<lambda>r bs. (Some ''node is not the leader'', r))\<rparr>"

lemma demo_acl_fresh: "acl_fresh (black_list demo_served)"
  using acl.new_invar by (simp add: demo_served_def demo_gateway_def)


subsection \<open>Operations that are not the same on all nodes\<close>

text \<open>A black list request with an unknown operation makes the cluster diverge. The leader
  takes every operation but 0 for an addition and answers with success, while the log entry
  does nothing on a follower, and the leader alone refuses the clients of the block.\<close>

theorem acl_unknown_operation_diverges:
  assumes "accepts_acl env b req nd" and "IpAddress req = cidr_text blk" "cidr_ok blk"
    and "acl_Pattern req \<notin> {0, 1}" and "acl_fresh (black_list (nd_gateway nd))"
  shows "\<exists>nd'. doHandleAcl env b nd = Ret (ok, nd')
    \<and> tree_entry (black_list (nd_gateway nd')) (cidr_path blk) = cidr_text blk
    \<and> FSM_Apply (cluster env) (LogEntry_Encode \<lparr>Opt = 3, Data = enc_acl (cluster env) req\<rparr>) gf = Ret (None, gf)"
proof -
  obtain t1 where t1: "RadixTree_Add (cidr_text blk) (cidr_text blk) (black_list (nd_gateway nd)) = Ret (None, t1)"
    "tree_entry t1 = (tree_entry (black_list (nd_gateway nd)))(cidr_path blk := cidr_text blk)"
    using acl_entry_add [OF assms(5,3)] by blast
  have faithful: "dec_acl (cluster env) (enc_acl (cluster env) req) = Inr req"
    using assms(1) by (simp add: accepts_acl_def)
  note apply_acl = FSM_Apply_acl [OF faithful]
  have step: "FSM_Apply (cluster env) (LogEntry_Encode \<lparr>Opt = 3, Data = enc_acl (cluster env) req\<rparr>)
      ((nd_gateway nd)\<lparr>black_list := t1\<rparr>) = Ret (None, (nd_gateway nd)\<lparr>black_list := t1\<rparr>)"
    using assms(4) by (simp add: apply_acl)
  obtain nd' where "doHandleAcl env b nd = Ret (ok, nd')" "nd_gateway nd' = (nd_gateway nd)\<lparr>black_list := t1\<rparr>"
    using doHandleAcl_accepted [OF assms(1) _ step] assms(2,4) t1(1) by auto
  then show ?thesis using t1(2) assms(4) by (simp add: apply_acl)
qed

theorem acl_unknown_operation_diverges_witness:
  "\<exists>nd'. doHandleAcl demo_server (2 # bytes_of (cidr_text (Cidr 10 0 0 0 8))) demo_node = Ret (ok, nd')
     \<and> tree_entry (black_list (nd_gateway nd')) (cidr_path (Cidr 10 0 0 0 8)) = cidr_text (Cidr 10 0 0 0 8)"
proof -
  let ?req = "\<lparr>acl_Pattern = 2, IpAddress = cidr_text (Cidr 10 0 0 0 8)\<rparr>"
  have "accepts_acl demo_server (2 # bytes_of (cidr_text (Cidr 10 0 0 0 8))) ?req demo_node"
    by (simp add: accepts_acl_def demo_server_def demo_env_def demo_node_def del: cidr_text.simps)
  from acl_unknown_operation_diverges [OF this, of "Cidr 10 0 0 0 8"] show ?thesis
    using demo_acl_fresh by (auto simp: demo_node_def simp del: cidr_text.simps)
qed

text \<open>A request that the node decodes to \<open>req\<close>, encodes faithfully and gets committed.\<close>

definition accepts_host :: "('m, 'l, 'r) server_env \<Rightarrow> bytes \<Rightarrow> u16 \<Rightarrow> HostLog \<Rightarrow> ('l, 'r) node \<Rightarrow> bool" where
  "accepts_host env b optType req nd \<longleftrightarrow> dec_host (cluster env) b = Inr req
     \<and> dec_host (cluster env) (enc_host (cluster env) req) = Inr req
     \<and> fst (raft_Apply env (raft_state nd) (LogEntry_Encode \<lparr>Opt = optType, Data = enc_host (cluster env) req\<rparr>)) = None"

text \<open>The leader checks a new host twice. It adds the host by hand and again from the log, so
  two health checks run for it, of which only the second can ever be stopped: the channel of
  the first is overwritten. A follower has one health check for the same request.\<close>

theorem leader_adds_host_twice:
  assumes "accepts_host env b 6 req nd" and "own_proxy (host_Pattern req) nd = Some p"
    and "env_parse (cluster env) (host_Host req) = Inr url"
    and "Relations (maps gf (current gf)) (host_Pattern req) = Some q"
  shows "\<exists>nd' gf'. doAddHost env b nd = Ret (ok, nd')
    \<and> health (nd_gateway nd') p (GetHost url) =
        Suc (next_chan (nd_gateway nd)) # next_chan (nd_gateway nd) # health (nd_gateway nd) p (GetHost url)
    \<and> HostsShutDown (proxies (nd_gateway nd') p) (GetHost url) = Some (Suc (next_chan (nd_gateway nd)))
    \<and> FSM_Apply (cluster env) (LogEntry_Encode \<lparr>Opt = 6, Data = enc_host (cluster env) req\<rparr>) gf = Ret (None, gf')
    \<and> health gf' q (GetHost url) = next_chan gf # health gf q (GetHost url)"
proof -
  obtain r' where "raft_Apply env (raft_state nd) (LogEntry_Encode \<lparr>Opt = 6, Data = enc_host (cluster env) req\<rparr>) = (None, r')"
    using assms(1) by (metis accepts_host_def prod.collapse)
  then show ?thesis
    using assms by (simp add: doAddHost_def accepts_host_def log_and_answer_def writeLogEntry_def own_proxy_def
        FSM_Apply_Encode FSM_doAddHost_def AddProxy_def upd_proxy_def Let_def)
qed

theorem leader_adds_host_twice_witness:
  "\<exists>nd'. doAddHost demo_server (lines_of [''/api'', ''http://c:80'']) demo_node = Ret (ok, nd')
     \<and> health (nd_gateway nd') 0 ''c:80'' = [Suc (next_chan demo_served), next_chan demo_served]"
proof -
  let ?req = "\<lparr>host_Pattern = ''/api'', host_Host = ''http://c:80''\<rparr>"
  have "accepts_host demo_server (lines_of [''/api'', ''http://c:80'']) 6 ?req demo_node"
    by (simp add: accepts_host_def demo_server_def demo_env_def lines_of_def)
  moreover have "GetHost \<lparr>Scheme = ''http'', Host = ''c:80''\<rparr> = ''c:80''" by code_simp
  ultimately show ?thesis
    using leader_adds_host_twice [of demo_server "lines_of [''/api'', ''http://c:80'']" ?req demo_node 0
        "\<lparr>Scheme = ''http'', Host = ''c:80''\<rparr>" demo_served 0]
    by (auto simp: own_proxy_def demo_node_def demo_server_def demo_env_def demo_parse_def demo_served_def demo_gateway_def)
qed

text \<open>The leader records a limit twice. The state machine records it and the handler records
  it again, so the leader's list of records for the route, which its snapshots hold, is one
  record longer than a follower's after every such request.\<close>

theorem leader_records_limiter_twice:
  assumes "enableWrite nd" and "dec_limiter (cluster env) b = Inr info"
    and "dec_limiter (cluster env) (enc_limiter (cluster env) info) = Inr info"
    and "fst (raft_Apply env (raft_state nd) (LogEntry_Encode \<lparr>Opt = 2, Data = enc_limiter (cluster env) info\<rparr>)) = None"
    and "registered (current (nd_gateway nd)) (nd_gateway nd)" "registered (current gf) gf"
    and "own_proxy (Prefix info) nd = Some p" "Relations (maps gf (current gf)) (Prefix info) = Some q"
    and "LimiterType info = ''qps''"
  shows "\<exists>nd' gf'. doSetRateLimiter env b nd = Ret (ok, nd')
    \<and> limiters_at (current (nd_gateway nd)) (Prefix info) (nd_gateway nd')
        = limiters_at (current (nd_gateway nd)) (Prefix info) (nd_gateway nd) @ [info, info]
    \<and> FSM_Apply (cluster env) (LogEntry_Encode \<lparr>Opt = 2, Data = enc_limiter (cluster env) info\<rparr>) gf = Ret (None, gf')
    \<and> limiters_at (current gf) (Prefix info) gf' = limiters_at (current gf) (Prefix info) gf @ [info]"
proof -
  let ?g = "nd_gateway nd" and ?rt = "env_rate (cluster env)"
  let ?e = "LogEntry_Encode \<lparr>Opt = 2, Data = enc_limiter (cluster env) info\<rparr>"
  have p: "Relations (maps ?g (current ?g)) (Prefix info) = Some p" using assms(7) by (simp add: own_proxy_def)
  obtain r' where r: "raft_Apply env (raft_state nd) ?e = (None, r')" using assms(4) by (metis prod.collapse)
  obtain g1 where g1: "SetRateLimiter ?rt p info ?g = Ret (None, g1)" "registered (current ?g) g1"
    "Relations (maps g1 (current ?g)) = Relations (maps ?g (current ?g))"
    "limiters_at (current ?g) (Prefix info) g1 = limiters_at (current ?g) (Prefix info) ?g @ [info]" "current g1 = current ?g"
    using set_limiter_ok [OF assms(9,5) p, of ?rt] by auto
  obtain g2 where g2: "SetRateLimiter ?rt p info g1 = Ret (None, g2)"
    "limiters_at (current ?g) (Prefix info) g2 = limiters_at (current ?g) (Prefix info) g1 @ [info]"
    using set_limiter_ok [OF assms(9) g1(2), of "Prefix info" p ?rt] g1(3) p by auto
  obtain gf' where gf': "SetRateLimiter ?rt q info gf = Ret (None, gf')"
    "limiters_at (current gf) (Prefix info) gf' = limiters_at (current gf) (Prefix info) gf @ [info]"
    using set_limiter_ok [OF assms(9,6,8), of ?rt] by auto
  have "FSM_Apply (cluster env) ?e ?g = Ret (None, g1)" "FSM_Apply (cluster env) ?e gf = Ret (None, gf')"
    using assms(3,8) p g1(1) gf'(1) by (simp_all add: FSM_Apply_Encode FSM_doSetRateLimiter_def)
  then show ?thesis
    using assms(1,2,7) r g1 g2 gf'(2)
    by (simp add: doSetRateLimiter_def checkWritePermission_def writeLogEntry_def set_gateway_def)
qed

lemma demo_registered: "registered (current demo_served) demo_served"
  by (auto simp: registered_def demo_served_def demo_gateway_def demo_proxy_def)

theorem leader_records_limiter_twice_witness:
  "\<exists>nd'. doSetRateLimiter demo_server (lines_of [''/api'', ''/x'', ''qps'']) demo_node = Ret (ok, nd')
     \<and> length (limiters_at 0 ''/api'' (nd_gateway nd')) = 2"
proof -
  let ?info = "\<lparr>Prefix = ''/api'', PathName = ''/x'', LimiterType = ''qps'', Volumn = 10, Speed = 50, MaxThread = 0,
    Duration = 0\<rparr>"
  have "dec_limiter demo_env (lines_of [''/api'', ''/x'', ''qps'']) = Inr ?info"
    by (simp add: demo_env_def lines_of_def)
  moreover have "enc_limiter demo_env ?info = lines_of [''/api'', ''/x'', ''qps'']"
    by (simp add: demo_env_def)
  moreover have "current demo_served = 0" "limiters_at 0 ''/api'' demo_served = []"
    by (simp_all add: demo_served_def demo_gateway_def limiters_at_def NewProxyMap_def)
  ultimately show ?thesis
    using leader_records_limiter_twice [of demo_node demo_server "lines_of [''/api'', ''/x'', ''qps'']" ?info demo_served 0 0]
      demo_registered
    by (simp add: own_proxy_def demo_node_def demo_server_def) (auto simp: demo_served_def demo_gateway_def)
qed

subsection \<open>Permission\<close>

text \<open>C29: a node without write permission keeps its gateway: whatever the other parties answer, no
  request changes its routes, limits, hosts or black list and none gives it the permission,
  except the four requests whose handlers never look at the flag.\<close>

theorem readonly_node_unchanged:
  assumes "\<not> enableWrite nd"
    and "call_path r \<notin> {''/addHost'', ''/removeProxy'', ''/removeHost'', ''/changeLb''}"
    and "serve_api env conf file r nd = Ret (resp, nd')"
  shows "nd_gateway nd' = nd_gateway nd \<and> \<not> enableWrite nd'"
  using assms
  by (auto simp: serve_api_def Let_def checkWritePermission_def doPing_def doJoin_def doGetMethods_def doSetRateLimiter_def
      doGetRaftClusterInfo_def doGetInfo_def doGetProxy_def doGetMehtodLimiter_def doAddProxy_def doHandleAcl_def
      doGetAccessControlList_def doGetRateLimiterType_def doGetBalancerMode_def
      split: if_splits sum.splits option.splits prod.splits)

definition demo_conf :: CherylConfig where
  "demo_conf = \<lparr>Name = ''node2'', SSLCertificateKey = [], Locations_cfg = [], Schema = ''http'', Port_cfg = 80, HttpPort = 9119,
     SSLCertificate = [], HealthCheck_cfg = True, LogLevel_cfg = ''error'', RouterType_cfg = ''default'', ReadHeaderTimeout = 1000,
     ReadTimeout = 1000, IdleTimeout = 1000, DataDir = ''./data'', RaftTCPAddress = ''10.0.0.2:7000'', LeaderAddress = ''10.0.0.1:9119'',
     IsLeader = False, SnapshotInterval = 30, SnapshotThreshold = 1, RaftLogLevel = ''error'', HeartbeatTimeout = 5,
     ElectionTimeout = 5, Replicas = 3\<rparr>"

definition demo_call :: "string \<Rightarrow> bytes \<Rightarrow> http_call" where
  "demo_call p b = \<lparr>call_path = p, call_body = b, call_query = (\<lambda>_. [])\<rparr>"

theorem readonly_node_unchanged_witness:
  "\<exists>resp nd'. serve_api demo_server demo_conf (\<lambda>_. Status 404) (demo_call ''/addProxy'' []) (SetWriteFlag False demo_node) = Ret (resp, nd')
     \<and> nd_gateway nd' = demo_served"
proof -
  let ?r = "demo_call ''/addProxy'' []" and ?nd = "SetWriteFlag False demo_node"
  have "serve_api demo_server demo_conf (\<lambda>_. Status 404) ?r ?nd = Ret (fail demo_server 500 NotAllowed, ?nd)"
    by (simp add: serve_api_def demo_call_def Let_def doAddProxy_def checkWritePermission_def SetWriteFlag_def)
  from readonly_node_unchanged [OF _ _ this] this show ?thesis
    by (simp add: demo_call_def SetWriteFlag_def) (simp add: demo_node_def)
qed

text \<open>A follower removes a proxy although the cluster refuses it. The handler does not look
  at the write flag and changes its own gateway first; the caller is told of an error, but the
  route is gone on this node only.\<close>

theorem refused_removal_stays:
  assumes "dec_pattern env b = Inr pattern" and "own_proxy pattern nd = Some p"
    and "p \<in> set (watchers (nd_gateway nd))" and "router (nd_gateway nd) = Some routes"
    and "fst (raft_Apply env (raft_state nd) (LogEntry_Encode \<lparr>Opt = 4, Data = bytes_of pattern\<rparr>)) = Some e"
  shows "\<exists>nd'. doRemoveProxy env b nd = Ret (fail env 500 (CantApply e), nd')
    \<and> own_proxy pattern nd' = None \<and> router (nd_gateway nd') = Some (routes(pattern := None))"
proof -
  let ?g = "nd_gateway nd"
  obtain r' where r: "raft_Apply env (raft_state nd) (LogEntry_Encode \<lparr>Opt = 4, Data = bytes_of pattern\<rparr>) = (Some e, r')"
    using assms(5) by (metis prod.collapse)
  have "Relations (maps ?g (current ?g)) pattern = Some p" using assms(2) by (simp add: own_proxy_def)
  then show ?thesis
    using assms(1,3,4) r shutdown_loop_frame [of p _ "?g\<lparr>watchers := remove1 p (watchers ?g)\<rparr>"]
    by (simp add: doRemoveProxy_def RemoveProxy_def shutDownCheck_def log_and_answer_def writeLogEntry_def own_proxy_def
        upd_map_def Let_def)
qed

theorem refused_removal_stays_witness:
  "\<exists>nd'. doRemoveProxy follower_server (bytes_of ''/api'') (SetWriteFlag False demo_node)
       = Ret (fail follower_server 500 (CantApply ''node is not the leader''), nd')
     \<and> own_proxy ''/api'' nd' = None"
  using refused_removal_stays [of follower_server "bytes_of ''/api''" "''/api''" "SetWriteFlag False demo_node" 0
      "[''/api'' \<mapsto> 0]" "''node is not the leader''"]
  by (auto simp: follower_server_def demo_server_def own_proxy_def SetWriteFlag_def demo_node_def demo_served_def demo_gateway_def)

lemma leader_notified_flag:
  "leader_notified env conf init l nd = Ret nd' \<Longrightarrow> enableWrite nd' \<longleftrightarrow> l \<or> IsLeader conf"
  by (auto simp: leader_notified_def SetWriteFlag_def and_then_eq_Ret split: if_splits)

text \<open>The write flag follows the leadership, except on the node that is configured as the
  leader. After any sequence of notifications the flag is that of the last one; the node with
  \<open>leader: true\<close> in its configuration permits writes after every notification, also when it
  has lost the leadership.\<close>

theorem write_flag_follows_leadership:
  assumes "fold_outcome (leader_notified env conf init) (ls @ [l]) nd = Ret nd'"
  shows "enableWrite nd' \<longleftrightarrow> l \<or> IsLeader conf"
  using assms by (auto simp: fold_outcome_append and_then_eq_Ret leader_notified_flag)

theorem write_flag_follows_leadership_witness:
  "\<exists>nd'. fold_outcome (leader_notified demo_server (demo_conf\<lparr>IsLeader := True\<rparr>) True) [True, False] demo_node = Ret nd'
     \<and> enableWrite nd'"
proof -
  have "fold_outcome (leader_notified demo_server (demo_conf\<lparr>IsLeader := True\<rparr>) True) ([True] @ [False]) demo_node
      = Ret (SetWriteFlag True (SetWriteFlag True demo_node))"
    by (simp add: leader_notified_def)
  from write_flag_follows_leadership [OF this] this show ?thesis by simp
qed

subsection \<open>Every request is answered\<close>

text \<open>No management request hangs a healthy node. As long as every registered proxy has
  its goroutine waiting for the shutdown signal and no two routes share a proxy, every request
  except those about the black list returns, panics or ends the process, and a node that
  answered is still healthy; this holds whatever the raft library and the decoders answer.\<close>

theorem api_never_hangs:
  assumes "watched (nd_gateway nd)" and "call_path r \<noteq> ''/acl''"
  shows "serve_api env conf files r nd \<noteq> Stuck
    \<and> (\<forall>resp nd'. serve_api env conf files r nd = Ret (resp, nd') \<longrightarrow> watched (nd_gateway nd'))"
  using serve_api_fine [OF assms, of env conf files] by (simp add: fine_def watched_node_def)

theorem api_never_hangs_witness:
  "serve_api demo_server demo_conf (\<lambda>_. Status 404) (demo_call ''/removeProxy'' (bytes_of ''/api'')) demo_node \<noteq> Stuck"
proof -
  have "watched (nd_gateway demo_node)"
    by (auto simp: demo_node_def watched_def demo_served_def demo_gateway_def split: if_splits)
  then show ?thesis
    using api_never_hangs [of demo_node "demo_call ''/removeProxy'' (bytes_of ''/api'')" demo_server demo_conf "\<lambda>_. Status 404"]
    by (simp add: demo_call_def)
qed

subsection \<open>Adding a proxy\<close>

text \<open>C38: one request can end the gateway. A location with a pattern, a slash and a target that
  cannot be built, because a target does not parse or the balancer is unknown, makes the
  handler end the process, where it should report an error; an empty pattern panics.\<close>

theorem addProxy_ends_the_process:
  assumes "enableWrite nd" and "dec_location (cluster env) b = Inr l" and "ProxyPass l \<noteq> []"
    and "\<not> (\<forall>t \<in> set (ProxyPass l). \<exists>u. env_parse (cluster env) t = Inr u)
      \<or> BalanceMode l \<notin> {''round-robin'', ''consistence-hash''}"
  shows "(l_Pattern l = [] \<longrightarrow> doAddProxy env b nd = Panic IndexOutOfRange)
    \<and> (take 1 (l_Pattern l) = ''/'' \<longrightarrow> doAddProxy env b nd = Exit)"
proof -
  have bad: "\<exists>e. target_loop parse ts parts = Inl e" if "t \<in> set ts" "\<nexists>u. parse t = Inr u" for parse t ts parts
    using that by (induction ts arbitrary: parts) (auto split: sum.splits, metis sum.exhaust_sel)
  have "\<exists>err. NewHTTPProxy (env_parse (cluster env)) n pat (ProxyPass l) (BalanceMode l) g = Inl err" for n pat g
  proof (cases "\<forall>t \<in> set (ProxyPass l). \<exists>u. env_parse (cluster env) t = Inr u")
    case True
    then have "BalanceMode l \<notin> {''round-robin'', ''consistence-hash''}" using assms(4) by blast
    then show ?thesis
      by (auto simp: NewHTTPProxy_def Build_def factories_def split: sum.splits)
  next
    case False
    then obtain t where "t \<in> set (ProxyPass l)" "\<nexists>u. env_parse (cluster env) t = Inr u" by blast
    then have "\<exists>e. target_loop (env_parse (cluster env)) (ProxyPass l) parts = Inl e" for parts by (rule bad)
    then obtain e where "target_loop (env_parse (cluster env)) (ProxyPass l) \<lparr>part_map = Map.empty, part_alive = Map.empty,
      part_shutdown = Map.empty, part_hosts = [], part_chan = next_chan g\<rparr> = Inl e" by blast
    then show ?thesis by (simp add: NewHTTPProxy_def)
  qed
  from this [of "env_replicas (cluster env)" "l_Pattern l" "nd_gateway nd"]
  obtain err where "AddProxyWithLocation (env_parse (cluster env)) (env_replicas (cluster env)) m l (nd_gateway nd)
      = Ret (Some err, nd_gateway nd)" for m
    by (auto simp: AddProxyWithLocation_def)
  then show ?thesis
    using assms(1-3)
    by (auto simp: doAddProxy_def checkWritePermission_def validLocation_def createProxyWithLocation_def Let_def
        split: list.splits)
qed

theorem addProxy_ends_the_process_witness:
  "doAddProxy demo_server (lines_of [''/api'', ''ip-hash'', ''http://a:80'']) demo_node = Exit"
proof -
  let ?l = "\<lparr>l_Pattern = ''/api'', ProxyPass = [''http://a:80''], BalanceMode = ''ip-hash''\<rparr>"
  have "dec_location demo_env (lines_of [''/api'', ''ip-hash'', ''http://a:80'']) = Inr ?l"
    by (simp add: demo_env_def lines_of_def)
  then show ?thesis
    using addProxy_ends_the_process [of demo_node demo_server "lines_of [''/api'', ''ip-hash'', ''http://a:80'']" ?l]
    by (simp add: demo_node_def demo_server_def)
qed

end
