(* ===== verification/Startup.thy ===== *)
theory Startup
  imports Cluster
begin

text \<open>
  From the start of the process to the first elections: \<open>main\<close> (\<open>main.go\<close>), \<open>Start\<close> and
  \<open>startRouter\<close> (\<open>raft.go\<close>). Listeners (\<open>listen\<close> tells which ports are free), the raft node and
  the request to the leader come from outside. The properties say what a started node is, what
  the configuration becomes on the elected node and on its followers, and what happens when
  the node is elected again or the log is applied too early.
\<close>

subsection \<open>Starting the process\<close>

text \<open>The global variables before \<open>Start\<close>: no router, and an empty black list.\<close>

definition process_globals :: "'l gateway" where
  "process_globals =
     \<lparr>proxies = (\<lambda>_. \<lparr>HostMap = Map.empty, Pattern = [], Lb = RR (NewRoundRobin []), Alive = Map.empty,
                      Methods = Map.empty, HostsShutDown = Map.empty, Owner = None\<rparr>),
      next_proxy = 0, maps = (\<lambda>_. NewProxyMap), current = 0, next_map = 0, router = None,
      black_list = NewRadixTree, health = (\<lambda>_ _. []), watchers = [], next_chan = 0\<rparr>"

definition new_node :: "'l gateway \<Rightarrow> 'r \<Rightarrow> ('l, 'r) node" where
  "new_node g r =
     \<lparr>nd_gateway = g\<lparr>maps := (maps g)(next_map g := NewProxyMap), current := next_map g,
        next_map := Suc (next_map g)\<rparr>,
      enableWrite = False, peer_addresses = [], raft_state = r\<rparr>"

text \<open>\<open>ServeMux.Handle\<close> panics on a \<open>nil\<close> handler; a node that serves no schema ends.\<close>

definition createListener :: "(int \<Rightarrow> bool) \<Rightarrow> int \<Rightarrow> string + int" where
  "createListener listen port = (if listen port then Inr port else Inl ''listen failed'')"

definition startRouter :: "(int \<Rightarrow> bool) \<Rightarrow> CherylConfig \<Rightarrow> ('l, 'r) node \<Rightarrow> ('l, 'r) node outcome" where
  "startRouter listen conf nd =
     (let g = GetRouterInstance (RouterType_cfg conf) (nd_gateway nd) in
      if router g = None then Panic NilHandler
      else if \<not> listen (Port_cfg conf) then Exit
      else if Schema conf = ''http'' \<or> Schema conf = ''https'' then Ret (set_gateway g nd)
      else Exit)"

definition Start ::
  "(int \<Rightarrow> bool) \<Rightarrow> (CherylConfig \<Rightarrow> string + 'r) \<Rightarrow> (string \<Rightarrow> string + string) \<Rightarrow> CherylConfig \<Rightarrow> 'l gateway
   \<Rightarrow> ('l, 'r) node outcome" where
  "Start listen createRaftNode http_get conf g =
     (case createListener listen (HttpPort conf) of
        Inl e \<Rightarrow> Exit
      | Inr httpListen \<Rightarrow>
         (case createRaftNode conf of
            Inl e \<Rightarrow> Exit
          | Inr r \<Rightarrow>
              if \<not> IsLeader conf \<and> LeaderAddress conf \<noteq> [] \<and> joinRaftCluster http_get conf \<noteq> None then Exit
              else startRouter listen conf (new_node g r)))"

definition main_run ::
  "(string \<Rightarrow> string + CherylConfig option) \<Rightarrow> (int \<Rightarrow> bool) \<Rightarrow> (CherylConfig \<Rightarrow> string + 'r)
   \<Rightarrow> (string \<Rightarrow> string + string) \<Rightarrow> string \<Rightarrow> ('l, 'r) node outcome" where
  "main_run read_yaml listen createRaftNode http_get configPath =
     and_then (ReadConfig read_yaml configPath) (\<lambda>res. case res of
       Inl err \<Rightarrow> Exit
     | Inr (conf, level) \<Rightarrow>
         if CherylConfig_Validation conf \<noteq> None then Exit
         else Start listen createRaftNode http_get conf process_globals)"

lemma main_run_ready:
  assumes "main_run read_yaml listen createRaftNode http_get configPath = Ret nd"
  shows "(\<exists>conf. read_yaml configPath = Inr (Some conf) \<and> CherylConfig_Validation conf = None
      \<and> RouterType_cfg conf = ''default''
      \<and> (IsLeader conf \<or> LeaderAddress conf = [] \<or> http_get (join_url conf) = Inr ''ok''))
    \<and> \<not> enableWrite nd \<and> router (nd_gateway nd) = Some Map.empty
    \<and> Relations (maps (nd_gateway nd) (current (nd_gateway nd))) = Map.empty
    \<and> Locations (maps (nd_gateway nd) (current (nd_gateway nd))) = Map.empty
    \<and> watched (nd_gateway nd) \<and> registered (current (nd_gateway nd)) (nd_gateway nd)
    \<and> acl_fresh (black_list (nd_gateway nd))"
proof -
  obtain conf where conf: "read_yaml configPath = Inr (Some conf)" "CherylConfig_Validation conf = None"
    "Start listen createRaftNode http_get conf process_globals = Ret nd"
    using assms by (auto simp: main_run_def ReadConfig_def split: sum.splits option.splits if_splits)
  then obtain r where start: "IsLeader conf \<or> LeaderAddress conf = [] \<or> joinRaftCluster http_get conf = None"
    "startRouter listen conf (new_node process_globals r) = Ret nd"
    by (auto simp: Start_def createListener_def split: sum.splits if_splits)
  then have nd: "RouterType_cfg conf = ''default''"
    "nd = set_gateway ((nd_gateway (new_node process_globals r))\<lparr>router := Some Map.empty\<rparr>) (new_node process_globals r)"
    by (auto simp: startRouter_def Let_def GetRouterInstance_def new_node_def process_globals_def split: if_splits)
  have "IsLeader conf \<or> LeaderAddress conf = [] \<or> http_get (join_url conf) = Inr ''ok''"
    using start(1) by (auto simp: joinRaftCluster_def split: sum.splits if_splits)
  moreover have "watched (nd_gateway nd)" "registered (current (nd_gateway nd)) (nd_gateway nd)"
    "acl_fresh (black_list (nd_gateway nd))"
    using acl.new_invar
    by (simp_all add: nd(2) new_node_def process_globals_def NewProxyMap_def watched_def registered_def)
  ultimately show ?thesis
    using conf nd(1) by (auto simp: nd(2) new_node_def process_globals_def NewProxyMap_def)
qed


text \<open>The configuration of the README as the leader of a cluster.\<close>

definition leader_conf :: CherylConfig where
  "leader_conf = demo_conf\<lparr>Locations_cfg := [\<lparr>l_Pattern = ''/api'', ProxyPass = [''http://a:80''],
     BalanceMode = ''round-robin''\<rparr>], RouterType_cfg := ''default'', IsLeader := True\<rparr>"


subsection \<open>The first election\<close>

text \<open>The entry of the log that announces a location.\<close>

definition location_entry :: "('m, 'l) cluster_env \<Rightarrow> Location \<Rightarrow> bytes" where
  "location_entry env l = LogEntry_Encode \<lparr>Opt = 1, Data = enc_location env l\<rparr>"

text \<open>A location that can be built and that survives the encoding.\<close>

definition announced_ok :: "('m, 'l) cluster_env \<Rightarrow> Location \<Rightarrow> bool" where
  "announced_ok env l \<longleftrightarrow> location_ok env l \<and> dec_location env (enc_location env l) = Inr l"

text \<open>The state machine of the elected node skips the entry, because the route is there; so the
  handler's own change is all that happens, whether the cluster commits the entry or not.\<close>

lemma createProxyWithLocation_ok:
  assumes "announced_ok (cluster env) l" "router (nd_gateway nd) = Some routes"
    "registered (current (nd_gateway nd)) (nd_gateway nd)"
  obtains nd' where "createProxyWithLocation env l nd = Ret nd'" "enableWrite nd' = enableWrite nd"
    "AddProxyWithLocation (env_parse (cluster env)) (env_replicas (cluster env)) (current (nd_gateway nd)) l (nd_gateway nd)
       = Ret (None, nd_gateway nd')"
proof -
  let ?g = "nd_gateway nd" and ?e = "location_entry (cluster env) l"
  obtain g1 where g1: "AddProxyWithLocation (env_parse (cluster env)) (env_replicas (cluster env)) (current ?g) l ?g = Ret (None, g1)"
    "Relations (maps g1 (current ?g)) = (Relations (maps ?g (current ?g)))(l_Pattern l \<mapsto> next_proxy ?g)" "current g1 = current ?g"
    using AddProxyWithLocation_ok [OF _ assms(2,3)] assms(1) unfolding announced_ok_def by blast
  then have skip: "FSM_Apply (cluster env) ?e g1 = Ret (None, g1)"
    using assms(1) by (simp add: location_entry_def FSM_Apply_Encode FSM_doNewHttpProxy_def announced_ok_def)
  obtain err r' where r: "raft_Apply env (raft_state nd) ?e = (err, r')" by (cases "raft_Apply env (raft_state nd) ?e")
  have "createProxyWithLocation env l nd = Ret ((set_gateway g1 nd)\<lparr>raft_state := r'\<rparr>)"
    using g1(1) skip r
    by (cases err) (simp_all add: createProxyWithLocation_def writeLogEntry_def location_entry_def set_gateway_def)
  with g1(1) show thesis by (intro that [of "(set_gateway g1 nd)\<lparr>raft_state := r'\<rparr>"]) simp_all
qed

lemma createProxy_ok:
  assumes "\<And>l. l \<in> set (Locations_cfg conf) \<Longrightarrow> announced_ok (cluster env) l" "router (nd_gateway nd) = Some routes"
    "registered (current (nd_gateway nd)) (nd_gateway nd)"
  shows "\<exists>nd'. createProxy env conf nd = Ret nd' \<and> enableWrite nd' = enableWrite nd
    \<and> restore_locations (cluster env) (current (nd_gateway nd)) (Locations_cfg conf) (nd_gateway nd) = Ret (nd_gateway nd')"
  using assms unfolding createProxy_def
proof (induction "Locations_cfg conf" arbitrary: conf nd routes)
  case (Cons l ls)
  let ?g = "nd_gateway nd"
  have l: "announced_ok (cluster env) l" using Cons.prems(1) Cons.hyps(2) by (metis list.set_intros(1))
  obtain nd1 where nd1: "createProxyWithLocation env l nd = Ret nd1" "enableWrite nd1 = enableWrite nd"
    "AddProxyWithLocation (env_parse (cluster env)) (env_replicas (cluster env)) (current ?g) l ?g = Ret (None, nd_gateway nd1)"
    by (rule createProxyWithLocation_ok [OF l Cons.prems(2,3)])
  have g1: "registered (current ?g) (nd_gateway nd1)" "current (nd_gateway nd1) = current ?g"
    "router (nd_gateway nd1) = Some (routes(l_Pattern l \<mapsto> next_proxy ?g))"
    using AddProxyWithLocation_ok [OF _ Cons.prems(2,3), of "cluster env" l "env_replicas (cluster env)"] l nd1(3)
    unfolding announced_ok_def by auto
  have rest: "ls = Locations_cfg (conf\<lparr>Locations_cfg := ls\<rparr>)" by simp
  obtain nd' where "fold_outcome (createProxyWithLocation env) ls nd1 = Ret nd'" "enableWrite nd' = enableWrite nd1"
    "restore_locations (cluster env) (current ?g) ls (nd_gateway nd1) = Ret (nd_gateway nd')"
    using Cons.hyps(1) [OF rest, of nd1] Cons.prems(1) Cons.hyps(2) [symmetric] g1 by auto
  then show ?case using nd1 Cons.hyps(2) [symmetric] by simp
qed simp

text \<open>A follower adds the locations it does not have.\<close>

lemma follower_locations_ok:
  assumes "\<And>l. l \<in> set ls \<Longrightarrow> announced_ok env l" "router g = Some routes" "registered (current g) g"
    and "\<And>k. k \<in> dom (Relations (maps g (current g))) \<Longrightarrow> routes k = Relations (maps g (current g)) k"
  shows "\<exists>g' routes'. fold_outcome (\<lambda>l g. and_then (FSM_Apply env (location_entry env l) g) (\<lambda>(err, g'). Ret g')) ls g = Ret g'
    \<and> current g' = current g \<and> router g' = Some routes'
    \<and> dom (Relations (maps g' (current g))) = dom (Relations (maps g (current g))) \<union> l_Pattern ` set ls
    \<and> (\<forall>k \<in> dom (Relations (maps g' (current g))). routes' k = Relations (maps g' (current g)) k)"
  using assms
proof (induction ls arbitrary: g routes)
  case (Cons l ls)
  let ?m = "current g"
  have l: "announced_ok env l" using Cons.prems(1) by simp
  obtain g1 routes1 where g1: "FSM_Apply env (location_entry env l) g = Ret (None, g1)" "current g1 = ?m" "registered ?m g1"
    "router g1 = Some routes1" "dom (Relations (maps g1 ?m)) = insert (l_Pattern l) (dom (Relations (maps g ?m)))"
    "\<And>k. k \<in> dom (Relations (maps g1 ?m)) \<Longrightarrow> routes1 k = Relations (maps g1 ?m) k"
  proof (cases "Relations (maps g ?m) (l_Pattern l) = None")
    case True
    obtain g1 where "AddProxyWithLocation (env_parse env) (env_replicas env) ?m l g = Ret (None, g1)" "registered ?m g1"
      "Relations (maps g1 ?m) = (Relations (maps g ?m))(l_Pattern l \<mapsto> next_proxy g)"
      "router g1 = Some (routes(l_Pattern l \<mapsto> next_proxy g))" "current g1 = ?m"
      using AddProxyWithLocation_ok [OF _ Cons.prems(2,3)] l unfolding announced_ok_def by blast
    then show thesis
      using True l Cons.prems(4)
      by (intro that [of g1 "routes(l_Pattern l \<mapsto> next_proxy g)"]) (auto simp: location_entry_def FSM_Apply_Encode FSM_doNewHttpProxy_def announced_ok_def)
  next
    case False
    then show thesis
      using l Cons.prems
      by (intro that [of g routes]) (auto simp: location_entry_def FSM_Apply_Encode FSM_doNewHttpProxy_def announced_ok_def)
  qed
  then show ?case using Cons.IH [of g1 routes1] Cons.prems(1) by auto
qed auto

text \<open>Every registered route is one that the router finds.\<close>

definition routed :: "'l gateway \<Rightarrow> bool" where
  "routed g \<longleftrightarrow> (\<exists>routes. router g = Some routes
     \<and> (\<forall>k \<in> dom (Relations (maps g (current g))). routes k = Relations (maps g (current g)) k))"


lemma demo_announced: "\<forall>l \<in> set (Locations_cfg leader_conf). announced_ok demo_env l"
  by (auto simp: leader_conf_def announced_ok_def location_ok_def demo_env_def demo_parse_def lines_of_def)


subsection \<open>The next elections\<close>

definition configured_hosts :: "('m, 'l) cluster_env \<Rightarrow> Location \<Rightarrow> string set" where
  "configured_hosts env l = {GetHost u |t u. t \<in> set (ProxyPass l) \<and> env_parse env t = Inr u}"

lemma target_loop_hosts:
  "target_loop parse ts parts = Inr r \<Longrightarrow>
   dom (part_map r) = dom (part_map parts) \<union> {GetHost u |t u. t \<in> set ts \<and> parse t = Inr u}"
  by (induction ts arbitrary: parts) (auto simp: Let_def split: sum.splits)

text \<open>What a new proxy is and what it leaves alone.\<close>

lemma AddProxyWithLocation_fresh:
  assumes "AddProxyWithLocation (env_parse env) n m l g = Ret (None, g')"
  shows "next_proxy g' = Suc (next_proxy g)"
    and "Relations (maps g' m) = (Relations (maps g m))(l_Pattern l \<mapsto> next_proxy g)"
    and "Methods (proxies g' (next_proxy g)) = Map.empty"
    and "dom (HostMap (proxies g' (next_proxy g))) = configured_hosts env l"
    and "p \<noteq> next_proxy g \<Longrightarrow> proxies g' p = proxies g p \<and> health g' p = health g p"
    and "set (watchers g') = insert (next_proxy g) (set (watchers g))"
proof -
  obtain parts lb routes where parts: "target_loop (env_parse env) (ProxyPass l)
      \<lparr>part_map = Map.empty, part_alive = Map.empty, part_shutdown = Map.empty, part_hosts = [], part_chan = next_chan g\<rparr> = Inr parts"
    "Build n (BalanceMode l) (part_hosts parts) = Inr lb" "router g = Some routes"
    using assms
    by (auto simp: AddProxyWithLocation_def NewHTTPProxy_def AddRelations_def upd_proxy_def upd_map_def and_then_eq_Ret
        Let_def split: sum.splits option.splits)
  note defs = AddProxyWithLocation_def NewHTTPProxy_def AddRelations_def HealthCheck_def upd_proxy_def upd_map_def
  have hosts: "dom (part_map parts) = configured_hosts env l"
    using target_loop_hosts [OF parts(1)] by (simp add: configured_hosts_def)
  note g' = assms [symmetric]
  show "next_proxy g' = Suc (next_proxy g)"
    and "Relations (maps g' m) = (Relations (maps g m))(l_Pattern l \<mapsto> next_proxy g)"
    and "Methods (proxies g' (next_proxy g)) = Map.empty"
    and "dom (HostMap (proxies g' (next_proxy g))) = configured_hosts env l"
    and "p \<noteq> next_proxy g \<Longrightarrow> proxies g' p = proxies g p \<and> health g' p = health g p"
    and "set (watchers g') = insert (next_proxy g) (set (watchers g))"
    using g' parts hosts by (simp_all add: defs Let_def)
qed

lemma restore_locations_fresh:
  assumes "restore_locations env m ls g = Ret g'" "distinct (map l_Pattern ls)"
  shows "(\<forall>p < next_proxy g. proxies g' p = proxies g p \<and> health g' p = health g p)
    \<and> next_proxy g \<le> next_proxy g' \<and> set (watchers g) \<subseteq> set (watchers g')
    \<and> (\<forall>k. k \<notin> l_Pattern ` set ls \<longrightarrow> Relations (maps g' m) k = Relations (maps g m) k)
    \<and> (\<forall>l \<in> set ls. \<exists>q. Relations (maps g' m) (l_Pattern l) = Some q \<and> next_proxy g \<le> q
         \<and> Methods (proxies g' q) = Map.empty \<and> dom (HostMap (proxies g' q)) = configured_hosts env l)"
  using assms
proof (induction ls arbitrary: g)
  case (Cons l ls)
  obtain g1 where g1: "AddProxyWithLocation (env_parse env) (env_replicas env) m l g = Ret (None, g1)"
    "restore_locations env m ls g1 = Ret g'"
    using Cons.prems(1) by (auto simp: and_then_eq_Ret split: if_splits)
  note new = AddProxyWithLocation_fresh [OF g1(1)]
  note IH = Cons.IH [OF g1(2)]
  have "Relations (maps g' m) (l_Pattern l) = Some (next_proxy g)"
    "proxies g' (next_proxy g) = proxies g1 (next_proxy g)"
    using IH Cons.prems(2) new(1,2) by auto
  then have "\<exists>q. Relations (maps g' m) (l_Pattern l) = Some q \<and> next_proxy g \<le> q
      \<and> Methods (proxies g' q) = Map.empty \<and> dom (HostMap (proxies g' q)) = configured_hosts env l"
    using new(3,4) by auto
  moreover have "\<forall>l \<in> set ls. \<exists>q. Relations (maps g' m) (l_Pattern l) = Some q \<and> next_proxy g \<le> q
      \<and> Methods (proxies g' q) = Map.empty \<and> dom (HostMap (proxies g' q)) = configured_hosts env l"
    using IH Cons.prems(2) new(1) by fastforce
  moreover have "\<forall>k. k \<notin> l_Pattern ` set (l # ls) \<longrightarrow> Relations (maps g' m) k = Relations (maps g m) k"
    using IH Cons.prems(2) new(2) by auto
  moreover have "\<forall>p < next_proxy g. proxies g' p = proxies g p \<and> health g' p = health g p"
    using IH Cons.prems(2) new(1,5) by auto
  moreover have "next_proxy g \<le> next_proxy g'" "set (watchers g) \<subseteq> set (watchers g')"
    using IH Cons.prems(2) new(1,6) by auto
  ultimately show ?case by simp
qed simp

text \<open>Every later election throws the configuration away again. In the process that started
  without a data directory, a node that is elected once more replaces the proxy of every
  configured location: hosts that were added and limits that were set at run time are gone on
  this node, while the health checks of the old proxy go on for ever.\<close>

theorem reelection_replaces_proxies:
  assumes "leader_notified env conf False leader nd = Ret nd'" and "leader \<or> IsLeader conf"
    and "\<forall>l \<in> set (Locations_cfg conf). announced_ok (cluster env) l" "distinct (map l_Pattern (Locations_cfg conf))"
    and "routed (nd_gateway nd)" "registered (current (nd_gateway nd)) (nd_gateway nd)"
    and "l \<in> set (Locations_cfg conf)" "own_proxy (l_Pattern l) nd = Some p"
  shows "\<exists>q. own_proxy (l_Pattern l) nd' = Some q \<and> q \<noteq> p
    \<and> dom (HostMap (proxies (nd_gateway nd') q)) = configured_hosts (cluster env) l
    \<and> Methods (proxies (nd_gateway nd') q) = Map.empty
    \<and> health (nd_gateway nd') p = health (nd_gateway nd) p
    \<and> (p \<in> set (watchers (nd_gateway nd)) \<longrightarrow> p \<in> set (watchers (nd_gateway nd')))"
proof -
  let ?g = "nd_gateway nd" and ?ls = "Locations_cfg conf"
  obtain routes where routes: "router ?g = Some routes" using assms(5) by (auto simp: routed_def)
  obtain nd1 where nd1: "createProxy env conf nd = Ret nd1"
    "restore_locations (cluster env) (current ?g) ?ls ?g = Ret (nd_gateway nd1)"
    using createProxy_ok [OF _ routes assms(6), of conf env] assms(3) by auto
  then have nd': "nd_gateway nd' = nd_gateway nd1"
    using assms(1,2) by (auto simp: leader_notified_def SetWriteFlag_def)
  have "current (nd_gateway nd1) = current ?g"
    using restore_locations_ok [OF _ routes assms(6), of ?ls "cluster env"] assms(3) nd1(2)
    unfolding announced_ok_def by auto
  moreover have "p < next_proxy ?g" using assms(6,8) by (auto simp: registered_def own_proxy_def)
  ultimately show ?thesis
    using restore_locations_fresh [OF nd1(2) assms(4)] assms(7) unfolding own_proxy_def nd' by fastforce
qed

theorem reelection_replaces_proxies_witness:
  "\<exists>nd' q. leader_notified demo_server leader_conf False True demo_node = Ret nd' \<and> own_proxy ''/api'' nd' = Some q
    \<and> q \<noteq> 0 \<and> health (nd_gateway nd') 0 ''b:80'' = [1]"
proof -
  have routed: "routed demo_served" by (auto simp: routed_def demo_served_def demo_gateway_def)
  have "demo_node = set_gateway demo_served demo_node" by (simp add: set_gateway_def demo_node_def)
  then obtain nd' where nd': "leader_notified demo_server leader_conf False True demo_node = Ret nd'"
    using createProxy_ok [of leader_conf demo_server demo_node "[''/api'' \<mapsto> 0]"] demo_announced demo_registered
    by (auto simp: leader_notified_def demo_server_def demo_node_def demo_served_def demo_gateway_def)
  have "own_proxy ''/api'' demo_node = Some 0" "health (nd_gateway demo_node) 0 ''b:80'' = [1]"
    by (simp_all add: own_proxy_def demo_node_def demo_served_def demo_gateway_def)
  then show ?thesis
    using reelection_replaces_proxies [OF nd', of "\<lparr>l_Pattern = ''/api'', ProxyPass = [''http://a:80''],
       BalanceMode = ''round-robin''\<rparr>" 0] nd' demo_announced routed demo_registered
    by (fastforce simp: leader_conf_def demo_server_def demo_node_def)
qed

subsection \<open>The log before the router\<close>

text \<open>A log that is applied too early ends the process. \<open>Start\<close> creates the raft node, which
  applies the log, before it creates the router; until then an entry that announces a location
  makes the state machine dereference the missing router.\<close>

theorem early_log_entry_panics:
  fixes env :: "('m, 'l) cluster_env"
  assumes "announced_ok env l"
  shows "FSM_Apply env (location_entry env l) (nd_gateway (new_node process_globals r)) = Panic NilDereference"
proof -
  let ?g = "nd_gateway (new_node process_globals r) :: 'l gateway"
  obtain g' where "NewHTTPProxy (env_parse env) (env_replicas env) (l_Pattern l) (ProxyPass l) (BalanceMode l)
      ?g = Inr (next_proxy ?g, g')"
    "router g' = router ?g"
    using NewHTTPProxy_ok [of env l "env_replicas env" ?g] assms
    unfolding announced_ok_def by blast
  then show ?thesis
    using assms
    by (simp add: location_entry_def FSM_Apply_Encode FSM_doNewHttpProxy_def announced_ok_def AddProxyWithLocation_def
        AddRelations_def new_node_def process_globals_def NewProxyMap_def upd_map_def upd_proxy_def)
qed

theorem early_log_entry_panics_witness:
  "FSM_Apply demo_env (location_entry demo_env (hd (Locations_cfg leader_conf)))
     (nd_gateway (new_node process_globals ())) = Panic NilDereference"
  using demo_announced by (intro early_log_entry_panics) (simp add: leader_conf_def)

end
