(* ===== verification/Replicas.thy ===== *)
theory Replicas
  imports Startup
begin

text \<open>
  The routing table as a replicated data type. \<open>view\<close> is what the nodes share: the hosts of
  every route and the configured locations; heap addresses, channels, balancers, limiters and
  the health of hosts are local. \<open>spec_apply\<close> says what a log entry does to the view. The locale
  \<open>replicated_machine\<close> holds the contract between both (the operations refine their
  specification, local steps do not touch the view) and what follows for any number of nodes;
  it is interpreted on the state machine of the program with client requests, health checks
  and balancer changes as local steps.
\<close>

subsection \<open>Replicated machines\<close>

text \<open>A run applies the entries of a log in their order, with local steps anywhere.\<close>

inductive run :: "('e \<Rightarrow> 's \<Rightarrow> 's outcome) \<Rightarrow> ('s \<Rightarrow> 's \<Rightarrow> bool) \<Rightarrow> 'e list \<Rightarrow> 's \<Rightarrow> 's \<Rightarrow> bool"
  for app :: "'e \<Rightarrow> 's \<Rightarrow> 's outcome" and loc :: "'s \<Rightarrow> 's \<Rightarrow> bool" where
  run_done: "run app loc [] s s"
| run_local: "loc s s' \<Longrightarrow> run app loc es s' t \<Longrightarrow> run app loc es s t"
| run_apply: "app e s = Ret s' \<Longrightarrow> run app loc es s' t \<Longrightarrow> run app loc (e # es) s t"

locale replicated_machine =
  fixes good :: "'s \<Rightarrow> bool" and view :: "'s \<Rightarrow> 'v"
    and app :: "'e \<Rightarrow> 's \<Rightarrow> 's outcome" and spec :: "'e \<Rightarrow> 'v \<Rightarrow> 'v outcome" and loc :: "'s \<Rightarrow> 's \<Rightarrow> bool"
  assumes app_refines: "good s \<Longrightarrow> app e s = Ret s' \<Longrightarrow> good s' \<and> spec e (view s) = Ret (view s')"
    and local_hidden: "good s \<Longrightarrow> loc s s' \<Longrightarrow> good s' \<and> view s' = view s"
begin

lemma run_refines:
  "run app loc es s t \<Longrightarrow> good s \<Longrightarrow> good t \<and> fold_outcome spec es (view s) = Ret (view t)"
proof (induction rule: run.induct)
  case (run_local s s' es t)
  then show ?case using local_hidden by metis
next
  case (run_apply e s s' es t)
  then show ?case using app_refines by (metis and_then.simps(1) fold_outcome.simps(2))
qed simp

lemma run_agree:
  assumes "run app loc es s t" "run app loc es s2 t2" "good s" "good s2" "view s = view s2"
  shows "view t = view t2"
  using run_refines [OF assms(1,3)] run_refines [OF assms(2,4)] assms(5) by simp

end

subsection \<open>The view\<close>

record routes_view =
  v_hosts :: "string \<Rightarrow> (string \<Rightarrow> URL option) option"
  v_locations :: "string \<Rightarrow> Location option"

definition view :: "'l gateway \<Rightarrow> routes_view" where
  "view g = \<lparr>v_hosts = (\<lambda>k. map_option (\<lambda>p. HostMap (proxies g p)) (Relations (maps g (current g)) k)),
     v_locations = Locations (maps g (current g))\<rparr>"

text \<open>The hosts of a list of targets, unless one of them does not parse.\<close>

fun target_hosts ::
  "(string \<Rightarrow> string + URL) \<Rightarrow> string list \<Rightarrow> (string \<Rightarrow> URL option) \<Rightarrow> (string \<Rightarrow> URL option) option" where
  "target_hosts parse [] m = Some m"
| "target_hosts parse (t # ts) m =
     (case parse t of Inl e \<Rightarrow> None | Inr u \<Rightarrow> target_hosts parse ts (m(GetHost u \<mapsto> u)))"

definition spec_new_proxy :: "('m, 'l) cluster_env \<Rightarrow> Location \<Rightarrow> routes_view \<Rightarrow> routes_view" where
  "spec_new_proxy env l v =
     (case target_hosts (env_parse env) (ProxyPass l) Map.empty of
        None \<Rightarrow> v
      | Some hosts \<Rightarrow>
          if BalanceMode l \<in> {''round-robin'', ''consistence-hash''}
          then \<lparr>v_hosts = (v_hosts v)(l_Pattern l \<mapsto> hosts), v_locations = (v_locations v)(l_Pattern l \<mapsto> l)\<rparr>
          else v)"

definition spec_remove_proxy :: "string \<Rightarrow> routes_view \<Rightarrow> routes_view" where
  "spec_remove_proxy pattern v =
     (if v_hosts v pattern = None then v
      else \<lparr>v_hosts = (v_hosts v)(pattern := None), v_locations = (v_locations v)(pattern := None)\<rparr>)"

definition spec_set_hosts ::
  "string \<Rightarrow> ((string \<Rightarrow> URL option) \<Rightarrow> (string \<Rightarrow> URL option)) \<Rightarrow> routes_view \<Rightarrow> routes_view" where
  "spec_set_hosts pattern f v = v\<lparr>v_hosts := (v_hosts v)(pattern := map_option f (v_hosts v pattern))\<rparr>"

definition spec_apply :: "('m, 'l) cluster_env \<Rightarrow> LogEntry \<Rightarrow> routes_view \<Rightarrow> routes_view outcome" where
  "spec_apply env e v =
     (if Opt e = 1 then
        (case dec_location env (Data e) of
           Inl _ \<Rightarrow> Ret v
         | Inr l \<Rightarrow> Ret (if v_hosts v (l_Pattern l) \<noteq> None then v else spec_new_proxy env l v))
      else if Opt e = 4 then Ret (spec_remove_proxy (string_of (Data e)) v)
      else if Opt e = 5 then
        (case dec_host env (Data e) of
           Inl _ \<Rightarrow> Ret v
         | Inr l \<Rightarrow>
             if v_hosts v (host_Pattern l) = None then Panic NilDereference
             else Ret (spec_set_hosts (host_Pattern l) (\<lambda>m. m(host_Host l := None)) v))
      else if Opt e = 6 then
        (case dec_host env (Data e) of
           Inl _ \<Rightarrow> Ret v
         | Inr l \<Rightarrow>
            (case env_parse env (host_Host l) of
               Inl _ \<Rightarrow> Ret v
             | Inr u \<Rightarrow> Ret (spec_set_hosts (host_Pattern l) (\<lambda>m. m(GetHost u \<mapsto> u)) v)))
      else Ret v)"

subsection \<open>The invariant\<close>

text \<open>Every host of a registered proxy has a health check that can be stopped.\<close>

definition stoppable :: "'l gateway \<Rightarrow> proxy_ref \<Rightarrow> string \<Rightarrow> bool" where
  "stoppable g p h \<longleftrightarrow> (\<exists>c. HostsShutDown (proxies g p) h = Some c \<and> c \<in> set (health g p h))"

definition serviced :: "'l gateway \<Rightarrow> bool" where
  "serviced g \<longleftrightarrow> (\<forall>k p h. Relations (maps g (current g)) k = Some p \<longrightarrow> HostMap (proxies g p) h \<noteq> None \<longrightarrow> stoppable g p h)"

definition good_gateway :: "'l gateway \<Rightarrow> bool" where
  "good_gateway g \<longleftrightarrow> watched g \<and> registered (current g) g \<and> router g \<noteq> None \<and> serviced g"

text \<open>A change that keeps the routes, the hosts and what can be stopped.\<close>

definition same_routes :: "'l gateway \<Rightarrow> 'l gateway \<Rightarrow> bool" where
  "same_routes g g' \<longleftrightarrow> current g' = current g \<and> watchers g' = watchers g \<and> next_proxy g' = next_proxy g
     \<and> router g' = router g
     \<and> Relations (maps g' (current g)) = Relations (maps g (current g))
     \<and> Locations (maps g' (current g)) = Locations (maps g (current g))
     \<and> (\<forall>p. HostMap (proxies g' p) = HostMap (proxies g p) \<and> Pattern (proxies g' p) = Pattern (proxies g p)
          \<and> Owner (proxies g' p) = Owner (proxies g p))
     \<and> (\<forall>p h. stoppable g p h \<longrightarrow> stoppable g' p h)"

lemma same_routes_keeps:
  assumes "same_routes g g'"
  shows "view g' = view g" and "good_gateway g \<Longrightarrow> good_gateway g'"
  using assms
  by (simp_all add: same_routes_def view_def good_gateway_def watched_def registered_def serviced_def)

lemma same_routes_refl [simp]: "same_routes g g"
  by (simp add: same_routes_def)

lemma same_routes_trans: "same_routes g g' \<Longrightarrow> same_routes g' g'' \<Longrightarrow> same_routes g g''"
  by (simp add: same_routes_def)

lemma same_routes_upd_proxy:
  "(\<And>h. HostMap (f h) = HostMap h \<and> Pattern (f h) = Pattern h \<and> Owner (f h) = Owner h \<and> HostsShutDown (f h) = HostsShutDown h)
   \<Longrightarrow> same_routes g (upd_proxy p f g)"
  by (auto simp: same_routes_def stoppable_def upd_proxy_def)

lemma same_routes_record_limiter: "same_routes g (record_limiter m pat i g)"
  by (simp add: same_routes_def stoppable_def) (simp add: record_limiter_def upd_map_def)

lemma same_routes_black_list [simp]: "same_routes g (g\<lparr>black_list := t\<rparr>)"
  by (simp add: same_routes_def stoppable_def)

subsection \<open>Local steps\<close>

text \<open>What a node does without the log: it serves a request, a health check ticks, and the
  handler for the balance mode, which writes no log entry, changes a balancer.\<close>

inductive local_step :: "('m, 'l) rate_pkg \<Rightarrow> 'l gateway \<Rightarrow> 'l gateway \<Rightarrow> bool" for rt where
  local_request: "rate w = rt \<Longrightarrow> DefaultRouter_ServeHTTP w r req resp g = Ret (resp', g') \<Longrightarrow> local_step rt g g'"
| local_tick: "healthCheck_tick p h c b1 b2 g = Ret g' \<Longrightarrow> local_step rt g g'"
| local_change: "ChangeLb n order p mode g = (err, g') \<Longrightarrow> local_step rt g g'"

lemma invaildToken_same: "invaildToken rt now p path g = Ret (err, g') \<Longrightarrow> same_routes g g'"
  by (auto simp: invaildToken_def configRate_def Let_def split: option.splits sum.splits if_splits prod.splits
      intro!: same_routes_upd_proxy same_routes_trans [OF same_routes_upd_proxy same_routes_record_limiter])

lemma balance_and_forward_same:
  assumes "balance_and_forward env p req path w g = Ret (w', g')"
  shows "same_routes g g'"
proof -
  let ?g = "\<lambda>lb. upd_proxy p (\<lambda>h. h\<lparr>Lb := lb\<rparr>) g"
  obtain res lb where res: "Balancer_Balance (GetIP (RemoteAddr req)) (Lb (proxies g p)) = Ret (res, lb)"
    using assms by (auto simp: balance_and_forward_def and_then_eq_Ret)
  then have "g' = ?g lb \<or> (\<exists>host. g' = upd_proxy p (\<lambda>h. h\<lparr>Lb := Balancer_Done host (Balancer_Inc host (Lb h))\<rparr>) (?g lb))"
    using assms by (cases res) (auto simp: balance_and_forward_def Let_def split: option.splits)
  then show ?thesis
    by (auto intro!: same_routes_upd_proxy same_routes_trans [OF same_routes_upd_proxy same_routes_upd_proxy])
qed

lemma limited_and_forwarded_same:
  assumes "and_then (invaildToken rt now p path g) (\<lambda>(err, g). case err of
      Some e \<Rightarrow> Ret (v e, g) | None \<Rightarrow> balance_and_forward env p req path w g) = Ret (w', g')"
  shows "same_routes g g'"
proof -
  obtain err g1 where g1: "invaildToken rt now p path g = Ret (err, g1)" using assms by (auto simp: and_then_eq_Ret)
  show ?thesis
  proof (cases err)
    case None
    then have "balance_and_forward env p req path w g1 = Ret (w', g')" using assms g1 by simp
    with invaildToken_same [OF g1] show ?thesis by (blast intro: same_routes_trans dest: balance_and_forward_same)
  next
    case (Some e)
    then show ?thesis using assms g1 invaildToken_same [OF g1] by simp
  qed
qed

lemma ServeHTTP_same:
  assumes "DefaultRouter_ServeHTTP env r req w g = Ret (w', g')"
  shows "same_routes g g'"
proof -
  obtain deny where deny: "RadixTree_AccessControl (black_list g) (RemoteIp req) = Ret deny"
    using assms by (auto simp: DefaultRouter_ServeHTTP_def and_then_eq_Ret)
  show ?thesis
  proof (cases deny)
    case False
    then obtain err req1 w1 where chain: "ExecuteFilterChain (filter_chain env) (req, w) = Ret (err, req1, w1)"
      using assms deny by (auto simp: DefaultRouter_ServeHTTP_def and_then_eq_Ret)
    show ?thesis
      using assms False deny chain limited_and_forwarded_same
      by (cases err; cases "DefaultRouter_Route r (Path req1)") (auto simp: DefaultRouter_ServeHTTP_def)
  qed (use assms deny in \<open>auto simp: DefaultRouter_ServeHTTP_def\<close>)
qed

lemma health_tick_same:
  "health_tick b1 b2 host h = Ret h' \<Longrightarrow> HostMap h' = HostMap h \<and> Pattern h' = Pattern h \<and> Owner h' = Owner h
     \<and> HostsShutDown h' = HostsShutDown h"
  by (auto simp: health_tick_def SetAlive_def and_then_eq_Ret split: if_splits)

lemma healthCheck_tick_same:
  assumes "healthCheck_tick p host c b1 b2 g = Ret g'"
  shows "same_routes g g'"
proof (cases "c \<in> set (health g p host)")
  case True
  then obtain h where h: "health_tick b1 b2 host (proxies g p) = Ret h"
    "g' = (g\<lparr>proxies := (proxies g)(p := h)\<rparr>)\<lparr>health := (health g)(p := (health g p)(host :=
       (case HostsShutDown h host of None \<Rightarrow> c | Some c' \<Rightarrow> c') # remove1 c (health g p host)))\<rparr>"
    using assms by (auto simp: healthCheck_tick_def and_then_eq_Ret Let_def)
  note keep = health_tick_same [OF h(1)]
  have "stoppable g' q x" if "stoppable g q x" for q x
    using that keep unfolding stoppable_def h(2) by auto
  then show ?thesis
    using keep by (simp add: same_routes_def) (simp add: h(2))
next
  case False
  then show ?thesis using assms by (simp add: healthCheck_tick_def)
qed

lemma ChangeLb_same: "ChangeLb n order p mode g = (err, g') \<Longrightarrow> same_routes g g'"
  by (auto simp: ChangeLb_def split: sum.splits intro: same_routes_upd_proxy)

lemma local_step_same: "local_step rt g g' \<Longrightarrow> same_routes g g'"
  by (erule local_step.cases) (auto dest: ServeHTTP_same healthCheck_tick_same ChangeLb_same)

subsection \<open>A new proxy\<close>

lemma target_loop_view:
  "(case target_loop parse ts parts of
      Inl e \<Rightarrow> target_hosts parse ts (part_map parts) = None
    | Inr r \<Rightarrow> target_hosts parse ts (part_map parts) = Some (part_map r)
        \<and> (dom (part_map parts) \<subseteq> dom (part_shutdown parts) \<longrightarrow> dom (part_map r) \<subseteq> dom (part_shutdown r)))"
proof (induction ts arbitrary: parts)
  case (Cons t ts)
  show ?case
  proof (cases "parse t")
    case (Inr u)
    let ?parts = "\<lparr>part_map = (part_map parts)(GetHost u \<mapsto> u), part_alive = (part_alive parts)(GetHost u \<mapsto> True),
      part_shutdown = (part_shutdown parts)(GetHost u \<mapsto> part_chan parts),
      part_hosts = part_hosts parts @ [GetHost u], part_chan = Suc (part_chan parts)\<rparr>"
    have "dom (part_map parts) \<subseteq> dom (part_shutdown parts) \<Longrightarrow> dom (part_map ?parts) \<subseteq> dom (part_shutdown ?parts)" by auto
    then show ?thesis
      using Cons.IH [of ?parts] Inr by (cases "target_loop parse ts ?parts") (simp_all add: Let_def)
  qed simp
qed simp

text \<open>The proxy that is built when the targets parse and the mode is known.\<close>

definition built :: "proxy_parts \<Rightarrow> Balancer \<Rightarrow> Location \<Rightarrow> 'l gateway \<Rightarrow> 'l gateway" where
  "built parts lb l g =
     HealthCheck (next_proxy g)
       (g\<lparr>next_proxy := Suc (next_proxy g), watchers := next_proxy g # watchers g, next_chan := part_chan parts,
          proxies := (proxies g)(next_proxy g :=
            \<lparr>HostMap = part_map parts, Pattern = l_Pattern l, Lb = lb, Alive = part_alive parts,
             Methods = Map.empty, HostsShutDown = part_shutdown parts, Owner = Some (current g)\<rparr>),
          maps := (maps g)(current g := (maps g (current g))\<lparr>
            Relations := (Relations (maps g (current g)))(l_Pattern l \<mapsto> next_proxy g),
            Locations := (Locations (maps g (current g)))(l_Pattern l \<mapsto> l)\<rparr>),
          router := map_option (\<lambda>routes. routes(l_Pattern l \<mapsto> next_proxy g)) (router g)\<rparr>)"

lemma AddProxyWithLocation_cases:
  assumes "router g \<noteq> None"
  obtains err where "AddProxyWithLocation (env_parse env) n (current g) l g = Ret (Some err, g)" "spec_new_proxy env l v = v"
  | parts lb where "AddProxyWithLocation (env_parse env) n (current g) l g = Ret (None, built parts lb l g)"
    "dom (part_map parts) \<subseteq> dom (part_shutdown parts)"
    "spec_new_proxy env l v = \<lparr>v_hosts = (v_hosts v)(l_Pattern l \<mapsto> part_map parts),
        v_locations = (v_locations v)(l_Pattern l \<mapsto> l)\<rparr>"
proof -
  let ?parts = "\<lparr>part_map = Map.empty, part_alive = Map.empty, part_shutdown = Map.empty, part_hosts = [],
      part_chan = next_chan g\<rparr>"
  show thesis
  proof (cases "target_loop (env_parse env) (ProxyPass l) ?parts")
    case (Inl e)
    then show thesis
      using target_loop_view [of "env_parse env" "ProxyPass l" ?parts] Inl
      by (intro that(1) [of e]) (simp_all add: AddProxyWithLocation_def NewHTTPProxy_def spec_new_proxy_def)
  next
    case (Inr parts)
    then have hosts: "target_hosts (env_parse env) (ProxyPass l) Map.empty = Some (part_map parts)"
      "dom (part_map parts) \<subseteq> dom (part_shutdown parts)"
      using target_loop_view [of "env_parse env" "ProxyPass l" ?parts] by simp_all
    show thesis
    proof (cases "Build n (BalanceMode l) (part_hosts parts)")
      case (Inl e)
      then have "BalanceMode l \<notin> {''round-robin'', ''consistence-hash''}" by (auto simp: Build_def factories_def)
      then show thesis
        using Inr Inl hosts
        by (intro that(1) [of "BuildError e"])
          (simp_all add: AddProxyWithLocation_def NewHTTPProxy_def spec_new_proxy_def)
    next
      case (Inr lb)
      then have "BalanceMode l \<in> {''round-robin'', ''consistence-hash''}"
        by (auto simp: Build_def factories_def split: if_splits)
      then show thesis
        using \<open>target_loop (env_parse env) (ProxyPass l) ?parts = Inr parts\<close> Inr hosts assms
        by (intro that(2) [of parts lb])
          (auto simp: AddProxyWithLocation_def NewHTTPProxy_def AddRelations_def built_def spec_new_proxy_def
            upd_proxy_def upd_map_def Let_def)
    qed
  qed
qed

lemma built_good:
  assumes "good_gateway g" "dom (part_map parts) \<subseteq> dom (part_shutdown parts)"
  shows "good_gateway (built parts lb l g)"
    and "view (built parts lb l g) = \<lparr>v_hosts = (v_hosts (view g))(l_Pattern l \<mapsto> part_map parts),
        v_locations = (v_locations (view g))(l_Pattern l \<mapsto> l)\<rparr>"
proof -
  have new: "p < next_proxy g" if "Relations (maps g (current g)) k = Some p" for k p
    using assms(1) that by (auto simp: good_gateway_def registered_def)
  let ?g = "built parts lb l g"
  have g': "current ?g = current g" "watchers ?g = next_proxy g # watchers g" "next_proxy ?g = Suc (next_proxy g)"
    "router ?g = map_option (\<lambda>routes. routes(l_Pattern l \<mapsto> next_proxy g)) (router g)"
    "Relations (maps ?g (current g)) = (Relations (maps g (current g)))(l_Pattern l \<mapsto> next_proxy g)"
    "Locations (maps ?g (current g)) = (Locations (maps g (current g)))(l_Pattern l \<mapsto> l)"
    "\<And>p. proxies ?g p = (if p = next_proxy g then \<lparr>HostMap = part_map parts, Pattern = l_Pattern l, Lb = lb,
        Alive = part_alive parts, Methods = Map.empty, HostsShutDown = part_shutdown parts, Owner = Some (current g)\<rparr>
      else proxies g p)"
    "\<And>p. p \<noteq> next_proxy g \<Longrightarrow> health ?g p = health g p"
    by (simp_all add: built_def HealthCheck_def)
  have "stoppable ?g (next_proxy g) h" if h: "part_map parts h \<noteq> None" for h
  proof -
    obtain c where "part_shutdown parts h = Some c" using h subsetD [OF assms(2), of h] by (auto simp: domIff)
    then show ?thesis using h by (auto simp: stoppable_def built_def HealthCheck_def)
  qed
  moreover have "stoppable ?g p h = stoppable g p h" if "p \<noteq> next_proxy g" for p h
    using that g'(7,8) by (simp add: stoppable_def)
  ultimately have "serviced ?g"
    using assms(1) new unfolding serviced_def good_gateway_def g'(1,5,7) by (auto split: if_splits)
  moreover have "registered (current ?g) ?g"
    using assms(1) new unfolding registered_def good_gateway_def g'(1,3,5,7) by (auto simp: less_Suc_eq split: if_splits)
  moreover have "watched ?g"
    using assms(1) new unfolding watched_def good_gateway_def g'(1-3,5) Let_def by (auto split: if_splits)
  ultimately show "good_gateway ?g" using assms(1) by (simp add: good_gateway_def g'(4))
  have "map_option (\<lambda>p. HostMap (proxies ?g p)) (Relations (maps ?g (current g)) k) = (if k = l_Pattern l
      then Some (part_map parts) else map_option (\<lambda>p. HostMap (proxies g p)) (Relations (maps g (current g)) k))" for k
    using new [of k] by (cases "Relations (maps g (current g)) k") (auto simp: g'(5,7))
  then show "view ?g = \<lparr>v_hosts = (v_hosts (view g))(l_Pattern l \<mapsto> part_map parts),
        v_locations = (v_locations (view g))(l_Pattern l \<mapsto> l)\<rparr>"
    by (simp add: view_def g'(1,6) fun_eq_iff)
qed

lemma AddProxyWithLocation_refines:
  assumes "good_gateway g"
  shows "\<exists>err g'. AddProxyWithLocation (env_parse env) n (current g) l g = Ret (err, g') \<and> good_gateway g'
    \<and> view g' = spec_new_proxy env l (view g)"
proof -
  have "router g \<noteq> None" using assms by (simp add: good_gateway_def)
  then show ?thesis
    by (rule AddProxyWithLocation_cases [where v = "view g" and env = env and n = n and l = l])
      (use assms built_good [OF assms] in auto)
qed

subsection \<open>The other operations\<close>

text \<open>A change of the hosts of one registered proxy.\<close>

lemma one_proxy_changed:
  assumes good: "good_gateway g" and p: "Relations (maps g (current g)) pat = Some p"
    and same: "current g' = current g" "watchers g' = watchers g" "next_proxy g' = next_proxy g" "router g' = router g"
      "maps g' = maps g"
    and others: "\<And>q. q \<noteq> p \<Longrightarrow> proxies g' q = proxies g q \<and> health g' q = health g q"
    and kept: "HostMap (proxies g' p) = f (HostMap (proxies g p))" "Pattern (proxies g' p) = Pattern (proxies g p)"
      "Owner (proxies g' p) = Owner (proxies g p)"
    and stop: "\<And>h. HostMap (proxies g' p) h \<noteq> None \<Longrightarrow> stoppable g' p h"
  shows "good_gateway g' \<and> view g' = spec_set_hosts pat f (view g)"
proof -
  have "Pattern (proxies g' q) = Pattern (proxies g q) \<and> Owner (proxies g' q) = Owner (proxies g q)" for q
    using others [of q] kept(2,3) by (cases "q = p") simp_all
  then have "registered (current g') g'"
    using good by (simp add: registered_def good_gateway_def same)
  moreover have "serviced g'"
    unfolding serviced_def same
  proof (intro allI impI)
    fix k q h
    assume q: "Relations (maps g (current g)) k = Some q" "HostMap (proxies g' q) h \<noteq> None"
    show "stoppable g' q h"
    proof (cases "q = p")
      case False
      have "serviced g" using good by (simp add: good_gateway_def)
      moreover have "HostMap (proxies g q) h \<noteq> None" using q(2) others [OF False] by simp
      ultimately have "stoppable g q h" using q(1) serviced_def by blast
      then show ?thesis using others [OF False] by (simp add: stoppable_def)
    qed (use stop q in simp)
  qed
  moreover have "watched g'" using good watched_cong [of g' g] same by (simp add: good_gateway_def)
  moreover have only: "Relations (maps g (current g)) k \<noteq> Some p" if "k \<noteq> pat" for k
    using good that p unfolding good_gateway_def watched_def Let_def by blast
  have "map_option (\<lambda>q. HostMap (proxies g' q)) (Relations (maps g (current g)) k)
      = (if k = pat then Some (f (HostMap (proxies g p))) else map_option (\<lambda>q. HostMap (proxies g q)) (Relations (maps g (current g)) k))" for k
  proof (cases "k = pat")
    case False
    then show ?thesis using only [OF False] others by (cases "Relations (maps g (current g)) k") auto
  qed (use p kept(1) in simp)
  then have "view g' = spec_set_hosts pat f (view g)"
    by (auto simp: view_def spec_set_hosts_def same p fun_eq_iff)
  ultimately show ?thesis using good same(4) by (simp add: good_gateway_def)
qed

lemma spec_set_hosts_absent: "v_hosts v pat = None \<Longrightarrow> spec_set_hosts pat f v = v"
  by (simp add: spec_set_hosts_def fun_upd_idem)

lemma v_hosts_view: "v_hosts (view g) pat = map_option (\<lambda>p. HostMap (proxies g p)) (Relations (maps g (current g)) pat)"
  by (simp add: view_def)

lemma AddProxy_refines:
  assumes "good_gateway g" "AddProxy parse (current g) pat t g = (err, g')"
  shows "good_gateway g' \<and> view g' = (case parse t of Inl e \<Rightarrow> view g
    | Inr u \<Rightarrow> spec_set_hosts pat (\<lambda>m. m(GetHost u \<mapsto> u)) (view g))"
proof (cases "Relations (maps g (current g)) pat")
  case None
  then show ?thesis
    using assms by (auto simp: AddProxy_def spec_set_hosts_absent v_hosts_view split: sum.splits)
next
  case (Some p)
  show ?thesis
  proof (cases "parse t")
    case (Inr u)
    let ?h = "GetHost u"
    have g': "g' = (upd_proxy p (\<lambda>h. h\<lparr>HostMap := (HostMap h)(?h \<mapsto> u), Alive := (Alive h)(?h \<mapsto> True),
        HostsShutDown := (HostsShutDown h)(?h \<mapsto> next_chan g), Lb := Balancer_Add ?h (Lb h)\<rparr>) g)
      \<lparr>next_chan := Suc (next_chan g), health := (health g)(p := (health g p)(?h := next_chan g # health g p ?h))\<rparr>"
      using assms(2) Some Inr by (simp add: AddProxy_def Let_def) (simp add: upd_proxy_def)
    have "stoppable g' p h" if "HostMap (proxies g' p) h \<noteq> None" for h
    proof (cases "h = ?h")
      case False
      then have "stoppable g p h"
        using that assms(1) Some by (simp add: g' upd_proxy_def good_gateway_def serviced_def)
      then show ?thesis using False by (auto simp: g' upd_proxy_def stoppable_def)
    qed (simp add: g' upd_proxy_def stoppable_def)
    then have "good_gateway g' \<and> view g' = spec_set_hosts pat (\<lambda>m. m(?h \<mapsto> u)) (view g)"
      by (rule one_proxy_changed [OF assms(1) Some, rotated -1]) (simp_all add: g' upd_proxy_def)
    then show ?thesis using Inr by simp
  qed (use assms Some in \<open>simp add: AddProxy_def\<close>)
qed

lemma RemoveHost_refines:
  assumes "good_gateway g" "Relations (maps g (current g)) pat = Some p"
  shows "\<exists>err g'. RemoveHost (current g) pat h g = Ret (err, g') \<and> good_gateway g'
    \<and> view g' = spec_set_hosts pat (\<lambda>m. m(h := None)) (view g)"
proof (cases "stoppable g p h")
  case True
  then obtain c where c: "HostsShutDown (proxies g p) h = Some c" "c \<in> set (health g p h)" by (auto simp: stoppable_def)
  let ?g = "upd_proxy p (\<lambda>x. x\<lparr>HostMap := (HostMap x)(h := None)\<rparr>)
    (g\<lparr>health := (health g)(p := (health g p)(h := remove1 c (health g p h)))\<rparr>)"
  have "stoppable ?g p k" if "HostMap (proxies ?g p) k \<noteq> None" for k
  proof -
    from that have "k \<noteq> h" "stoppable g p k"
      using assms by (auto simp: upd_proxy_def good_gateway_def serviced_def split: if_splits)
    then show ?thesis by (simp add: stoppable_def upd_proxy_def)
  qed
  then have "good_gateway ?g \<and> view ?g = spec_set_hosts pat (\<lambda>m. m(h := None)) (view g)"
    by (rule one_proxy_changed [OF assms, rotated -1]) (simp_all add: upd_proxy_def)
  moreover have "RemoveHost (current g) pat h g = Ret (None, ?g)"
    using assms(2) c by (simp add: RemoveHost_def send_shutdown_def)
  ultimately show ?thesis by blast
next
  case False
  then have "HostMap (proxies g p) h = None"
    using assms unfolding good_gateway_def serviced_def by blast
  then have "spec_set_hosts pat (\<lambda>m. m(h := None)) (view g) = view g"
    using assms(2) by (simp add: spec_set_hosts_def view_def fun_upd_idem)
  moreover have "RemoveHost (current g) pat h g = Ret (Some ShutDownTimeout, g)"
    using False assms(2) by (auto simp: RemoveHost_def send_shutdown_def stoppable_def split: option.splits)
  ultimately show ?thesis using assms(1) by simp
qed

lemma shutdown_loop_others: "q \<noteq> p \<Longrightarrow> health (shutdown_loop p ks g) q = health g q"
  by (induction p ks g rule: shutdown_loop.induct) (auto simp: send_shutdown_def split: option.splits if_splits)

lemma RemoveProxy_refines:
  assumes good: "good_gateway g"
  shows "\<exists>err g'. RemoveProxy (current g) order pat g = Ret (err, g') \<and> good_gateway g'
    \<and> view g' = spec_remove_proxy pat (view g)"
proof (cases "Relations (maps g (current g)) pat")
  case None
  then show ?thesis using good by (simp add: RemoveProxy_def spec_remove_proxy_def v_hosts_view)
next
  case (Some p)
  let ?g1 = "shutDownCheck order p g"
  obtain routes where routes: "router g = Some routes" "p \<in> set (watchers g)"
    using good Some by (auto simp: good_gateway_def watched_def Let_def)
  note frame = shutdown_loop_frame [of p order "g\<lparr>watchers := remove1 p (watchers g)\<rparr>"]
  let ?g' = "upd_map (current g) (\<lambda>pm. pm\<lparr>Relations := (Relations pm)(pat := None), Locations := (Locations pm)(pat := None)\<rparr>)
     (?g1\<lparr>router := Some (routes(pat := None))\<rparr>)"
  have ret: "RemoveProxy (current g) order pat g = Ret (None, ?g')"
    using Some routes frame by (simp add: RemoveProxy_def shutDownCheck_def Let_def)
  have g': "current ?g' = current g" "proxies ?g' = proxies g" "next_proxy ?g' = next_proxy g"
    "Relations (maps ?g' (current g)) = (Relations (maps g (current g)))(pat := None)"
    "Locations (maps ?g' (current g)) = (Locations (maps g (current g)))(pat := None)"
    using frame by (simp_all add: shutDownCheck_def upd_map_def)
  have "serviced ?g'"
    unfolding serviced_def g'(1,2,4)
  proof (intro allI impI)
    fix k q h
    assume q: "((Relations (maps g (current g)))(pat := None)) k = Some q" "HostMap (proxies g q) h \<noteq> None"
    have "k \<noteq> pat" and k: "Relations (maps g (current g)) k = Some q" using q(1) by (auto split: if_splits)
    have "q \<noteq> p" using good Some k \<open>k \<noteq> pat\<close> unfolding good_gateway_def watched_def Let_def by blast
    then have "health ?g' q = health g q"
      using shutdown_loop_others [of q p order "g\<lparr>watchers := remove1 p (watchers g)\<rparr>"]
      by (simp add: shutDownCheck_def upd_map_def)
    moreover have "serviced g" using good by (simp add: good_gateway_def)
    then have "stoppable g q h" using q(2) k serviced_def by blast
    ultimately show "stoppable ?g' q h" by (simp add: stoppable_def g'(2))
  qed
  moreover have "registered (current ?g') ?g'"
    using good unfolding registered_def good_gateway_def g'(1-4) by (auto split: if_splits)
  moreover have "watched ?g'" using RemoveProxy_watched(2) [OF _ ret] good by (simp add: good_gateway_def)
  moreover have "router ?g' \<noteq> None" by (simp add: upd_map_def)
  ultimately have "good_gateway ?g'" unfolding good_gateway_def by blast
  moreover have "view ?g' = spec_remove_proxy pat (view g)"
    unfolding view_def g'(1,2,4,5) using Some by (auto simp: spec_remove_proxy_def fun_eq_iff)
  ultimately show ?thesis using ret by blast
qed

lemma SetRateLimiter_refines:
  assumes "good_gateway g" "Relations (maps g (current g)) k = Some p"
  shows "\<exists>err g'. SetRateLimiter rt p info g = Ret (err, g') \<and> good_gateway g' \<and> view g' = view g"
proof -
  have "\<exists>err g'. SetRateLimiter rt p info g = Ret (err, g')"
  proof (cases "LimiterType info = ''qps''")
    case True
    then show ?thesis using set_limiter_ok [OF True _ assms(2), of rt] assms(1) by (auto simp: good_gateway_def)
  qed (simp add: SetRateLimiter_def Limiter_Build_def rateLimiterFactories_def)
  then obtain err g' where set: "SetRateLimiter rt p info g = Ret (err, g')" by blast
  have "same_routes g g'"
    by (rule SetRateLimiter_cases [OF set])
      (auto intro!: same_routes_trans [OF same_routes_upd_proxy same_routes_record_limiter])
  with set assms(1) show ?thesis using same_routes_keeps by blast
qed

subsection \<open>The state machine refines its specification\<close>

lemma FSM_refines:
  assumes "good_gateway g" and "Opt e \<noteq> 3"
  shows "case spec_apply env e (view g) of
      Ret v \<Rightarrow> \<exists>err g'. FSM_Apply env (LogEntry_Encode e) g = Ret (err, g') \<and> good_gateway g' \<and> view g' = v
    | Panic x \<Rightarrow> FSM_Apply env (LogEntry_Encode e) g = Panic x | Exit \<Rightarrow> False | Stuck \<Rightarrow> False"
proof -
  let ?m = "current g"
  consider "Opt e = 1" | "Opt e = 2" | "Opt e = 4" | "Opt e = 5" | "Opt e = 6" | "Opt e \<notin> {1, 2, 3, 4, 5, 6}"
    using assms(2) by auto
  then show ?thesis
  proof cases
    case 1
    show ?thesis
    proof (cases "dec_location env (Data e)")
      case (Inr l)
      note AddProxyWithLocation_refines [OF assms(1), of env "env_replicas env" l]
      then show ?thesis
        using 1 Inr assms(1) by (auto simp: spec_apply_def FSM_Apply_Encode FSM_doNewHttpProxy_def v_hosts_view)
    qed (use 1 assms(1) in \<open>simp add: spec_apply_def FSM_Apply_Encode FSM_doNewHttpProxy_def\<close>)
  next
    case 2
    then show ?thesis
      using assms(1) SetRateLimiter_refines [OF assms(1), of _ _ "env_rate env"]
      by (auto simp: spec_apply_def FSM_Apply_Encode FSM_doSetRateLimiter_def split: sum.split option.split)
        (metis and_then.simps(1) case_prod_conv)
  next
    case 3
    then show ?thesis
      using RemoveProxy_refines [OF assms(1), of "remove_order env (string_of (Data e)) g" "string_of (Data e)"]
      by (auto simp: spec_apply_def FSM_Apply_Encode FSM_doRemoveProxy_def Let_def)
  next
    case 4
    show ?thesis
    proof (cases "dec_host env (Data e)")
      case (Inr l)
      show ?thesis
      proof (cases "Relations (maps g ?m) (host_Pattern l)")
        case None
        then show ?thesis
          using 4 Inr by (simp add: spec_apply_def FSM_Apply_Encode FSM_doRemoveHost_def v_hosts_view RemoveHost_def)
      next
        case (Some p)
        then show ?thesis
          using 4 Inr RemoveHost_refines [OF assms(1) Some, of "host_Host l"]
          by (auto simp: spec_apply_def FSM_Apply_Encode FSM_doRemoveHost_def v_hosts_view)
      qed
    qed (use 4 assms(1) in \<open>simp add: spec_apply_def FSM_Apply_Encode FSM_doRemoveHost_def\<close>)
  next
    case 5
    show ?thesis
    proof (cases "dec_host env (Data e)")
      case (Inr l)
      obtain err g' where "AddProxy (env_parse env) ?m (host_Pattern l) (host_Host l) g = (err, g')"
        by (cases "AddProxy (env_parse env) ?m (host_Pattern l) (host_Host l) g")
      with AddProxy_refines [OF assms(1) this] show ?thesis
        using 5 Inr by (auto simp: spec_apply_def FSM_Apply_Encode FSM_doAddHost_def split: sum.splits)
    qed (use 5 assms(1) in \<open>simp add: spec_apply_def FSM_Apply_Encode FSM_doAddHost_def\<close>)
  qed (use assms(1) in \<open>simp add: spec_apply_def FSM_Apply_Encode\<close>)
qed

lemma FSM_acl_same:
  "FSM_Apply env (LogEntry_Encode \<lparr>Opt = 3, Data = d\<rparr>) g = Ret (err, g') \<Longrightarrow> same_routes g g'"
  by (auto simp: FSM_Apply_Encode FSM_doHandleAcl_def and_then_eq_Ret split: sum.splits if_splits)

text \<open>Applying an entry, whatever the state machine answers to the raft library.\<close>

definition apply_entry :: "('m, 'l) cluster_env \<Rightarrow> LogEntry \<Rightarrow> 'l gateway \<Rightarrow> 'l gateway outcome" where
  "apply_entry env e g = and_then (FSM_Apply env (LogEntry_Encode e) g) (\<lambda>(ret, g'). Ret g')"

lemma apply_entry_refines:
  assumes "good_gateway g" "apply_entry env e g = Ret g'"
  shows "good_gateway g' \<and> spec_apply env e (view g) = Ret (view g')"
proof -
  obtain err where ret: "FSM_Apply env (LogEntry_Encode e) g = Ret (err, g')"
    using assms(2) by (auto simp: apply_entry_def and_then_eq_Ret)
  show ?thesis
  proof (cases "Opt e = 3")
    case True
    then have "e = \<lparr>Opt = 3, Data = Data e\<rparr>" by simp
    then have "same_routes g g'" using ret FSM_acl_same by metis
    then show ?thesis using assms(1) same_routes_keeps [of g g'] True by (simp add: spec_apply_def)
  next
    case False
    then show ?thesis using FSM_refines [OF assms(1) False, of env] ret by (auto split: outcome.splits)
  qed
qed

interpretation replicas: replicated_machine good_gateway view "apply_entry env" "spec_apply env" "local_step (env_rate env)"
  for env :: "('m, 'l) cluster_env"
proof unfold_locales
  fix g g' :: "'l gateway" and e
  show "good_gateway g \<Longrightarrow> apply_entry env e g = Ret g' \<Longrightarrow> good_gateway g' \<and> spec_apply env e (view g) = Ret (view g')"
    by (rule apply_entry_refines)
  show "good_gateway g \<Longrightarrow> local_step (env_rate env) g g' \<Longrightarrow> good_gateway g' \<and> view g' = view g"
    using local_step_same [of "env_rate env" g g'] same_routes_keeps [of g g'] by blast
qed

end
