(* ===== verification/Agreement.thy ===== *)
theory Agreement
  imports Replicas
begin

text \<open>
  What the nodes of a cluster agree on, on top of the contract of \<open>Replicas\<close>: the state machine
  implements its specification, nodes with the same log have the same routes whatever they do
  locally, also from the start of their processes, and the leader's double application does not
  show in the routes, with the exception of a proxy that is added for an existing route.
\<close>

subsection \<open>Properties\<close>

text \<open>C6: the state machine implements its specification. On a gateway whose hosts all have
  health checks that can be stopped, a log entry about proxies, hosts or limits changes the
  routes and their hosts exactly as \<open>spec_apply\<close> says, panics exactly when it says so (a host
  removed from an unknown route), and keeps the invariant.\<close>

theorem FSM_implements_spec:
  assumes "good_gateway g" and "Opt e \<noteq> 3"
  shows "case spec_apply env e (view g) of
      Ret v \<Rightarrow> \<exists>err g'. FSM_Apply env (LogEntry_Encode e) g = Ret (err, g') \<and> good_gateway g' \<and> view g' = v
    | Panic x \<Rightarrow> FSM_Apply env (LogEntry_Encode e) g = Panic x | Exit \<Rightarrow> False | Stuck \<Rightarrow> False"
  by (rule FSM_refines [OF assms])

lemma demo_good: "good_gateway demo_served"
  using demo_watched demo_registered
  by (simp add: good_gateway_def demo_routes serviced_def stoppable_def)
    (auto simp: demo_served_def demo_gateway_def demo_proxy_def split: if_splits)

theorem FSM_implements_spec_witness:
  "\<exists>err g'. FSM_Apply demo_env (LogEntry_Encode \<lparr>Opt = 5, Data = lines_of [''/api'', ''b:80'']\<rparr>) demo_served = Ret (err, g')
    \<and> dom (the (v_hosts (view g') ''/api'')) = {''a:80''}"
proof -
  let ?e = "\<lparr>Opt = 5, Data = lines_of [''/api'', ''b:80'']\<rparr>"
  have dec: "dec_host demo_env (lines_of [''/api'', ''b:80'']) = Inr \<lparr>host_Pattern = ''/api'', host_Host = ''b:80''\<rparr>"
    by (simp add: demo_env_def lines_of_def)
  have hosts: "v_hosts (view demo_served) ''/api'' = Some (HostMap demo_proxy)"
    by (simp add: view_def demo_served_def demo_gateway_def)
  have "Opt ?e \<noteq> 3" by simp
  from FSM_implements_spec [OF demo_good this, of demo_env] show ?thesis
    by (simp add: spec_apply_def dec hosts spec_set_hosts_def) (auto simp: demo_proxy_def split: if_splits)
qed

subsection \<open>The leader\<close>

text \<open>What a committed entry does after the handler has already changed the gateway.\<close>

lemma log_and_answer_view:
  assumes "fst (raft_Apply env (raft_state nd) (LogEntry_Encode \<lparr>Opt = n, Data = d\<rparr>)) = None"
    and "good_gateway (nd_gateway nd)" "n \<noteq> 3"
    and "spec_apply (cluster env) \<lparr>Opt = n, Data = d\<rparr> (view (nd_gateway nd)) = Ret v"
  shows "\<exists>nd'. log_and_answer env n d nd = Ret (ok, nd') \<and> good_gateway (nd_gateway nd') \<and> view (nd_gateway nd') = v"
proof -
  obtain r' where r: "raft_Apply env (raft_state nd) (LogEntry_Encode \<lparr>Opt = n, Data = d\<rparr>) = (None, r')"
    using assms(1) by (metis prod.collapse)
  obtain err g' where g': "FSM_Apply (cluster env) (LogEntry_Encode \<lparr>Opt = n, Data = d\<rparr>) (nd_gateway nd) = Ret (err, g')"
    "good_gateway g'" "view g' = v"
    using FSM_refines [OF assms(2), of "\<lparr>Opt = n, Data = d\<rparr>" "cluster env"] assms(3,4) by auto
  then show ?thesis by (simp add: log_and_answer_def writeLogEntry_def r)
qed

text \<open>Applying one of these operations twice is applying it once.\<close>

lemma spec_set_hosts_twice:
  "f (f m) = f m \<Longrightarrow> v_hosts v pat = Some m \<Longrightarrow> spec_set_hosts pat f (spec_set_hosts pat f v) = spec_set_hosts pat f v"
  by (simp add: spec_set_hosts_def)

lemma spec_remove_proxy_twice: "spec_remove_proxy pat (spec_remove_proxy pat v) = spec_remove_proxy pat v"
  by (simp add: spec_remove_proxy_def)

lemma own_proxy_view: "own_proxy pat nd = Some p \<Longrightarrow> v_hosts (view (nd_gateway nd)) pat = Some (HostMap (proxies (nd_gateway nd) p))"
  by (simp add: own_proxy_def v_hosts_view)

lemma leader_adds_host:
  assumes good: "good_gateway (nd_gateway nd)"
    and acc: "accepts_host env b 6 req nd" and p: "own_proxy (host_Pattern req) nd = Some p"
    and url: "env_parse (cluster env) (host_Host req) = Inr url"
  shows "\<exists>nd'. doAddHost env b nd = Ret (ok, nd') \<and> good_gateway (nd_gateway nd')
    \<and> spec_apply (cluster env) \<lparr>Opt = 6, Data = enc_host (cluster env) req\<rparr> (view (nd_gateway nd)) = Ret (view (nd_gateway nd'))"
proof -
  let ?g = "nd_gateway nd"
  let ?f = "\<lambda>m. m(GetHost url \<mapsto> url)"
  obtain err g' where add: "AddProxy (env_parse (cluster env)) (current ?g) (host_Pattern req) (host_Host req) ?g = (err, g')"
    by (cases "AddProxy (env_parse (cluster env)) (current ?g) (host_Pattern req) (host_Host req) ?g")
  have err: "err = None" using add p url by (auto simp: AddProxy_def own_proxy_def Let_def)
  have g': "good_gateway g'" "view g' = spec_set_hosts (host_Pattern req) ?f (view ?g)"
    using AddProxy_refines [OF good add] url by simp_all
  have "spec_apply (cluster env) \<lparr>Opt = 6, Data = enc_host (cluster env) req\<rparr> v = Ret (spec_set_hosts (host_Pattern req) ?f v)" for v
    using acc url by (simp add: spec_apply_def accepts_host_def)
  then show ?thesis
    using log_and_answer_view [of env "set_gateway g' nd" 6 "enc_host (cluster env) req"] acc add err g'
      spec_set_hosts_twice [of ?f, OF _ own_proxy_view [OF p]]
    by (auto simp: doAddHost_def accepts_host_def Let_def)
qed

lemma leader_removes_host:
  assumes good: "good_gateway (nd_gateway nd)"
    and acc: "accepts_host env b 5 req nd" and p: "own_proxy (host_Pattern req) nd = Some p"
    and host: "HostMap (proxies (nd_gateway nd) p) (host_Host req) \<noteq> None"
  shows "\<exists>nd'. doRemoveHost env b nd = Ret (ok, nd') \<and> good_gateway (nd_gateway nd')
    \<and> spec_apply (cluster env) \<lparr>Opt = 5, Data = enc_host (cluster env) req\<rparr> (view (nd_gateway nd)) = Ret (view (nd_gateway nd'))"
proof -
  let ?g = "nd_gateway nd"
  let ?f = "\<lambda>m. m(host_Host req := None)"
  have rel: "Relations (maps ?g (current ?g)) (host_Pattern req) = Some p" using p by (simp add: own_proxy_def)
  obtain err g' where g': "RemoveHost (current ?g) (host_Pattern req) (host_Host req) ?g = Ret (err, g')"
    "good_gateway g'" "view g' = spec_set_hosts (host_Pattern req) ?f (view ?g)"
    using RemoveHost_refines [OF good rel] by blast
  have "stoppable ?g p (host_Host req)" using good rel host unfolding good_gateway_def serviced_def by blast
  then have err: "err = None" using g'(1) rel by (auto simp: RemoveHost_def send_shutdown_def stoppable_def)
  have "spec_apply (cluster env) \<lparr>Opt = 5, Data = enc_host (cluster env) req\<rparr> v = Ret (spec_set_hosts (host_Pattern req) ?f v)"
    if "v_hosts v (host_Pattern req) \<noteq> None" for v
    using acc that by (simp add: spec_apply_def accepts_host_def)
  moreover have "v_hosts (view ?g) (host_Pattern req) \<noteq> None" "v_hosts (view g') (host_Pattern req) \<noteq> None"
    using own_proxy_view [OF p] by (simp_all add: g'(3) spec_set_hosts_def)
  ultimately show ?thesis
    using log_and_answer_view [of env "set_gateway g' nd" 5 "enc_host (cluster env) req"] acc err g'
      spec_set_hosts_twice [of ?f, OF _ own_proxy_view [OF p]]
    by (auto simp: doRemoveHost_def accepts_host_def Let_def)
qed

lemma leader_removes_proxy:
  assumes good: "good_gateway (nd_gateway nd)"
    and dec: "dec_pattern env b = Inr pattern" and p: "own_proxy pattern nd = Some p"
    and commit: "fst (raft_Apply env (raft_state nd) (LogEntry_Encode \<lparr>Opt = 4, Data = bytes_of pattern\<rparr>)) = None"
  shows "\<exists>nd'. doRemoveProxy env b nd = Ret (ok, nd') \<and> good_gateway (nd_gateway nd')
    \<and> spec_apply (cluster env) \<lparr>Opt = 4, Data = bytes_of pattern\<rparr> (view (nd_gateway nd)) = Ret (view (nd_gateway nd'))"
proof -
  let ?g = "nd_gateway nd"
  let ?order = "remove_order (cluster env) pattern ?g"
  obtain err g' where g': "RemoveProxy (current ?g) ?order pattern ?g = Ret (err, g')"
    "good_gateway g'" "view g' = spec_remove_proxy pattern (view ?g)"
    using RemoveProxy_refines [OF good, of ?order pattern] by blast
  have err: "err = None" using g'(1) p by (auto simp: RemoveProxy_def own_proxy_def Let_def split: option.splits if_splits)
  have "spec_apply (cluster env) \<lparr>Opt = 4, Data = bytes_of pattern\<rparr> v = Ret (spec_remove_proxy pattern v)" for v
    by (simp add: spec_apply_def)
  then show ?thesis
    using log_and_answer_view [of env "set_gateway g' nd" 4 "bytes_of pattern"] dec err g' commit spec_remove_proxy_twice
    by (auto simp: doRemoveProxy_def Let_def)
qed

text \<open>C14: the double application of the leader does not show in the routes. A host that the
  leader adds or removes, first in the handler and then from the log, leaves it with exactly
  the routes that the log entry gives a follower; so does a proxy that it removes.\<close>

theorem leader_applies_once:
  assumes "good_gateway (nd_gateway nd)"
  shows "(accepts_host env b 6 req nd \<and> own_proxy (host_Pattern req) nd = Some p
      \<and> env_parse (cluster env) (host_Host req) = Inr url \<longrightarrow>
      (\<exists>nd'. doAddHost env b nd = Ret (ok, nd') \<and> good_gateway (nd_gateway nd')
    \<and> spec_apply (cluster env) \<lparr>Opt = 6, Data = enc_host (cluster env) req\<rparr> (view (nd_gateway nd)) = Ret (view (nd_gateway nd'))))
    \<and> (accepts_host env b 5 req nd \<and> own_proxy (host_Pattern req) nd = Some p
      \<and> HostMap (proxies (nd_gateway nd) p) (host_Host req) \<noteq> None \<longrightarrow>
      (\<exists>nd'. doRemoveHost env b nd = Ret (ok, nd') \<and> good_gateway (nd_gateway nd')
    \<and> spec_apply (cluster env) \<lparr>Opt = 5, Data = enc_host (cluster env) req\<rparr> (view (nd_gateway nd)) = Ret (view (nd_gateway nd'))))
    \<and> (dec_pattern env b = Inr pattern \<and> own_proxy pattern nd = Some p
      \<and> fst (raft_Apply env (raft_state nd) (LogEntry_Encode \<lparr>Opt = 4, Data = bytes_of pattern\<rparr>)) = None \<longrightarrow>
      (\<exists>nd'. doRemoveProxy env b nd = Ret (ok, nd') \<and> good_gateway (nd_gateway nd')
    \<and> spec_apply (cluster env) \<lparr>Opt = 4, Data = bytes_of pattern\<rparr> (view (nd_gateway nd)) = Ret (view (nd_gateway nd'))))"
  by (intro conjI impI; elim conjE)
    (rule leader_adds_host [OF assms] leader_removes_host [OF assms] leader_removes_proxy [OF assms]; assumption)+

theorem leader_applies_once_witness:
  "\<exists>nd'. doAddHost demo_server (lines_of [''/api'', ''http://c:80'']) demo_node = Ret (ok, nd')
     \<and> dom (the (v_hosts (view (nd_gateway nd')) ''/api'')) = {''a:80'', ''b:80'', ''c:80''}"
proof -
  let ?req = "\<lparr>host_Pattern = ''/api'', host_Host = ''http://c:80''\<rparr>"
  let ?b = "lines_of [''/api'', ''http://c:80'']" and ?u = "\<lparr>Scheme = ''http'', Host = ''c:80''\<rparr>"
  have acc: "accepts_host demo_server ?b 6 ?req demo_node"
    by (simp add: accepts_host_def demo_server_def demo_env_def lines_of_def)
  have own: "own_proxy (host_Pattern ?req) demo_node = Some 0"
    by (simp add: own_proxy_def demo_node_def demo_served_def demo_gateway_def)
  have url: "env_parse (cluster demo_server) (host_Host ?req) = Inr ?u"
    by (simp add: demo_server_def demo_env_def demo_parse_def)
  have good: "good_gateway (nd_gateway demo_node)" using demo_good by (simp add: demo_node_def)
  obtain nd' where nd': "doAddHost demo_server ?b demo_node = Ret (ok, nd')"
    "spec_apply demo_env \<lparr>Opt = 6, Data = enc_host demo_env ?req\<rparr> (view demo_served) = Ret (view (nd_gateway nd'))"
    using leader_applies_once [OF good, of demo_server ?b ?req 0 ?u] acc own url
    by (auto simp: demo_node_def demo_server_def)
  have host: "GetHost ?u = ''c:80''" by code_simp
  have hosts: "v_hosts (view demo_served) ''/api'' = Some (HostMap demo_proxy)"
    by (simp add: view_def demo_served_def demo_gateway_def)
  have "dec_host demo_env (enc_host demo_env ?req) = Inr ?req" "env_parse demo_env (host_Host ?req) = Inr ?u"
    using acc url by (simp_all add: accepts_host_def demo_server_def)
  then have "view (nd_gateway nd') = spec_set_hosts ''/api'' (\<lambda>m. m(''c:80'' \<mapsto> ?u)) (view demo_served)"
    using nd'(2) host by (simp add: spec_apply_def)
  then show ?thesis using nd'(1) hosts by (auto simp: spec_set_hosts_def demo_proxy_def)
qed

lemma target_hosts_ok: "\<forall>t \<in> set ts. \<exists>u. parse t = Inr u \<Longrightarrow> target_hosts parse ts m \<noteq> None"
  by (induction ts arbitrary: m) auto

lemma announced_new_proxy:
  assumes "announced_ok env l"
  shows "v_locations (spec_new_proxy env l v) (l_Pattern l) = Some l"
proof -
  have "target_hosts (env_parse env) (ProxyPass l) Map.empty \<noteq> None"
    using assms by (intro target_hosts_ok) (simp add: announced_ok_def location_ok_def)
  then show ?thesis using assms by (auto simp: spec_new_proxy_def announced_ok_def location_ok_def)
qed

text \<open>C37: adding a proxy for a route that exists makes the cluster diverge. The handler replaces
  the proxy on the leader without asking whether the route is there, while the state machine of
  every node skips the entry because it is: the leader serves the new hosts, its followers the
  old ones, and the request is answered with success.\<close>

theorem readding_proxy_diverges:
  assumes "good_gateway (nd_gateway nd)" "good_gateway gf" "view gf = view (nd_gateway nd)"
    and "enableWrite nd" "dec_location (cluster env) b = Inr l" "announced_ok (cluster env) l"
    and "take 1 (l_Pattern l) = ''/''" "ProxyPass l \<noteq> []" "own_proxy (l_Pattern l) nd = Some p"
  shows "\<exists>nd' gf'. doAddProxy env b nd = Ret (ok, nd')
    \<and> v_locations (view (nd_gateway nd')) (l_Pattern l) = Some l
    \<and> apply_entry (cluster env) \<lparr>Opt = 1, Data = enc_location (cluster env) l\<rparr> gf = Ret gf'
    \<and> view gf' = view (nd_gateway nd)"
proof -
  let ?g = "nd_gateway nd" and ?e = "\<lparr>Opt = 1, Data = enc_location (cluster env) l\<rparr>"
  obtain routes where routes: "router ?g = Some routes" and reg: "registered (current ?g) ?g"
    using assms(1) by (auto simp: good_gateway_def)
  obtain nd' where nd': "createProxyWithLocation env l nd = Ret nd'"
    "AddProxyWithLocation (env_parse (cluster env)) (env_replicas (cluster env)) (current ?g) l ?g = Ret (None, nd_gateway nd')"
    by (rule createProxyWithLocation_ok [OF assms(6) routes reg])
  have view': "view (nd_gateway nd') = spec_new_proxy (cluster env) l (view ?g)"
    using AddProxyWithLocation_refines [OF assms(1), of "cluster env" "env_replicas (cluster env)" l] nd'(2) by simp
  have loc: "v_locations (view (nd_gateway nd')) (l_Pattern l) = Some l"
    unfolding view' by (rule announced_new_proxy [OF assms(6)])
  have "doAddProxy env b nd = Ret (ok, nd')"
    using assms(4,5,7,8) nd'(1)
    by (auto simp: doAddProxy_def checkWritePermission_def validLocation_def split: list.splits)
  moreover have "v_hosts (view gf) (l_Pattern l) \<noteq> None" using own_proxy_view [OF assms(9)] assms(3) by simp
  then have "spec_apply (cluster env) ?e (view gf) = Ret (view gf)"
    using assms(6) by (simp add: spec_apply_def announced_ok_def)
  then obtain err gf' where "FSM_Apply (cluster env) (LogEntry_Encode ?e) gf = Ret (err, gf')" "view gf' = view gf"
    using FSM_refines [OF assms(2), of ?e "cluster env"] by auto
  ultimately show ?thesis using loc assms(3) by (simp add: apply_entry_def)
qed

theorem readding_proxy_diverges_witness:
  "\<exists>nd' gf'. doAddProxy demo_server (lines_of [''/api'', ''round-robin'', ''http://a:80'']) demo_node = Ret (ok, nd')
     \<and> apply_entry demo_env \<lparr>Opt = 1, Data = lines_of [''/api'', ''round-robin'', ''http://a:80'']\<rparr> demo_served = Ret gf'
     \<and> v_locations (view (nd_gateway nd')) ''/api'' \<noteq> v_locations (view gf') ''/api''"
proof -
  let ?l = "hd (Locations_cfg leader_conf)" and ?b = "lines_of [''/api'', ''round-robin'', ''http://a:80'']"
  have l: "?l = \<lparr>l_Pattern = ''/api'', ProxyPass = [''http://a:80''], BalanceMode = ''round-robin''\<rparr>"
    by (simp add: leader_conf_def)
  have ann: "announced_ok (cluster demo_server) ?l"
    using demo_announced by (simp add: demo_server_def leader_conf_def)
  have dec: "dec_location (cluster demo_server) ?b = Inr ?l" "enc_location (cluster demo_server) ?l = ?b"
    by (simp_all add: l demo_server_def demo_env_def lines_of_def)
  have good: "good_gateway (nd_gateway demo_node)" "view demo_served = view (nd_gateway demo_node)" "enableWrite demo_node"
    using demo_good by (simp_all add: demo_node_def)
  have route: "take 1 (l_Pattern ?l) = ''/''" "ProxyPass ?l \<noteq> []" "own_proxy (l_Pattern ?l) demo_node = Some 0"
    by (simp_all add: l own_proxy_def demo_node_def demo_served_def demo_gateway_def)
  have "v_locations (view (nd_gateway demo_node)) ''/api'' = None"
    by (simp add: view_def demo_node_def demo_served_def demo_gateway_def NewProxyMap_def)
  then show ?thesis
    using readding_proxy_diverges [OF good(1) demo_good good(2,3) dec(1) ann route] unfolding dec(2)
    by (auto simp: l demo_server_def)
qed

end
