(* ===== verification/NodeSteps.thy ===== *)
theory NodeSteps
  imports Agreement
begin

text \<open>
  The life of a node: the steps that change it after its process has started, and the states it
  can reach. \<open>gateway_invariant\<close> is the contract between an invariant of the gateway and the
  operations of the packages below: it asks for the nine operations that write to a gateway,
  and gives every handler, the log, the restore of a snapshot and hence every reachable
  state. It is interpreted here for the invariant of \<open>Replicas\<close>, and in \<open>Forwarding\<close> for the
  hosts that a balancer may choose.
\<close>

subsection \<open>What a request leaves behind\<close>

text \<open>The pieces of which the changes of a client's request consist: limiters of a proxy, a
  record of the replicated map, and the balancer. A request that panics half way leaves some
  of them.\<close>

inductive request_touch :: "'l gateway \<Rightarrow> 'l gateway \<Rightarrow> bool" where
  touch_limiters: "request_touch g (upd_proxy p (\<lambda>h. h\<lparr>Methods := ms\<rparr>) g)"
| touch_record: "request_touch g (record_limiter m pat info g)"
| touch_chosen: "Balancer_Balance key (Lb (proxies g p)) = Ret (res, lb) \<Longrightarrow>
    request_touch g (upd_proxy p (\<lambda>h. h\<lparr>Lb := lb\<rparr>) g)"
| touch_counted: "request_touch g (upd_proxy p (\<lambda>h. h\<lparr>Lb := Balancer_Done x (Balancer_Inc x (Lb h))\<rparr>) g)"

lemma upd_proxy_here: "upd_proxy p f g = upd_proxy p (\<lambda>_. f (proxies g p)) g"
  by (simp add: upd_proxy_def)

lemma touch_methods: "request_touch\<^sup>*\<^sup>* g (upd_proxy p (\<lambda>h. h\<lparr>Methods := ms h\<rparr>) g)"
proof -
  have "upd_proxy p (\<lambda>h. h\<lparr>Methods := ms h\<rparr>) g = upd_proxy p (\<lambda>h. h\<lparr>Methods := ms (proxies g p)\<rparr>) g"
    by (simp add: upd_proxy_def)
  then show ?thesis by (simp add: r_into_rtranclp touch_limiters)
qed

lemma touch_methods_record: "request_touch\<^sup>*\<^sup>* g (record_limiter m pat info (upd_proxy p (\<lambda>h. h\<lparr>Methods := ms h\<rparr>) g))"
  using touch_methods touch_record by (rule rtranclp.rtrancl_into_rtrancl)

lemma invaildToken_touch: "invaildToken rt now p path g = Ret (err, g') \<Longrightarrow> request_touch\<^sup>*\<^sup>* g g'"
  by (auto simp: invaildToken_def configRate_def Let_def split: option.splits sum.splits if_splits prod.splits
      intro!: touch_methods touch_methods_record)

lemma balance_and_forward_touch:
  assumes "balance_and_forward env p req path w g = Ret (w', g')"
  shows "request_touch\<^sup>*\<^sup>* g g'"
proof -
  obtain res lb where res: "Balancer_Balance (GetIP (RemoteAddr req)) (Lb (proxies g p)) = Ret (res, lb)"
    using assms by (auto simp: balance_and_forward_def and_then_eq_Ret)
  let ?g = "upd_proxy p (\<lambda>h. h\<lparr>Lb := lb\<rparr>) g"
  have "request_touch g ?g" using res by (rule touch_chosen)
  moreover have "g' = ?g \<or> (\<exists>x. request_touch ?g g')"
    using assms res touch_counted [of ?g p]
    by (cases res) (auto simp: balance_and_forward_def Let_def split: option.splits)
  ultimately show ?thesis by (auto intro: rtranclp.rtrancl_into_rtrancl)
qed

lemma ServeHTTP_touch:
  assumes "DefaultRouter_ServeHTTP env r req w g = Ret (w', g')"
  shows "request_touch\<^sup>*\<^sup>* g g'"
proof -
  obtain deny where deny: "RadixTree_AccessControl (black_list g) (RemoteIp req) = Ret deny"
    using assms by (auto simp: DefaultRouter_ServeHTTP_def and_then_eq_Ret)
  show ?thesis
  proof (cases deny)
    case False
    then obtain err req1 w1 where chain: "ExecuteFilterChain (filter_chain env) (req, w) = Ret (err, req1, w1)"
      using assms deny by (auto simp: DefaultRouter_ServeHTTP_def and_then_eq_Ret)
    have token: "request_touch\<^sup>*\<^sup>* g g'" if serve: "and_then (invaildToken (rate env) (clock env) p rest g) (\<lambda>(err, g). case err of
        Some e \<Rightarrow> Ret (v e, g) | None \<Rightarrow> balance_and_forward env p req1 rest w1 g) = Ret (w', g')" for p rest v
    proof -
      obtain err g1 where g1: "invaildToken (rate env) (clock env) p rest g = Ret (err, g1)"
        using serve by (auto simp: and_then_eq_Ret)
      with serve have "g' = g1 \<or> request_touch\<^sup>*\<^sup>* g1 g'"
        by (cases err) (auto dest: balance_and_forward_touch)
      with invaildToken_touch [OF g1] show ?thesis by (auto dest: rtranclp_trans)
    qed
    show ?thesis
      using assms False deny chain token
      by (cases err; cases "DefaultRouter_Route r (Path req1)") (auto simp: DefaultRouter_ServeHTTP_def)
  qed (use assms deny in \<open>auto simp: DefaultRouter_ServeHTTP_def\<close>)
qed

lemma SetRateLimiter_touch: "SetRateLimiter rt p info g = Ret (err, g') \<Longrightarrow> request_touch\<^sup>*\<^sup>* g g'"
  by (erule SetRateLimiter_cases) (auto intro!: touch_methods_record)

lemma AddProxyWithLocation_current:
  "AddProxyWithLocation parse n m l g = Ret (err, g') \<Longrightarrow> current g' = current g"
  by (auto simp: AddProxyWithLocation_def NewHTTPProxy_def AddRelations_def HealthCheck_def upd_proxy_def upd_map_def Let_def
      and_then_eq_Ret split: sum.splits option.splits)

subsection \<open>The contract\<close>

text \<open>What an invariant of the gateway must survive. \<open>removal\<close> tells whether hosts may be
  removed from a proxy.\<close>

definition fresh_map :: "(string \<Rightarrow> Location option) \<Rightarrow> (string \<Rightarrow> LimiterInfo list option) \<Rightarrow> string \<Rightarrow> 'l gateway \<Rightarrow> 'l gateway" where
  "fresh_map ls lims rt g = g\<lparr>maps := (maps g)(next_map g := \<lparr>Relations = Map.empty, Locations = ls, Limiters = lims,
     RouterType = rt\<rparr>), current := next_map g, next_map := Suc (next_map g)\<rparr>"

locale gateway_invariant =
  fixes env :: "('m, 'l) cluster_env" and removal :: bool and inv :: "'l gateway \<Rightarrow> bool"
  assumes new_proxy: "inv g \<Longrightarrow> AddProxyWithLocation (env_parse env) (env_replicas env) (current g) l g = Ret (err, g') \<Longrightarrow> inv g'"
    and add_host: "inv g \<Longrightarrow> AddProxy (env_parse env) (current g) pat t g = (err, g') \<Longrightarrow> inv g'"
    and remove_proxy: "inv g \<Longrightarrow> RemoveProxy (current g) order pat g = Ret (err, g') \<Longrightarrow> inv g'"
    and remove_host: "removal \<Longrightarrow> inv g \<Longrightarrow> RemoveHost (current g) pat h g = Ret (err, g') \<Longrightarrow> inv g'"
    and change_balancer: "inv g \<Longrightarrow> ChangeLb n (iter env (dom (HostMap (proxies g p)))) p mode g = (err, g') \<Longrightarrow> inv g'"
    and touched: "inv g \<Longrightarrow> request_touch g g' \<Longrightarrow> inv g'"
    and tick: "inv g \<Longrightarrow> healthCheck_tick p h c b1 b2 g = Ret g' \<Longrightarrow> inv g'"
    and blocks: "inv g \<Longrightarrow> inv (g\<lparr>black_list := tree\<rparr>)"
    and restored: "inv g \<Longrightarrow> inv (GetRouterInstance name (fresh_map ls lims rt g))"
begin

lemma touched_star: "request_touch\<^sup>*\<^sup>* g g' \<Longrightarrow> inv g \<Longrightarrow> inv g'"
  by (induction rule: rtranclp_induct) (auto intro: touched)

lemma set_limiter: "inv g \<Longrightarrow> SetRateLimiter rt p info g = Ret (err, g') \<Longrightarrow> inv g'"
  by (blast intro: touched_star SetRateLimiter_touch)

lemma request: "inv g \<Longrightarrow> DefaultRouter_ServeHTTP w r req resp g = Ret (resp', g') \<Longrightarrow> inv g'"
  by (blast intro: touched_star ServeHTTP_touch)

text \<open>The log.\<close>

lemma entry:
  assumes "inv g" "FSM_Apply env (LogEntry_Encode e) g = Ret (err, g')" "removal \<or> Opt e \<noteq> 5"
  shows "inv g'"
  using assms new_proxy [OF assms(1)] set_limiter [OF assms(1)] blocks [OF assms(1)] remove_proxy [OF assms(1)]
    remove_host [OF _ assms(1)] add_host [OF assms(1)]
  by (auto simp: FSM_Apply_Encode FSM_doNewHttpProxy_def FSM_doSetRateLimiter_def FSM_doHandleAcl_def FSM_doRemoveProxy_def
      FSM_doRemoveHost_def FSM_doAddHost_def and_then_eq_Ret Let_def split: if_splits sum.splits option.splits prod.splits)

lemma applied: "inv g \<Longrightarrow> apply_entry env e g = Ret g' \<Longrightarrow> removal \<or> Opt e \<noteq> 5 \<Longrightarrow> inv g'"
  by (auto simp: apply_entry_def and_then_eq_Ret intro: entry)

text \<open>The restore of a snapshot.\<close>

lemma locations: "inv g \<Longrightarrow> restore_locations env (current g) ls g = Ret g' \<Longrightarrow> inv g'"
proof (induction ls arbitrary: g)
  case (Cons l ls)
  then obtain g1 where g1: "AddProxyWithLocation (env_parse env) (env_replicas env) (current g) l g = Ret (None, g1)"
    "restore_locations env (current g) ls g1 = Ret g'"
    by (auto simp: and_then_eq_Ret split: if_splits)
  show ?case
    using Cons.IH [OF new_proxy [OF Cons.prems(1) g1(1)]] g1(2) AddProxyWithLocation_current [OF g1(1)] by simp
qed simp

lemma fold_kept: "(\<And>x g g'. P g \<Longrightarrow> f x g = Ret g' \<Longrightarrow> P g') \<Longrightarrow> fold_outcome f xs g = Ret g' \<Longrightarrow> P g \<Longrightarrow> P g'"
  by (rule fold_outcome_keeps)

lemma limiters: "restore_limiters env m ks g = Ret g' \<Longrightarrow> inv g \<Longrightarrow> inv g'"
  unfolding restore_limiters_def
proof (erule fold_kept [rotated, where P = inv])
  fix key g g'
  assume inv: "inv g" and ret: "(case Relations (maps g m) key of None \<Rightarrow> Ret g
    | Some p \<Rightarrow> fold_outcome (\<lambda>info g. and_then (SetRateLimiter (env_rate env) p info g) (\<lambda>(err, g'). Ret g'))
        (case Limiters (maps g m) key of None \<Rightarrow> [] | Some infos \<Rightarrow> infos) g) = Ret g'"
  show "inv g'"
  proof (cases "Relations (maps g m) key")
    case (Some p)
    then show ?thesis
      using ret inv
      by (auto elim!: fold_kept [rotated, where P = inv] simp: and_then_eq_Ret intro: set_limiter)
  qed (use inv ret in simp)
qed

lemma restore:
  assumes "inv g" "FSM_Restore env s g = Ret g'"
  shows "inv g'"
proof -
  let ?g = "GetRouterInstance (snap_RouterType s) (fresh_map (snap_Locations s) (snap_Limiters s) (snap_RouterType s) g)"
  have cur: "current ?g = next_map g" by (simp add: GetRouterInstance_def fresh_map_def)
  obtain g3 g4 t where steps: "restore_locations env (current ?g) (map_values env (snap_Locations s)) ?g = Ret g3"
    "restore_limiters env (next_map g) (iter env (dom (Limiters (maps g3 (next_map g))))) g3 = Ret g4" "g' = g4\<lparr>black_list := t\<rparr>"
    using assms(2) unfolding cur by (auto simp: FSM_Restore_def fresh_map_def Let_def and_then_eq_Ret)
  have "inv g3" by (rule locations [OF restored [OF assms(1)] steps(1)])
  with steps(2) have "inv g4" by (rule limiters)
  then show ?thesis unfolding steps(3) by (rule blocks)
qed

text \<open>The handlers.\<close>

lemma written:
  assumes "inv (nd_gateway nd)" "cluster senv = env" "writeLogEntry senv n d nd = Ret (err, nd')" "removal \<or> n \<noteq> 5"
  shows "inv (nd_gateway nd')"
  using assms entry [OF assms(1), of "\<lparr>Opt = n, Data = d\<rparr>"]
  by (auto simp: writeLogEntry_def Let_def and_then_eq_Ret split: prod.splits option.splits)

lemma answered:
  assumes "inv (nd_gateway nd)" "cluster senv = env" "log_and_answer senv n d nd = Ret (resp, nd')" "removal \<or> n \<noteq> 5"
  shows "inv (nd_gateway nd')"
proof -
  obtain err where "writeLogEntry senv n d nd = Ret (err, nd')"
    using assms(3) by (auto simp: log_and_answer_def and_then_eq_Ret split: option.splits)
  then show ?thesis by (rule written [OF assms(1,2) _ assms(4)])
qed

lemma created:
  assumes "inv (nd_gateway nd)" "cluster senv = env" "createProxyWithLocation senv l nd = Ret nd'"
  shows "inv (nd_gateway nd')"
proof -
  obtain err g' err' where g': "AddProxyWithLocation (env_parse env) (env_replicas env) (current (nd_gateway nd)) l (nd_gateway nd) = Ret (err, g')"
    "writeLogEntry senv 1 (enc_location env l) (set_gateway g' nd) = Ret (err', nd')"
    using assms(2,3) by (auto simp: createProxyWithLocation_def Let_def and_then_eq_Ret split: if_splits)
  show ?thesis
    by (rule written [OF _ assms(2) g'(2)]) (simp_all add: new_proxy [OF assms(1) g'(1)])
qed

lemma answered_set:
  "log_and_answer senv n d (set_gateway g nd) = Ret (resp, nd') \<Longrightarrow> inv g \<Longrightarrow> cluster senv = env \<Longrightarrow> removal \<or> n \<noteq> 5
    \<Longrightarrow> inv (nd_gateway nd')"
  by (rule answered [of "set_gateway g nd"]) simp_all

lemma adding_proxy:
  assumes "inv (nd_gateway nd)" "cluster senv = env" "doAddProxy senv b nd = Ret (resp, nd')"
  shows "inv (nd_gateway nd')"
  using assms(1,3) created [OF assms(1,2)]
  by (auto simp: doAddProxy_def and_then_eq_Ret split: if_splits sum.splits option.splits)

lemma adding_host:
  assumes "inv (nd_gateway nd)" "cluster senv = env" "doAddHost senv b nd = Ret (resp, nd')"
  shows "inv (nd_gateway nd')"
proof (cases "dec_host (cluster senv) b")
  case (Inr req)
  obtain err g' where g': "AddProxy (env_parse env) (current (nd_gateway nd)) (host_Pattern req) (host_Host req) (nd_gateway nd) = (err, g')"
    by force
  show ?thesis
    using assms(2,3) Inr g' add_host [OF assms(1) g'] answered_set [OF _ _ assms(2)]
    by (cases err) (auto simp: doAddHost_def)
qed (use assms in \<open>simp add: doAddHost_def\<close>)

lemma removing_proxy:
  assumes "inv (nd_gateway nd)" "cluster senv = env" "doRemoveProxy senv b nd = Ret (resp, nd')"
  shows "inv (nd_gateway nd')"
proof (cases "dec_pattern senv b")
  case (Inr pat)
  then obtain err g' order where g': "RemoveProxy (current (nd_gateway nd)) order pat (nd_gateway nd) = Ret (err, g')"
    "log_and_answer senv 4 (bytes_of pat) (set_gateway g' nd) = Ret (resp, nd') \<or> nd' = set_gateway g' nd"
    using assms(3) by (auto simp: doRemoveProxy_def Let_def and_then_eq_Ret split: option.splits)
  show ?thesis using g'(2) remove_proxy [OF assms(1) g'(1)] answered_set [OF _ _ assms(2)] by fastforce
qed (use assms in \<open>simp add: doRemoveProxy_def\<close>)

lemma removing_host:
  assumes "inv (nd_gateway nd)" "cluster senv = env" "doRemoveHost senv b nd = Ret (resp, nd')" "removal"
  shows "inv (nd_gateway nd')"
proof (cases "dec_host (cluster senv) b")
  case (Inr req)
  then obtain err g' where g': "RemoveHost (current (nd_gateway nd)) (host_Pattern req) (host_Host req) (nd_gateway nd) = Ret (err, g')"
    "log_and_answer senv 5 (enc_host (cluster senv) req) (set_gateway g' nd) = Ret (resp, nd') \<or> nd' = set_gateway g' nd"
    using assms(3) by (auto simp: doRemoveHost_def Let_def and_then_eq_Ret split: option.splits)
  show ?thesis using g'(2) remove_host [OF assms(4,1) g'(1)] answered_set [OF _ _ assms(2)] assms(4) by fastforce
qed (use assms in \<open>simp add: doRemoveHost_def\<close>)

lemma changing_balancer:
  assumes "inv (nd_gateway nd)" "cluster senv = env" "doChangeLb senv b nd = Ret (resp, nd')"
  shows "inv (nd_gateway nd')"
  using assms change_balancer [OF assms(1)]
  by (auto simp: doChangeLb_def Let_def split: sum.splits option.splits prod.splits)

lemma setting_limiter:
  assumes "inv (nd_gateway nd)" "cluster senv = env" "doSetRateLimiter senv b nd = Ret (resp, nd')"
  shows "inv (nd_gateway nd')"
proof -
  have log: "inv (nd_gateway nd1)" if "writeLogEntry senv 2 d nd = Ret (err, nd1)" for d err nd1
    using written [OF assms(1,2) that] by simp
  have "nd' = nd \<or> (\<exists>d err. writeLogEntry senv 2 d nd = Ret (err, nd'))
      \<or> (\<exists>d err nd1 rt p info err' g. writeLogEntry senv 2 d nd = Ret (err, nd1)
           \<and> SetRateLimiter (rt :: ('m, 'l) rate_pkg) p info (nd_gateway nd1) = Ret (err', g) \<and> nd' = set_gateway g nd1)"
    using assms(2,3)
    by (simp add: doSetRateLimiter_def and_then_eq_Ret split: if_splits sum.splits option.splits) metis+
  then show ?thesis using assms(1) log set_limiter by (metis set_gateway_simps(1))
qed

lemma blocking:
  assumes "inv (nd_gateway nd)" "cluster senv = env" "doHandleAcl senv b nd = Ret (resp, nd')"
  shows "inv (nd_gateway nd')"
proof (cases "dec_acl (cluster senv) b")
  case (Inr req)
  then have "nd' = nd \<or> (\<exists>t. nd' = set_gateway ((nd_gateway nd)\<lparr>black_list := t\<rparr>) nd)
      \<or> (\<exists>t. log_and_answer senv 3 (enc_acl (cluster senv) req) (set_gateway ((nd_gateway nd)\<lparr>black_list := t\<rparr>) nd) = Ret (resp, nd'))"
    using assms(3) by (auto simp: doHandleAcl_def Let_def and_then_eq_Ret split: if_splits option.splits)
  then show ?thesis using assms(1) blocks [OF assms(1)] answered_set [OF _ _ assms(2)] by fastforce
qed (use assms in \<open>auto simp: doHandleAcl_def split: if_splits\<close>)

lemma called:
  assumes "inv (nd_gateway nd)" "cluster senv = env" "serve_api senv conf files r nd = Ret (resp, nd')"
    "removal \<or> call_path r \<noteq> ''/removeHost''"
  shows "inv (nd_gateway nd')"
  using assms adding_proxy [OF assms(1,2)] adding_host [OF assms(1,2)] removing_proxy [OF assms(1,2)]
    removing_host [OF assms(1,2)] changing_balancer [OF assms(1,2)] setting_limiter [OF assms(1,2)] blocking [OF assms(1,2)]
  by (auto simp: serve_api_def Let_def doPing_def doJoin_def doGetMethods_def doGetRaftClusterInfo_def doGetInfo_def
      doGetProxy_def doGetMehtodLimiter_def doGetAccessControlList_def doGetRateLimiterType_def doGetBalancerMode_def
      split: if_splits sum.splits option.splits prod.splits)

lemma notified:
  assumes "inv (nd_gateway nd)" "cluster senv = env" "leader_notified senv conf init leader nd = Ret nd'"
  shows "inv (nd_gateway nd')"
proof -
  have "inv (nd_gateway nd1)" if "createProxy senv conf nd = Ret nd1" for nd1
    using that assms(1) unfolding createProxy_def
    by (rule fold_kept [where P = "\<lambda>nd. inv (nd_gateway nd)", rotated]) (rule created [OF _ assms(2)])
  then show ?thesis
    using assms by (auto simp: leader_notified_def SetWriteFlag_def and_then_eq_Ret split: if_splits)
qed

end

subsection \<open>The healthy gateway\<close>

definition healthy :: "'l gateway \<Rightarrow> bool" where
  "healthy g \<longleftrightarrow> good_gateway g \<and> routed g"

lemma routed_cong:
  "router g' = router g \<Longrightarrow> Relations (maps g' (current g')) = Relations (maps g (current g)) \<Longrightarrow> routed g' = routed g"
  by (simp add: routed_def)

lemma same_routes_healthy: "same_routes g g' \<Longrightarrow> healthy g \<Longrightarrow> healthy g'"
  using same_routes_keeps(2) [of g g'] routed_cong [of g' g] by (auto simp: healthy_def same_routes_def)

lemma request_touch_same: "request_touch g g' \<Longrightarrow> same_routes g g'"
  by (induction rule: request_touch.induct) (auto intro: same_routes_upd_proxy same_routes_record_limiter)

lemma built_routed:
  assumes "routed g" shows "routed (built parts lb l g)"
proof -
  let ?g = "built parts lb l g"
  have "router ?g = map_option (\<lambda>routes. routes(l_Pattern l \<mapsto> next_proxy g)) (router g)" "current ?g = current g"
    "Relations (maps ?g (current g)) = (Relations (maps g (current g)))(l_Pattern l \<mapsto> next_proxy g)"
    by (simp_all add: built_def HealthCheck_def)
  then show ?thesis using assms by (auto simp: routed_def)
qed

lemma RemoveProxy_routed:
  assumes "routed g" "RemoveProxy (current g) order pat g = Ret (err, g')"
  shows "routed g'"
proof (cases "Relations (maps g (current g)) pat")
  case (Some p)
  then obtain routes where "router (shutDownCheck order p g) = Some routes"
    "g' = upd_map (current g) (\<lambda>pm. pm\<lparr>Relations := (Relations pm)(pat := None), Locations := (Locations pm)(pat := None)\<rparr>)
       (shutDownCheck order p g\<lparr>router := Some (routes(pat := None))\<rparr>)"
    using assms(2) by (auto simp: RemoveProxy_def Let_def split: if_splits option.splits)
  then show ?thesis
    using assms(1) shutdown_loop_frame [of p order "g\<lparr>watchers := remove1 p (watchers g)\<rparr>"]
    by (auto simp: routed_def shutDownCheck_def upd_map_def)
qed (use assms in \<open>simp add: RemoveProxy_def\<close>)

lemma AddProxyWithLocation_healthy:
  fixes env :: "('m, 'l) cluster_env" and g :: "'l gateway"
  assumes "healthy g" "AddProxyWithLocation (env_parse env) n (current g) l g = Ret (err, g')"
  shows "healthy g'"
proof -
  have "router g \<noteq> None" using assms(1) by (simp add: healthy_def good_gateway_def)
  then show ?thesis
    by (rule AddProxyWithLocation_cases [where env = env and n = n and l = l and v = "view g"])
      (use assms built_good built_routed in \<open>auto simp: healthy_def\<close>)
qed

lemma AddProxy_same_table:
  "AddProxy parse m pat t g = (err, g') \<Longrightarrow> router g' = router g \<and> maps g' = maps g \<and> current g' = current g"
  by (auto simp: AddProxy_def upd_proxy_def Let_def split: option.splits sum.splits)

lemma RemoveHost_same_table:
  "RemoveHost m pat h g = Ret (err, g') \<Longrightarrow> router g' = router g \<and> maps g' = maps g \<and> current g' = current g"
  by (auto simp: RemoveHost_def send_shutdown_def upd_proxy_def split: option.splits if_splits)

interpretation healthy: gateway_invariant env True "healthy :: 'l gateway \<Rightarrow> bool" for env :: "('m, 'l) cluster_env"
proof unfold_locales
  fix g g' :: "'l gateway" and l err pat t h n p mode order c b1 b2 tree nm ls lims rt
  assume inv: "healthy g"
  then have good: "good_gateway g" "routed g" by (simp_all add: healthy_def)
  show "AddProxyWithLocation (env_parse env) (env_replicas env) (current g) l g = Ret (err, g') \<Longrightarrow> healthy g'"
    using inv by (rule AddProxyWithLocation_healthy)
  show "AddProxy (env_parse env) (current g) pat t g = (err, g') \<Longrightarrow> healthy g'"
    using good AddProxy_refines [OF good(1)] AddProxy_same_table routed_cong unfolding healthy_def by metis
  show "RemoveProxy (current g) order pat g = Ret (err, g') \<Longrightarrow> healthy g'"
    using RemoveProxy_refines [OF good(1), of order pat] RemoveProxy_routed [OF good(2)] by (auto simp: healthy_def)
  show "healthy g'" if ret: "RemoveHost (current g) pat h g = Ret (err, g')"
  proof -
    obtain p where "Relations (maps g (current g)) pat = Some p"
      using ret by (cases "Relations (maps g (current g)) pat") (auto simp: RemoveHost_def)
    from RemoveHost_refines [OF good(1) this, of h] ret RemoveHost_same_table [OF ret] routed_cong [of g' g] good(2)
    show ?thesis by (auto simp: healthy_def)
  qed
  show "ChangeLb n (iter env (dom (HostMap (proxies g p)))) p mode g = (err, g') \<Longrightarrow> healthy g'"
    using inv ChangeLb_same same_routes_healthy by blast
  show "request_touch g g' \<Longrightarrow> healthy g'"
    using inv request_touch_same same_routes_healthy by blast
  show "healthCheck_tick p h c b1 b2 g = Ret g' \<Longrightarrow> healthy g'"
    using inv healthCheck_tick_same same_routes_healthy by blast
  show "healthy (g\<lparr>black_list := tree\<rparr>)"
    using inv same_routes_black_list same_routes_healthy by blast
  show "healthy (GetRouterInstance nm (fresh_map ls lims rt g))"
    using good
    by (auto simp: healthy_def good_gateway_def watched_def registered_def serviced_def routed_def GetRouterInstance_def
        fresh_map_def Let_def)
qed

subsection \<open>The steps of a node\<close>

text \<open>Everything that changes a node: a call of the management API, an entry of the log that
  another node has written, the restore of a snapshot, a notification of the raft library, a
  client's request, one that panics half way and leaves some of its changes, and a tick of a
  health check. \<open>removal\<close> tells whether hosts may be removed. A management call that panics on a
  healthy node has changed nothing before, or the process ends; only an operation on the black
  list may panic or hang when it has changed the list in part, which \<open>step_torn\<close> covers with
  any list at all.\<close>

inductive node_step ::
  "('m, 'l, 'r) server_env \<Rightarrow> CherylConfig \<Rightarrow> bool \<Rightarrow> ('l, 'r) node \<Rightarrow> ('l, 'r) node \<Rightarrow> bool"
  for env conf removal where
  step_call: "serve_api env conf files r nd = Ret (resp, nd') \<Longrightarrow> removal \<or> call_path r \<noteq> ''/removeHost'' \<Longrightarrow>
    node_step env conf removal nd nd'"
| step_entry: "apply_entry (cluster env) e (nd_gateway nd) = Ret g' \<Longrightarrow> removal \<or> Opt e \<noteq> 5 \<Longrightarrow>
    node_step env conf removal nd (set_gateway g' nd)"
| step_restore: "FSM_Restore (cluster env) s (nd_gateway nd) = Ret g' \<Longrightarrow> node_step env conf removal nd (set_gateway g' nd)"
| step_notified: "leader_notified env conf init leader nd = Ret nd' \<Longrightarrow> node_step env conf removal nd nd'"
| step_request: "rate w = env_rate (cluster env) \<Longrightarrow> router (nd_gateway nd) = Some routes \<Longrightarrow>
    DefaultRouter_ServeHTTP w routes req resp (nd_gateway nd) = Ret (resp', g') \<Longrightarrow>
    node_step env conf removal nd (set_gateway g' nd)"
| step_panicked: "rate w = env_rate (cluster env) \<Longrightarrow> router (nd_gateway nd) = Some routes \<Longrightarrow>
    DefaultRouter_ServeHTTP w routes req resp (nd_gateway nd) = Panic x \<Longrightarrow> request_touch\<^sup>*\<^sup>* (nd_gateway nd) g' \<Longrightarrow>
    node_step env conf removal nd (set_gateway g' nd)"
| step_torn: "(\<exists>x. serve_api env conf files r nd \<in> {Panic x, Stuck}) \<and> call_path r = ''/acl'' \<or> apply_entry (cluster env) e (nd_gateway nd) = Stuck
    \<Longrightarrow> node_step env conf removal nd (set_gateway ((nd_gateway nd)\<lparr>black_list := t\<rparr>) nd)"
| step_tick: "healthCheck_tick p h c probe1 probe2 (nd_gateway nd) = Ret g' \<Longrightarrow> node_step env conf removal nd (set_gateway g' nd)"

context gateway_invariant
begin

lemma stepped:
  assumes "node_step senv conf removal nd nd'" "cluster senv = env" "inv (nd_gateway nd)"
  shows "inv (nd_gateway nd')"
  using assms(1)
proof cases
  case (step_call files r resp)
  then show ?thesis by (rule called [OF assms(3,2)])
next
  case (step_entry e g')
  then show ?thesis using applied [OF assms(3)] assms(2) by simp
next
  case (step_restore s g')
  then show ?thesis using restore [OF assms(3)] assms(2) by simp
next
  case (step_notified init leader)
  then show ?thesis using notified [OF assms(3,2)] by simp
next
  case (step_request w routes req resp resp' g')
  then show ?thesis using request [OF assms(3)] by simp
next
  case (step_panicked w routes req resp x g')
  then show ?thesis using touched_star assms(3) by simp
next
  case (step_torn files r e t)
  then show ?thesis using blocks [OF assms(3)] by simp
next
  case (step_tick p h c probe1 probe2 g')
  then show ?thesis using tick [OF assms(3)] by simp
qed

lemma reached:
  assumes "(node_step senv conf removal)\<^sup>*\<^sup>* nd nd'" "cluster senv = env" "inv (nd_gateway nd)"
  shows "inv (nd_gateway nd')"
  using assms by (induction rule: rtranclp_induct) (simp, metis stepped)

end

lemma started_healthy:
  assumes "main_run read_yaml listen createRaftNode http_get path = Ret nd"
  shows "healthy (nd_gateway nd)"
  using main_run_ready [OF assms] by (simp add: healthy_def good_gateway_def serviced_def routed_def)

lemma reachable_healthy:
  assumes "main_run read_yaml listen createRaftNode http_get path = Ret nd0" "(node_step env conf True)\<^sup>*\<^sup>* nd0 nd"
  shows "healthy (nd_gateway nd)"
  by (rule healthy.reached [OF assms(2) refl started_healthy [OF assms(1)]])

text \<open>A node that has been started as the leader of a cluster, with one route, and elected.\<close>

definition demo_started :: "(int \<times> int, unit) node" where
  "demo_started = \<lparr>nd_gateway = process_globals\<lparr>maps := (\<lambda>_. NewProxyMap), next_map := 1, router := Some Map.empty\<rparr>,
     enableWrite = False, peer_addresses = [], raft_state = ()\<rparr>"

lemma demo_starts:
  "main_run (\<lambda>_. Inr (Some leader_conf)) (\<lambda>_. True) (\<lambda>_. Inr ()) (\<lambda>_. Inl ''refused'') ''config.yaml'' = Ret demo_started"
  by (simp add: main_run_def ReadConfig_def leader_conf_def demo_conf_def CherylConfig_Validation_def Start_def createListener_def
      startRouter_def GetRouterInstance_def new_node_def process_globals_def demo_started_def set_gateway_def
      fun_upd_idem)

lemma demo_adds:
  "AddProxyWithLocation (env_parse demo_env) n m (hd (Locations_cfg leader_conf)) (nd_gateway demo_started)
    = Ret (None, g) \<Longrightarrow> Relations (maps g m) = [''/api'' \<mapsto> 0] \<and> router g = Some [''/api'' \<mapsto> 0] \<and> current g = 0
      \<and> Lb (proxies g 0) = RR (NewRoundRobin [''a:80'']) \<and> black_list g = NewRadixTree"
  by (auto simp: AddProxyWithLocation_def NewHTTPProxy_def leader_conf_def demo_env_def demo_parse_def Build_def factories_def
      AddRelations_def HealthCheck_def upd_proxy_def upd_map_def demo_started_def process_globals_def NewProxyMap_def
      GetHost_demo Let_def)

lemma demo_elected:
  obtains nd where "(node_step demo_server leader_conf removal)\<^sup>*\<^sup>* demo_started nd" "own_proxy ''/api'' nd = Some 0"
    "router (nd_gateway nd) = Some [''/api'' \<mapsto> 0]" "Lb (proxies (nd_gateway nd) 0) = RR (NewRoundRobin [''a:80''])"
    "black_list (nd_gateway nd) = NewRadixTree" "enableWrite nd"
proof -
  let ?g = "nd_gateway demo_started" and ?l = "hd (Locations_cfg leader_conf)"
  have g: "router ?g = Some Map.empty" "registered (current ?g) ?g" using main_run_ready [OF demo_starts] by simp_all
  have ann: "announced_ok (cluster demo_server) l" if "l \<in> set (Locations_cfg leader_conf)" for l
    using demo_announced that by (auto simp: demo_server_def)
  obtain nd1 where nd1: "createProxy demo_server leader_conf demo_started = Ret nd1"
    "restore_locations demo_env (current ?g) (Locations_cfg leader_conf) ?g = Ret (nd_gateway nd1)"
    using createProxy_ok [OF ann g] by (auto simp: demo_server_def)
  have one: "Locations_cfg leader_conf = [?l]" by (simp add: leader_conf_def)
  then have "restore_locations demo_env (current ?g) [?l] ?g = Ret (nd_gateway nd1)" using nd1(2) by simp
  then have "AddProxyWithLocation (env_parse demo_env) (env_replicas demo_env) (current ?g) ?l ?g = Ret (None, nd_gateway nd1)"
    by (auto simp: and_then_eq_Ret split: if_splits)
  note made = demo_adds [OF this]
  have "leader_notified demo_server leader_conf False True demo_started = Ret (SetWriteFlag True nd1)"
    using nd1(1) by (simp add: leader_notified_def)
  then have "node_step demo_server leader_conf removal demo_started (SetWriteFlag True nd1)" by (rule step_notified)
  then have "(node_step demo_server leader_conf removal)\<^sup>*\<^sup>* demo_started (SetWriteFlag True nd1)" ..
  then show thesis
    by (rule that) (use made in \<open>simp_all add: SetWriteFlag_def own_proxy_def demo_started_def process_globals_def\<close>)
qed

text \<open>C3: a node stays healthy for its whole life. Whatever happens to it after it has started,
  management calls, log entries, snapshots, elections, requests, also those that panic, and
  health checks, the router finds every registered route, every registered proxy has its
  goroutine waiting for the signal to shut down, no two routes share a proxy, and every host
  has a health check that can be stopped.\<close>

theorem reachable_node_healthy:
  assumes "main_run read_yaml listen createRaftNode http_get path = Ret nd0" "(node_step env conf True)\<^sup>*\<^sup>* nd0 nd"
  shows "routed (nd_gateway nd) \<and> watched (nd_gateway nd) \<and> serviced (nd_gateway nd)
    \<and> registered (current (nd_gateway nd)) (nd_gateway nd)"
  using reachable_healthy [OF assms] by (simp add: healthy_def good_gateway_def)

theorem reachable_node_healthy_witness:
  "\<exists>nd :: (int \<times> int, unit) node. own_proxy ''/api'' nd = Some 0 \<and> routed (nd_gateway nd) \<and> serviced (nd_gateway nd)"
proof -
  obtain nd where "(node_step demo_server leader_conf True)\<^sup>*\<^sup>* demo_started nd" "own_proxy ''/api'' nd = Some 0"
    by (rule demo_elected)
  with reachable_node_healthy [OF demo_starts this(1)] show ?thesis by blast
qed

text \<open>C18: no management request but those about the black list hangs a node, at any time of its
  life and whatever the raft library and the decoders answer: every such request returns,
  panics or ends the process.\<close>

theorem reachable_node_never_hangs:
  assumes "main_run read_yaml listen createRaftNode http_get path = Ret nd0" "(node_step env conf True)\<^sup>*\<^sup>* nd0 nd"
    and "call_path r \<noteq> ''/acl''"
  shows "serve_api env conf files r nd \<noteq> Stuck"
  using serve_api_fine [OF _ assms(3), of nd env conf files] reachable_healthy [OF assms(1,2)]
  by (simp add: fine_def healthy_def good_gateway_def)

theorem reachable_node_never_hangs_witness:
  "\<exists>nd. own_proxy ''/api'' nd = Some 0
    \<and> serve_api demo_server leader_conf (\<lambda>_. Status 404) (demo_call ''/removeProxy'' (bytes_of ''/api'')) nd \<noteq> Stuck"
proof -
  have "call_path (demo_call ''/removeProxy'' (bytes_of ''/api'')) \<noteq> ''/acl''" by (simp add: demo_call_def)
  moreover obtain nd where "(node_step demo_server leader_conf True)\<^sup>*\<^sup>* demo_started nd" "own_proxy ''/api'' nd = Some 0"
    by (rule demo_elected)
  ultimately show ?thesis using reachable_node_never_hangs [OF demo_starts] by blast
qed

end
