(* ===== verification/Forwarding.thy ===== *)
theory Forwarding
  imports NodeSteps
begin

text \<open>
  Requests on a reachable node. A balancer that rotates chooses among the hosts of its list, and
  the router reads the reverse proxy of the chosen host from the host map, whose absent
  entries are \<open>nil\<close>. \<open>serving\<close> keeps the two together: it survives every step of a node but
  the removal of a host, and while it holds, a request to such a proxy is answered.
\<close>

subsection \<open>The invariant\<close>

fun rotates_in :: "string set \<Rightarrow> Balancer \<Rightarrow> bool" where
  "rotates_in S (RR r) = (set (rr_hosts r) \<subseteq> S)"
| "rotates_in S (CH c) = True"

definition rr_backed :: "'l HTTPProxy \<Rightarrow> bool" where
  "rr_backed h \<longleftrightarrow> rotates_in (dom (HostMap h)) (Lb h)"

text \<open>The iteration over a Go map meets keys of the map only.\<close>

definition iter_sound :: "('m, 'l) cluster_env \<Rightarrow> bool" where
  "iter_sound env \<longleftrightarrow> (\<forall>S. set (iter env S) \<subseteq> S)"

definition serving :: "('m, 'l) cluster_env \<Rightarrow> 'l gateway \<Rightarrow> bool" where
  "serving env g \<longleftrightarrow> iter_sound env \<and> router g \<noteq> None \<and> registered (current g) g
     \<and> (\<forall>p h. health g p h \<noteq> [] \<longrightarrow> p < next_proxy g \<and> HostMap (proxies g p) h \<noteq> None)
     \<and> (\<forall>p. rr_backed (proxies g p))
     \<and> (\<forall>routes k p. router g = Some routes \<longrightarrow> routes k = Some p \<longrightarrow> p < next_proxy g \<and> Owner (proxies g p) \<noteq> None)"

lemma serving_health: "serving env g \<Longrightarrow> health g p h \<noteq> [] \<Longrightarrow> p < next_proxy g \<and> HostMap (proxies g p) h \<noteq> None"
  by (simp add: serving_def)

lemma rr_backed_cong: "Lb h' = Lb h \<Longrightarrow> HostMap h' = HostMap h \<Longrightarrow> rr_backed h' = rr_backed h"
  by (simp add: rr_backed_def)

text \<open>A change of one proxy that keeps its owner, its pattern and its hosts.\<close>

lemma serving_upd_proxy:
  assumes "serving env g" "rr_backed (f (proxies g p))" "HostMap (f (proxies g p)) = HostMap (proxies g p)"
    "Pattern (f (proxies g p)) = Pattern (proxies g p)" "Owner (f (proxies g p)) = Owner (proxies g p)"
  shows "serving env (upd_proxy p f g)"
  using assms by (auto simp: serving_def upd_proxy_def registered_def)

lemma rr_hosts_balance: "RoundRobin_Balance k r = (res, r') \<Longrightarrow> rr_hosts r' = rr_hosts r"
  by (auto simp: RoundRobin_Balance_def Let_def split: if_splits)

lemma Balancer_Balance_backed:
  "Balancer_Balance k (Lb h) = Ret (res, lb) \<Longrightarrow> rr_backed h \<Longrightarrow> rr_backed (h\<lparr>Lb := lb\<rparr>)"
  by (cases "Lb h") (auto simp: rr_backed_def rr_hosts_balance and_then_eq_Ret split: prod.splits)

lemma Balancer_counted_backed: "rr_backed h \<Longrightarrow> rr_backed (h\<lparr>Lb := Balancer_Done x (Balancer_Inc x (Lb h))\<rparr>)"
  by (cases "Lb h") (auto simp: rr_backed_def RoundRobin_Inc_def RoundRobin_Done_def)

lemma serving_touch:
  assumes "serving env g" "request_touch g g'"
  shows "serving env g'"
  using assms(2,1)
proof cases
  case (touch_limiters p ms)
  have "rr_backed (proxies g p)" using assms(1) by (simp add: serving_def)
  then show ?thesis unfolding touch_limiters by (intro serving_upd_proxy [OF assms(1)]) (simp_all add: rr_backed_def)
next
  case (touch_record m pat info)
  then show ?thesis using assms(1) by (auto simp: serving_def record_limiter_def upd_map_def registered_def)
next
  case (touch_chosen key p res lb)
  have "rr_backed (proxies g p)" using assms(1) by (simp add: serving_def)
  then show ?thesis
    unfolding touch_chosen by (intro serving_upd_proxy [OF assms(1)]) (simp_all add: Balancer_Balance_backed [OF touch_chosen(2)])
next
  case (touch_counted p x)
  have "rr_backed (proxies g p)" using assms(1) by (simp add: serving_def)
  then show ?thesis
    unfolding touch_counted by (intro serving_upd_proxy [OF assms(1)]) (simp_all add: Balancer_counted_backed)
qed

lemma Build_backed: "Build n mode hosts = Inr lb \<Longrightarrow> set hosts \<subseteq> dom (HostMap h) \<Longrightarrow> rr_backed (h\<lparr>Lb := lb\<rparr>)"
  by (auto simp: Build_def factories_def rr_backed_def NewRoundRobin_def split: if_splits)

lemma serving_change:
  assumes "serving env g" "ChangeLb n (iter env (dom (HostMap (proxies g p)))) p mode g = (err, g')"
  shows "serving env g'"
proof (cases "Build n mode (iter env (dom (HostMap (proxies g p))))")
  case (Inr lb)
  have "set (iter env (dom (HostMap (proxies g p)))) \<subseteq> dom (HostMap (proxies g p))"
    using assms(1) by (simp add: serving_def iter_sound_def)
  with Inr have "rr_backed ((proxies g p)\<lparr>Lb := lb\<rparr>)" by (rule Build_backed)
  moreover have "g' = upd_proxy p (\<lambda>h. h\<lparr>Lb := lb\<rparr>) g" using assms(2) Inr by (simp add: ChangeLb_def)
  ultimately show ?thesis by (simp add: serving_upd_proxy [OF assms(1)])
qed (use assms in \<open>auto simp: ChangeLb_def\<close>)

lemma serving_add_host:
  assumes "serving env g" "AddProxy parse (current g) pat t g = (err, g')"
  shows "serving env g'"
proof (cases "Relations (maps g (current g)) pat")
  case (Some p)
  have p: "p < next_proxy g" "rr_backed (proxies g p)" using assms(1) Some by (auto simp: serving_def registered_def)
  show ?thesis
  proof (cases "parse t")
    case (Inr u)
    let ?h = "\<lambda>h. h\<lparr>HostMap := (HostMap h)(GetHost u \<mapsto> u), Alive := (Alive h)(GetHost u \<mapsto> True),
        HostsShutDown := (HostsShutDown h)(GetHost u \<mapsto> next_chan g), Lb := Balancer_Add (GetHost u) (Lb h)\<rparr>"
    have "rr_backed (?h (proxies g p))"
      using p(2) by (cases "Lb (proxies g p)") (auto simp: rr_backed_def RoundRobin_Add_def)
    moreover have "g' = (upd_proxy p ?h g)\<lparr>next_chan := Suc (next_chan g),
        health := (health g)(p := (health g p)(GetHost u := next_chan g # health g p (GetHost u)))\<rparr>"
      using assms(2) Some Inr by (simp add: AddProxy_def Let_def) (simp add: upd_proxy_def)
    ultimately show ?thesis
      using assms(1) p(1) by (auto simp: serving_def upd_proxy_def registered_def)
  qed (use assms Some in \<open>simp add: AddProxy_def\<close>)
qed (use assms in \<open>simp add: AddProxy_def\<close>)

lemma health_tick_backed:
  assumes "health_tick b1 b2 host h = Ret h'" "rr_backed h" "HostMap h host \<noteq> None"
  shows "rr_backed h'"
proof (cases "Lb h")
  case (RR r)
  then show ?thesis
    using assms set_remove1_subset [of host "rr_hosts r"]
    by (auto simp: health_tick_def SetAlive_def rr_backed_def RoundRobin_Add_def split: if_splits)
next
  case (CH c)
  then show ?thesis
    using assms by (auto simp: health_tick_def SetAlive_def rr_backed_def and_then_eq_Ret split: if_splits)
qed

lemma serving_tick:
  assumes "serving env g" "healthCheck_tick p host c b1 b2 g = Ret g'"
  shows "serving env g'"
proof (cases "c \<in> set (health g p host)")
  case True
  then obtain h where h: "health_tick b1 b2 host (proxies g p) = Ret h"
    "g' = (g\<lparr>proxies := (proxies g)(p := h)\<rparr>)\<lparr>health := (health g)(p := (health g p)(host :=
       (case HostsShutDown h host of None \<Rightarrow> c | Some c' \<Rightarrow> c') # remove1 c (health g p host)))\<rparr>"
    using assms(2) by (auto simp: healthCheck_tick_def and_then_eq_Ret Let_def)
  have "health g p host \<noteq> []" using True by auto
  from serving_health [OF assms(1) this] assms(1)
  have host: "p < next_proxy g" "HostMap (proxies g p) host \<noteq> None" "rr_backed (proxies g p)"
    by (auto simp: serving_def)
  note keep = health_tick_same [OF h(1)] health_tick_backed [OF h(1) host(3,2)]
  then show ?thesis using assms(1) host(1,2) by (auto simp: serving_def registered_def h(2))
qed (use assms in \<open>simp add: healthCheck_tick_def\<close>)

lemma target_loop_backed:
  "target_loop parse ts parts = Inr r \<Longrightarrow> set (part_hosts parts) \<subseteq> dom (part_map parts) \<Longrightarrow> set (part_hosts r) \<subseteq> dom (part_map r)"
proof (induction ts arbitrary: parts)
  case (Cons t ts)
  show ?case
  proof (cases "parse t")
    case (Inr u)
    let ?parts = "\<lparr>part_map = (part_map parts)(GetHost u \<mapsto> u), part_alive = (part_alive parts)(GetHost u \<mapsto> True),
      part_shutdown = (part_shutdown parts)(GetHost u \<mapsto> part_chan parts),
      part_hosts = part_hosts parts @ [GetHost u], part_chan = Suc (part_chan parts)\<rparr>"
    have "target_loop parse ts ?parts = Inr r" using Cons.prems(1) Inr by (simp add: Let_def)
    moreover have "set (part_hosts ?parts) \<subseteq> dom (part_map ?parts)" using Cons.prems(2) by auto
    ultimately show ?thesis by (rule Cons.IH)
  qed (use Cons.prems in simp)
qed simp

lemma serving_new_proxy:
  assumes "serving env g" "AddProxyWithLocation parse n (current g) l g = Ret (err, g')"
  shows "serving env g'"
proof (cases "NewHTTPProxy parse n (l_Pattern l) (ProxyPass l) (BalanceMode l) g")
  case (Inr pg)
  then obtain parts lb where parts: "target_loop parse (ProxyPass l) \<lparr>part_map = Map.empty, part_alive = Map.empty,
      part_shutdown = Map.empty, part_hosts = [], part_chan = next_chan g\<rparr> = Inr parts" "Build n (BalanceMode l) (part_hosts parts) = Inr lb"
    by (auto simp: NewHTTPProxy_def split: sum.splits)
  let ?h = "\<lparr>HostMap = part_map parts, Pattern = l_Pattern l, Lb = lb, Alive = part_alive parts,
      Methods = Map.empty, HostsShutDown = part_shutdown parts, Owner = Some (current g)\<rparr>"
  obtain routes where routes: "router g = Some routes" using assms(1) by (auto simp: serving_def)
  have g': "g' = built parts lb l g"
    using assms(2) Inr parts routes
    by (simp add: AddProxyWithLocation_def NewHTTPProxy_def AddRelations_def built_def upd_proxy_def upd_map_def Let_def)
  have "set (part_hosts parts) \<subseteq> dom (part_map parts)" using target_loop_backed [OF parts(1)] by simp
  then have new: "rr_backed ?h" using Build_backed [OF parts(2), of ?h] by simp
  have none: "health g (next_proxy g) h = []" for h using assms(1) by (auto simp: serving_def)
  have parts': "current g' = current g" "next_proxy g' = Suc (next_proxy g)" "router g' = Some (routes(l_Pattern l \<mapsto> next_proxy g))"
    "Relations (maps g' (current g)) = (Relations (maps g (current g)))(l_Pattern l \<mapsto> next_proxy g)"
    "proxies g' = (proxies g)(next_proxy g := ?h)"
    "\<And>p h. health g' p h = (if p = next_proxy g then (if part_map parts h = None then [] else
        case part_shutdown parts h of None \<Rightarrow> [] | Some c \<Rightarrow> [c]) else health g p h)"
    using routes none by (auto simp: g' built_def HealthCheck_def split: option.splits)
  have old: "p < next_proxy g" if "routes k = Some p" for k p using assms(1) routes that by (auto simp: serving_def)
  show ?thesis
    unfolding serving_def parts' registered_def
    using assms(1) new old routes by (auto simp: serving_def registered_def less_Suc_eq split: if_splits)
qed (use assms in \<open>simp add: AddProxyWithLocation_def\<close>)

lemma shutdown_loop_health: "set (health (shutdown_loop p ks g) q h) \<subseteq> set (health g q h)"
proof (induction p ks g rule: shutdown_loop.induct)
  case (2 p k ks g)
  show ?case
  proof (cases "send_shutdown p k g")
    case (Some g1)
    have "set (health g1 q h) \<subseteq> set (health g q h)"
      using Some set_remove1_subset by (fastforce simp: send_shutdown_def split: option.splits if_splits)
    then show ?thesis using 2 [OF Some] Some by auto
  qed simp
qed simp

lemma serving_remove_proxy:
  assumes "serving env g" "RemoveProxy (current g) order pat g = Ret (err, g')"
  shows "serving env g'"
proof (cases "Relations (maps g (current g)) pat")
  case (Some p)
  let ?g1 = "shutDownCheck order p g"
  note frame = shutdown_loop_frame [of p order "g\<lparr>watchers := remove1 p (watchers g)\<rparr>"]
  obtain routes where g': "router g = Some routes"
    "g' = upd_map (current g) (\<lambda>pm. pm\<lparr>Relations := (Relations pm)(pat := None), Locations := (Locations pm)(pat := None)\<rparr>)
       (?g1\<lparr>router := Some (routes(pat := None))\<rparr>)"
    using assms(2) Some frame by (auto simp: RemoveProxy_def shutDownCheck_def Let_def split: if_splits option.splits)
  have "set (health ?g1 q h) \<subseteq> set (health g q h)" for q h
    using shutdown_loop_health [of p order "g\<lparr>watchers := remove1 p (watchers g)\<rparr>" q h] by (simp add: shutDownCheck_def)
  then have "\<forall>q h. health ?g1 q h \<noteq> [] \<longrightarrow> health g q h \<noteq> []" by (metis set_empty subset_empty)
  moreover have "\<forall>q h. health g q h \<noteq> [] \<longrightarrow> q < next_proxy g \<and> HostMap (proxies g q) h \<noteq> None"
    using assms(1) by (simp add: serving_def)
  ultimately have "\<forall>q h. health ?g1 q h \<noteq> [] \<longrightarrow> q < next_proxy g \<and> HostMap (proxies g q) h \<noteq> None" by blast
  moreover have "proxies ?g1 = proxies g" "maps ?g1 = maps g" "current ?g1 = current g" "next_proxy ?g1 = next_proxy g"
    using frame by (simp_all add: shutDownCheck_def)
  ultimately show ?thesis
    using assms(1) g' by (auto simp: serving_def upd_map_def registered_def split: if_splits)
qed (use assms in \<open>simp add: RemoveProxy_def\<close>)

interpretation serving: gateway_invariant env False "serving env :: 'l gateway \<Rightarrow> bool" for env :: "('m, 'l) cluster_env"
proof unfold_locales
  fix g :: "'l gateway" and tree nm ls lims rt
  assume inv: "serving env g"
  show "serving env (g\<lparr>black_list := tree\<rparr>)" using inv by (simp add: serving_def registered_def)
  show "serving env (GetRouterInstance nm (fresh_map ls lims rt g))"
    using inv by (auto simp: serving_def registered_def GetRouterInstance_def fresh_map_def)
qed (auto intro: serving_new_proxy serving_add_host serving_remove_proxy serving_change serving_touch serving_tick)

subsection \<open>Requests\<close>

lemma started_serving:
  assumes "main_run read_yaml listen createRaftNode http_get path = Ret nd" "iter_sound env"
  shows "serving env (nd_gateway nd)"
proof -
  obtain conf r where "nd = set_gateway ((nd_gateway (new_node process_globals r))\<lparr>router := Some Map.empty\<rparr>) (new_node process_globals r)"
    using assms(1)
    by (auto simp: main_run_def ReadConfig_def Start_def createListener_def startRouter_def Let_def GetRouterInstance_def new_node_def
        process_globals_def split: sum.splits option.splits if_splits)
  then show ?thesis
    using assms(2)
    by (auto simp: serving_def registered_def new_node_def process_globals_def NewProxyMap_def rr_backed_def NewRoundRobin_def)
qed

lemma balance_and_forward_rotating:
  assumes "Lb (proxies g p) = RR r" "rr_backed (proxies g p)"
  shows "\<exists>w' g'. balance_and_forward env p req path w g = Ret (w', g')
    \<and> (if rr_hosts r = [] then w' = Write (''balancer error: '' @ balance_text NoHostError) (WriteHeader 502 w)
       else \<exists>host url. host \<in> set (rr_hosts r) \<and> HostMap (proxies g p) host = Some url
         \<and> w' = forward env url (Director (req\<lparr>Path := path\<rparr>)) w)"
proof (cases "rr_hosts r = []")
  case True
  then show ?thesis using assms by (simp add: balance_and_forward_def RoundRobin_Balance_def)
next
  case False
  let ?host = "rr_hosts r ! (unat (idx r) mod length (rr_hosts r))"
  have host: "?host \<in> set (rr_hosts r)" using False by simp
  then obtain url where url: "HostMap (proxies g p) ?host = Some url"
    using assms by (auto simp: rr_backed_def)
  then have "\<exists>g'. balance_and_forward env p req path w g = Ret (forward env url (Director (req\<lparr>Path := path\<rparr>)) w, g')"
    using assms False by (simp add: balance_and_forward_def RoundRobin_Balance_def Let_def upd_proxy_def)
  then show ?thesis using False host url by (simp only: if_False) blast
qed

text \<open>C7: on a node from which no host was ever removed, no request can dereference a missing
  host. Whatever else has happened to the node since it started, a request that reaches the
  routing and whose route has a balancer that rotates is answered: with the error of the rate
  limit, with 502 when the balancer is empty, and otherwise by a host of the balancer.\<close>

theorem reachable_node_forwards:
  assumes "main_run read_yaml listen createRaftNode http_get path = Ret nd0" "iter_sound (cluster env)"
    and "(node_step env conf False)\<^sup>*\<^sup>* nd0 nd" and "router (nd_gateway nd) = Some routes"
    and "RadixTree_AccessControl (black_list (nd_gateway nd)) (RemoteIp req) = Ret False" "Chain (filter_chain w) = None"
    and "DefaultRouter_Route routes (Path req) = Some (p, rest)" "Lb (proxies (nd_gateway nd) p) = RR r"
  shows "\<exists>resp' g'. DefaultRouter_ServeHTTP w routes req resp (nd_gateway nd) = Ret (resp', g')
    \<and> ((\<exists>e. resp' = Write (''route error: '' @ limit_text e) (WriteHeader 400 resp))
       \<or> rr_hosts r = [] \<and> resp' = Write (''balancer error: '' @ balance_text NoHostError) (WriteHeader 502 resp)
       \<or> (\<exists>host url. host \<in> set (rr_hosts r) \<and> HostMap (proxies (nd_gateway nd) p) host = Some url
            \<and> resp' = forward w url (Director (req\<lparr>Path := rest\<rparr>)) resp))"
proof -
  let ?g = "nd_gateway nd"
  have inv: "serving (cluster env) ?g"
    by (rule serving.reached [OF assms(3) refl started_serving [OF assms(1,2)]])
  obtain k where k: "routes k = Some p" using assms(7) unfolding DefaultRouter_Route_def by (auto simp: route_loop_Some)
  then obtain m where m: "Owner (proxies ?g p) = Some m" using inv assms(4) unfolding serving_def by blast
  obtain err g1 where tok: "invaildToken (rate w) (clock w) p rest ?g = Ret (err, g1)"
    "Lb (proxies g1 p) = Lb (proxies ?g p)" "HostMap (proxies g1 p) = HostMap (proxies ?g p)"
    using invaildToken_keeps [OF m] by blast
  have "rr_backed (proxies ?g p)" using inv by (simp add: serving_def)
  then have g1: "Lb (proxies g1 p) = RR r" "rr_backed (proxies g1 p)" using tok assms(8) by (simp_all add: rr_backed_def)
  have serve: "DefaultRouter_ServeHTTP w routes req resp ?g =
      (case err of Some e \<Rightarrow> Ret (Write (''route error: '' @ limit_text e) (WriteHeader 400 resp), g1)
       | None \<Rightarrow> balance_and_forward w p req rest resp g1)"
    by (simp add: DefaultRouter_ServeHTTP_def assms(5) Execute_none [OF assms(6)] assms(7) tok(1))
  show ?thesis
    using serve balance_and_forward_rotating [OF g1, of w req rest resp] tok(3)
    by (cases err; cases "rr_hosts r = []") auto
qed

theorem reachable_node_forwards_witness:
  "\<exists>nd resp' g'. (node_step demo_server leader_conf False)\<^sup>*\<^sup>* demo_started nd
    \<and> DefaultRouter_ServeHTTP demo_world [''/api'' \<mapsto> 0] (demo_request\<lparr>RemoteAddr := ''x''\<rparr>) new_response (nd_gateway nd)
        = Ret (resp', g')"
proof -
  let ?req = "demo_request\<lparr>RemoteAddr := ''x''\<rparr>"
  obtain nd where nd: "(node_step demo_server leader_conf False)\<^sup>*\<^sup>* demo_started nd" "router (nd_gateway nd) = Some [''/api'' \<mapsto> 0]"
    "Lb (proxies (nd_gateway nd) 0) = RR (NewRoundRobin [''a:80''])" "black_list (nd_gateway nd) = NewRadixTree"
    by (rule demo_elected)
  have iter: "iter_sound (cluster demo_server)" by (auto simp: iter_sound_def demo_server_def demo_env_def)
  have acl: "RadixTree_AccessControl (black_list (nd_gateway nd)) (RemoteIp ?req) = Ret False"
    by (simp add: nd(4) demo_request_def RemoteIp_def RadixTree_AccessControl_def
        RadixTree_Search_def InetToi_def Atoi_def ParseUint_def digit_value_def RadixTree_search_def
        search_loop.simps NewRadixTree_def nil_node_def child_def)
  have route: "DefaultRouter_Route [''/api'' \<mapsto> 0] (Path ?req) = Some (0, ''/x'')" using demo_route by simp
  have chain: "Chain (filter_chain demo_world) = None" by (simp add: demo_world_def)
  show ?thesis
    using reachable_node_forwards [OF demo_starts iter nd(1,2) acl chain route nd(3), of new_response] nd(1) by blast
qed

end
