(* ===== verification/Snapshots.thy ===== *)
theory Snapshots
  imports NodeSteps
begin

text \<open>
  Snapshots and logs. A node that falls behind is not sent the log but the snapshot of another
  node; this theory compares both ways. \<open>shared\<close> is all that the log determines, the routes and
  the black list; \<open>configured\<close> says that the hosts of every route are those of its location,
  which is what a snapshot can express, and which entries about single hosts destroy.
\<close>

subsection \<open>The black list is replicated too\<close>

definition shared :: "'l gateway \<Rightarrow> routes_view \<times> RadixTree" where
  "shared g = (view g, black_list g)"

definition spec_acl :: "('m, 'l) cluster_env \<Rightarrow> bytes \<Rightarrow> RadixTree \<Rightarrow> RadixTree outcome" where
  "spec_acl env data t =
     (case dec_acl env data of
        Inl err \<Rightarrow> Ret t
      | Inr a \<Rightarrow>
          if acl_Pattern a = 0 then and_then (RadixTree_Delete (IpAddress a) t) (\<lambda>(err, t'). Ret t')
          else if acl_Pattern a = 1 then and_then (RadixTree_Add (IpAddress a) (IpAddress a) t) (\<lambda>(err, t'). Ret t')
          else Ret t)"

definition spec_entry ::
  "('m, 'l) cluster_env \<Rightarrow> LogEntry \<Rightarrow> routes_view \<times> RadixTree \<Rightarrow> (routes_view \<times> RadixTree) outcome" where
  "spec_entry env e s =
     (if Opt e = 3 then and_then (spec_acl env (Data e) (snd s)) (\<lambda>t. Ret (fst s, t))
      else and_then (spec_apply env e (fst s)) (\<lambda>v. Ret (v, snd s)))"

lemma touch_black_list: "request_touch\<^sup>*\<^sup>* g g' \<Longrightarrow> black_list g' = black_list g"
proof (induction rule: rtranclp_induct)
  case (step g1 g2)
  from step(2) have "black_list g2 = black_list g1" by cases (simp_all add: upd_proxy_def record_limiter_def upd_map_def)
  with step(3) show ?case by simp
qed simp

lemma local_black_list: "local_step rt g g' \<Longrightarrow> black_list g' = black_list g"
proof (cases rule: local_step.cases)
  assume "local_step rt g g'"
  then show "local_step rt g g'" .
next
  fix w r req resp resp'
  assume "DefaultRouter_ServeHTTP w r req resp g = Ret (resp', g')"
  then show ?thesis by (intro touch_black_list ServeHTTP_touch)
next
  fix p h c b1 b2
  assume "healthCheck_tick p h c b1 b2 g = Ret g'"
  then show ?thesis by (auto simp: healthCheck_tick_def and_then_eq_Ret Let_def split: if_splits)
next
  fix n order p mode err
  assume "ChangeLb n order p mode g = (err, g')"
  then show ?thesis by (auto simp: ChangeLb_def upd_proxy_def split: sum.splits)
qed

lemma AddProxyWithLocation_black_list:
  "AddProxyWithLocation parse n m l g = Ret (err, g') \<Longrightarrow> black_list g' = black_list g"
  by (auto simp: AddProxyWithLocation_def NewHTTPProxy_def AddRelations_def HealthCheck_def upd_proxy_def upd_map_def Let_def
      and_then_eq_Ret split: sum.splits option.splits)

lemma RemoveProxy_black_list: "RemoveProxy m order pat g = Ret (err, g') \<Longrightarrow> black_list g' = black_list g"
proof -
  have loop: "black_list (shutdown_loop p ks g) = black_list g" for p ks and g :: "'a gateway"
    by (induction p ks g rule: shutdown_loop.induct) (auto simp: send_shutdown_def split: option.splits if_splits)
  assume "RemoveProxy m order pat g = Ret (err, g')"
  then show ?thesis
    by (auto simp: RemoveProxy_def shutDownCheck_def upd_map_def Let_def loop split: option.splits if_splits)
qed

lemma FSM_black_list:
  assumes "Opt e \<noteq> 3" "FSM_Apply env (LogEntry_Encode e) g = Ret (err, g')"
  shows "black_list g' = black_list g"
  using assms
  by (auto simp: FSM_Apply_Encode FSM_doNewHttpProxy_def FSM_doSetRateLimiter_def FSM_doRemoveProxy_def
      FSM_doRemoveHost_def FSM_doAddHost_def and_then_eq_Ret Let_def AddProxy_def RemoveHost_def send_shutdown_def upd_proxy_def
      split: if_splits sum.splits option.splits prod.splits
      dest: AddProxyWithLocation_black_list RemoveProxy_black_list touch_black_list [OF SetRateLimiter_touch])

lemma FSM_acl_black_list:
  assumes "FSM_Apply env (LogEntry_Encode \<lparr>Opt = 3, Data = d\<rparr>) g = Ret (err, g')"
  shows "spec_acl env d (black_list g) = Ret (black_list g')"
  using assms by (auto simp: FSM_Apply_Encode FSM_doHandleAcl_def spec_acl_def and_then_eq_Ret split: sum.splits if_splits)

lemma apply_entry_shared:
  assumes "good_gateway g" "apply_entry env e g = Ret g'"
  shows "good_gateway g' \<and> spec_entry env e (shared g) = Ret (shared g')"
proof -
  obtain err where ret: "FSM_Apply env (LogEntry_Encode e) g = Ret (err, g')"
    using assms(2) by (auto simp: apply_entry_def and_then_eq_Ret)
  note view = apply_entry_refines [OF assms]
  show ?thesis
  proof (cases "Opt e = 3")
    case True
    then have "e = \<lparr>Opt = 3, Data = Data e\<rparr>" by simp
    then have "spec_acl env (Data e) (black_list g) = Ret (black_list g')" using ret FSM_acl_black_list by metis
    then show ?thesis using view True by (simp add: spec_entry_def shared_def spec_apply_def)
  next
    case False
    then show ?thesis using view FSM_black_list [OF False ret] by (simp add: spec_entry_def shared_def)
  qed
qed

interpretation shares: replicated_machine good_gateway shared "apply_entry env" "spec_entry env" "local_step (env_rate env)"
  for env :: "('m, 'l) cluster_env"
proof unfold_locales
  fix g g' :: "'l gateway" and e
  show "good_gateway g \<Longrightarrow> apply_entry env e g = Ret g' \<Longrightarrow> good_gateway g' \<and> spec_entry env e (shared g) = Ret (shared g')"
    by (rule apply_entry_shared)
  show "good_gateway g \<Longrightarrow> local_step (env_rate env) g g' \<Longrightarrow> good_gateway g' \<and> shared g' = shared g"
    using local_step_same [of "env_rate env" g g'] same_routes_keeps [of g g'] local_black_list [of "env_rate env" g g']
    by (simp add: shared_def)
qed

subsection \<open>What a snapshot can express\<close>

definition buildable :: "('m, 'l) cluster_env \<Rightarrow> Location \<Rightarrow> bool" where
  "buildable env l \<longleftrightarrow> target_hosts (env_parse env) (ProxyPass l) Map.empty \<noteq> None
     \<and> BalanceMode l \<in> {''round-robin'', ''consistence-hash''}"

text \<open>Every location can be built and stands under its own pattern; \<open>reconfigured\<close> gives every
  route the hosts of its location.\<close>

definition located :: "('m, 'l) cluster_env \<Rightarrow> routes_view \<Rightarrow> bool" where
  "located env v \<longleftrightarrow> (\<forall>k l. v_locations v k = Some l \<longrightarrow> l_Pattern l = k \<and> buildable env l)"

definition reconfigured :: "('m, 'l) cluster_env \<Rightarrow> routes_view \<Rightarrow> routes_view" where
  "reconfigured env v =
     v\<lparr>v_hosts := (\<lambda>k. Option.bind (v_locations v k) (\<lambda>l. target_hosts (env_parse env) (ProxyPass l) Map.empty))\<rparr>"

lemma spec_new_proxy_buildable:
  "buildable env l \<Longrightarrow> spec_new_proxy env l v = \<lparr>v_hosts = (v_hosts v)(l_Pattern l := target_hosts (env_parse env) (ProxyPass l) Map.empty),
     v_locations = (v_locations v)(l_Pattern l \<mapsto> l)\<rparr>"
  by (auto simp: spec_new_proxy_def buildable_def)

lemma spec_new_proxy_not_buildable: "\<not> buildable env l \<Longrightarrow> spec_new_proxy env l v = v"
  by (auto simp: spec_new_proxy_def buildable_def split: option.splits)

lemma located_apply: "located env v \<Longrightarrow> spec_apply env e v = Ret v' \<Longrightarrow> located env v'"
  by (cases "\<exists>l. dec_location env (Data e) = Inr l \<and> buildable env l")
    (auto simp: spec_apply_def located_def spec_new_proxy_buildable spec_new_proxy_not_buildable spec_remove_proxy_def
      spec_set_hosts_def split: if_splits sum.splits)

lemma reconfigured_apply:
  assumes "reconfigured env v = v" "spec_apply env e v = Ret v'" "Opt e \<notin> {5, 6}"
  shows "reconfigured env v' = v'"
proof -
  have same: "v_hosts v k = Option.bind (v_locations v k) (\<lambda>l. target_hosts (env_parse env) (ProxyPass l) Map.empty)" for k
    using arg_cong [OF assms(1), of "\<lambda>v. v_hosts v k"] by (simp add: reconfigured_def)
  have eqI: "reconfigured env w = w"
    if "\<And>k. v_hosts w k = Option.bind (v_locations w k) (\<lambda>l. target_hosts (env_parse env) (ProxyPass l) Map.empty)" for w
  proof -
    have "v_hosts w = (\<lambda>k. Option.bind (v_locations w k) (\<lambda>l. target_hosts (env_parse env) (ProxyPass l) Map.empty))"
      using that by (rule ext)
    then show ?thesis unfolding reconfigured_def by (metis (no_types) routes_view.surjective routes_view.update_convs(1))
  qed
  have "reconfigured env (spec_new_proxy env l v) = spec_new_proxy env l v" for l
    by (cases "buildable env l") (auto simp: assms(1) spec_new_proxy_buildable spec_new_proxy_not_buildable same intro!: eqI)
  moreover have "reconfigured env (spec_remove_proxy pat v) = spec_remove_proxy pat v" for pat
    by (rule eqI) (simp add: spec_remove_proxy_def same)
  ultimately show ?thesis
    using assms by (auto simp: spec_apply_def split: if_splits sum.splits)
qed

lemma spec_run_keeps:
  assumes "fold_outcome (spec_entry env) es s = Ret s'" "P (fst s)"
    and "\<forall>e \<in> set es. \<forall>v v'. P v \<longrightarrow> spec_apply env e v = Ret v' \<longrightarrow> P v'"
  shows "P (fst s')"
proof (rule fold_outcome_keeps [where P = "\<lambda>s. P (fst s)", OF assms(1,2)])
  fix e s s'
  assume "e \<in> set es" "P (fst s)" "spec_entry env e s = Ret s'"
  then show "P (fst s')" using assms(3) by (cases "Opt e = 3") (auto simp: spec_entry_def and_then_eq_Ret)
qed

subsection \<open>Restoring\<close>

lemma target_hosts_parse: "target_hosts parse ts m \<noteq> None \<Longrightarrow> t \<in> set ts \<Longrightarrow> \<exists>u. parse t = Inr u"
  by (induction ts arbitrary: m) (auto split: sum.splits)

lemma buildable_location_ok: "buildable env l \<Longrightarrow> location_ok env l"
  using target_hosts_parse [of "env_parse env" "ProxyPass l" Map.empty] by (simp add: buildable_def location_ok_def)

lemma restore_locations_view:
  assumes "good_gateway g" "\<forall>l \<in> set ls. buildable env l"
  shows "\<exists>g'. restore_locations env (current g) ls g = Ret g' \<and> good_gateway g' \<and> current g' = current g
    \<and> view g' = fold (spec_new_proxy env) ls (view g)"
  using assms
proof (induction ls arbitrary: g)
  case (Cons l ls)
  obtain routes where "router g = Some routes" "registered (current g) g" using Cons.prems(1) by (auto simp: good_gateway_def)
  then obtain g1 where add: "AddProxyWithLocation (env_parse env) (env_replicas env) (current g) l g = Ret (None, g1)"
    using AddProxyWithLocation_ok [OF buildable_location_ok] Cons.prems(2) by fastforce
  then have g1: "good_gateway g1" "view g1 = spec_new_proxy env l (view g)" "current g1 = current g"
    using AddProxyWithLocation_refines [OF Cons.prems(1), of env "env_replicas env" l] AddProxyWithLocation_current [OF add] by auto
  then show ?case using Cons.IH [OF g1(1)] Cons.prems(2) add by simp
qed simp

lemma fold_new_proxies:
  assumes "\<forall>l \<in> set ls. buildable env l \<and> v_locations v (l_Pattern l) = Some l"
  shows "fold (spec_new_proxy env) ls v = \<lparr>v_hosts = (\<lambda>k. if k \<in> l_Pattern ` set ls
       then target_hosts (env_parse env) (ProxyPass (the (v_locations v k))) Map.empty else v_hosts v k),
     v_locations = v_locations v\<rparr>"
  using assms
proof (induction ls arbitrary: v)
  case (Cons l ls)
  have "spec_new_proxy env l v = \<lparr>v_hosts = (v_hosts v)(l_Pattern l := target_hosts (env_parse env) (ProxyPass l) Map.empty),
      v_locations = v_locations v\<rparr>"
    using Cons.prems by (simp add: spec_new_proxy_buildable fun_upd_idem)
  then show ?case using Cons.IH [of "spec_new_proxy env l v"] Cons.prems by (auto simp: fun_eq_iff)
qed simp

lemma set_limiter_same:
  assumes "good_gateway g" "Relations (maps g (current g)) k = Some p"
  shows "\<exists>err g'. SetRateLimiter rt p info g = Ret (err, g') \<and> same_routes g g'"
proof -
  obtain err g' where set: "SetRateLimiter rt p info g = Ret (err, g')" using SetRateLimiter_refines [OF assms] by blast
  have "same_routes g g'"
    by (rule SetRateLimiter_cases [OF set])
      (auto intro!: same_routes_trans [OF same_routes_upd_proxy same_routes_record_limiter])
  with set show ?thesis by blast
qed

text \<open>A loop over steps that keep the routes returns and keeps them.\<close>

lemma fold_same:
  assumes "\<And>x g. x \<in> set xs \<Longrightarrow> good_gateway g \<Longrightarrow> same_routes g0 g \<Longrightarrow> \<exists>g'. f x g = Ret g' \<and> same_routes g g'"
    and "good_gateway g" "same_routes g0 g"
  shows "\<exists>g'. fold_outcome f xs g = Ret g' \<and> same_routes g g'"
  using assms
proof (induction xs arbitrary: g)
  case (Cons x xs)
  obtain g1 where g1: "f x g = Ret g1" "same_routes g g1" using Cons.prems(1) [of x g] Cons.prems(2,3) by auto
  have "good_gateway g1" "same_routes g0 g1"
    using same_routes_keeps(2) [OF g1(2) Cons.prems(2)] same_routes_trans [OF Cons.prems(3) g1(2)] .
  then obtain g' where "fold_outcome f xs g1 = Ret g'" "same_routes g1 g'" using Cons.IH [of g1] Cons.prems(1) by auto
  then show ?case using g1 same_routes_trans by auto
qed simp

lemma restore_limiters_same:
  fixes env :: "('m, 'l) cluster_env" and g :: "'l gateway"
  assumes "good_gateway g"
  shows "\<exists>g'. restore_limiters env (current g) ks g = Ret g' \<and> same_routes g g'"
  unfolding restore_limiters_def
proof (rule fold_same [where g0 = g, OF _ assms same_routes_refl])
  fix key and h :: "'l gateway"
  assume h: "good_gateway h" "same_routes g h"
  then have cur: "current h = current g" by (simp add: same_routes_def)
  show "\<exists>g'. (case Relations (maps h (current g)) key of None \<Rightarrow> Ret h
      | Some p \<Rightarrow> fold_outcome (\<lambda>info g. and_then (SetRateLimiter (env_rate env) p info g) (\<lambda>(err, g'). Ret g'))
          (case Limiters (maps h (current g)) key of None \<Rightarrow> [] | Some infos \<Rightarrow> infos) h) = Ret g' \<and> same_routes h g'"
  proof (cases "Relations (maps h (current g)) key")
    case (Some p)
    have "\<exists>g'. and_then (SetRateLimiter (env_rate env) p info k) (\<lambda>(err, g'). Ret g') = Ret g' \<and> same_routes k g'"
      if "good_gateway k" "same_routes h k" for info k
    proof -
      have "Relations (maps k (current k)) key = Some p" using that(2) Some cur by (simp add: same_routes_def)
      from set_limiter_same [OF that(1) this, of "env_rate env" info] show ?thesis by auto
    qed
    then show ?thesis
      using Some fold_same [where g0 = h, OF _ h(1) same_routes_refl,
        of "case Limiters (maps h (current g)) key of None \<Rightarrow> [] | Some infos \<Rightarrow> infos"
           "\<lambda>info g. and_then (SetRateLimiter (env_rate env) p info g) (\<lambda>(err, g'). Ret g')"]
      by simp
  qed simp
qed

text \<open>Restoring a snapshot gives, on any node and whatever its own routes were, the routes of the
  gateway it was taken from, with the hosts of their locations.\<close>

lemma Restore_reconfigures:
  assumes "located env (view t)" "healthy g" "iter_ok env (dom (v_locations (view t)))"
    and "restore_acl (iter env (dom (Record (black_list t)))) = Ret tree"
  shows "\<exists>g'. FSM_Restore env (FSM_Snapshot t) g = Ret g' \<and> good_gateway g' \<and> view g' = reconfigured env (view t) \<and> black_list g' = tree"
proof -
  let ?s = "FSM_Snapshot t" and ?L = "v_locations (view t)"
  let ?g = "GetRouterInstance (snap_RouterType ?s) (fresh_map (snap_Locations ?s) (snap_Limiters ?s) (snap_RouterType ?s) g)"
  have s: "snap_Locations ?s = ?L" "snap_Record ?s = Record (black_list t)" by (simp_all add: FSM_Snapshot_def view_def)
  have "healthy ?g" by (rule healthy.restored [OF assms(2)])
  then have good: "good_gateway ?g" by (simp add: healthy_def)
  have cur: "current ?g = next_map g" "view ?g = \<lparr>v_hosts = Map.empty, v_locations = ?L\<rparr>"
    by (simp_all add: GetRouterInstance_def fresh_map_def view_def s)
  let ?ls = "map_values env ?L"
  have ls: "\<forall>l \<in> set ?ls. buildable env l \<and> ?L (l_Pattern l) = Some l" "l_Pattern ` set ?ls = dom ?L"
  proof -
    have pat: "?L k = Some l \<Longrightarrow> l_Pattern l = k \<and> buildable env l" for k l
      using assms(1) by (simp add: located_def)
    have mem: "set ?ls = ran ?L" using assms(3) by (force simp: map_values_def iter_ok_def ran_def)
    then show "\<forall>l \<in> set ?ls. buildable env l \<and> ?L (l_Pattern l) = Some l" using pat by (auto simp: ran_def)
    show "l_Pattern ` set ?ls = dom ?L" unfolding mem using pat by (force simp: ran_def)
  qed
  obtain g3 where g3: "restore_locations env (next_map g) ?ls ?g = Ret g3" "good_gateway g3" "current g3 = next_map g"
    "view g3 = fold (spec_new_proxy env) ?ls (view ?g)"
    using restore_locations_view [OF good, of ?ls env] ls(1) unfolding cur(1) by auto
  have "v_hosts (reconfigured env (view t)) k = (if k \<in> dom ?L then target_hosts (env_parse env) (ProxyPass (the (?L k))) Map.empty else None)" for k
    by (cases "?L k") (simp_all add: reconfigured_def domIff)
  then have same: "view g3 = reconfigured env (view t)"
    using fold_new_proxies [of ?ls env "view ?g"] ls unfolding g3(4) cur(2) by (simp add: fun_eq_iff reconfigured_def)
  obtain g4 where g4: "restore_limiters env (next_map g) (iter env (dom (Limiters (maps g3 (next_map g))))) g3 = Ret g4" "same_routes g3 g4"
    using restore_limiters_same [OF g3(2)] unfolding g3(3) by blast
  have "FSM_Restore env ?s g = Ret (g4\<lparr>black_list := tree\<rparr>)"
    using g3(1) g4(1) assms(4) by (simp add: FSM_Restore_def fresh_map_def s)
  moreover have "same_routes g3 (g4\<lparr>black_list := tree\<rparr>)" by (rule same_routes_trans [OF g4(2) same_routes_black_list])
  ultimately show ?thesis using same_routes_keeps [of g3] g3(2) same by auto
qed

subsection \<open>Properties\<close>



lemma started_shared:
  assumes "main_run read_yaml listen createRaftNode http_get path = Ret nd"
  shows "good_gateway (nd_gateway nd) \<and> shared (nd_gateway nd) = (\<lparr>v_hosts = Map.empty, v_locations = Map.empty\<rparr>, NewRadixTree)"
proof -
  note ready = main_run_ready [OF assms]
  have "black_list (nd_gateway nd) = NewRadixTree"
    using assms
    by (auto simp: main_run_def ReadConfig_def Start_def createListener_def startRouter_def Let_def GetRouterInstance_def new_node_def
        process_globals_def split: sum.splits option.splits if_splits)
  moreover have "serviced (nd_gateway nd)" using ready by (simp add: serviced_def)
  ultimately show ?thesis using ready by (simp add: good_gateway_def view_def shared_def)
qed

text \<open>A cluster agrees on its routes from the start. Two processes that came up with
  \<open>main\<close>, whatever their configurations, and that have applied the same log by now have the
  same routes, hosts and locations and the same black list.\<close>

theorem started_nodes_agree:
  fixes env :: "('m, 'l) cluster_env" and nd nd2 :: "('l, 'r) node"
  assumes "main_run read_yaml listen createRaftNode http_get path = Ret nd"
    and "main_run read_yaml2 listen2 createRaftNode2 http_get2 path2 = Ret nd2"
    and "run (apply_entry env) (local_step (env_rate env)) es (nd_gateway nd) t"
    and "run (apply_entry env) (local_step (env_rate env)) es (nd_gateway nd2) t2"
  shows "shared t = shared t2"
proof -
  have fresh: "good_gateway (nd_gateway n) \<and> shared (nd_gateway n) = (\<lparr>v_hosts = Map.empty, v_locations = Map.empty\<rparr>, NewRadixTree)"
    if "main_run ry li cr hg pa = Ret n" for ry li cr hg pa and n :: "('l, 'r) node"
    by (rule started_shared [OF that])
  show ?thesis
    by (rule shares.run_agree [OF assms(3,4)]) (use fresh [OF assms(1)] fresh [OF assms(2)] in simp_all)
qed

theorem started_nodes_agree_witness:
  "\<exists>(nd :: (int \<times> int, unit) node) t t2 entry.
     main_run (\<lambda>_. Inr (Some leader_conf)) (\<lambda>_. True) (\<lambda>_. Inr ()) (\<lambda>_. Inl ''refused'') ''config.yaml'' = Ret nd
     \<and> run (apply_entry demo_env) (local_step (env_rate demo_env)) [entry] (nd_gateway nd) t
     \<and> run (apply_entry demo_env) (local_step (env_rate demo_env)) [entry] (nd_gateway nd) t2
     \<and> shared t = shared t2 \<and> v_locations (view t2) ''/api'' \<noteq> None"
proof -
  let ?l = "hd (Locations_cfg leader_conf)"
  let ?e = "\<lparr>Opt = 1, Data = enc_location demo_env ?l\<rparr>"
  let ?run = "run (apply_entry demo_env) (local_step (env_rate demo_env))"
  obtain nd :: "(int \<times> int, unit) node" where
    nd: "main_run (\<lambda>_. Inr (Some leader_conf)) (\<lambda>_. True) (\<lambda>_. Inr ()) (\<lambda>_. Inl ''refused'') ''config.yaml'' = Ret nd"
    by (simp add: main_run_def ReadConfig_def leader_conf_def demo_conf_def CherylConfig_Validation_def Start_def createListener_def
        startRouter_def GetRouterInstance_def new_node_def process_globals_def)
  have good: "good_gateway (nd_gateway nd)" and empty: "v_hosts (view (nd_gateway nd)) = Map.empty"
    using main_run_ready [OF nd] by (simp_all add: good_gateway_def serviced_def view_def)
  have ann: "announced_ok demo_env ?l" "l_Pattern ?l = ''/api''" using demo_announced by (simp_all add: leader_conf_def)
  then have loc: "v_locations (spec_new_proxy demo_env ?l v) ''/api'' \<noteq> None" for v
    using announced_new_proxy [of demo_env ?l v] by simp
  have "spec_apply demo_env ?e (view (nd_gateway nd)) = Ret (spec_new_proxy demo_env ?l (view (nd_gateway nd)))"
    using ann empty by (simp add: spec_apply_def announced_ok_def)
  then obtain ret t where "FSM_Apply demo_env (LogEntry_Encode ?e) (nd_gateway nd) = Ret (ret, t)"
    "view t = spec_new_proxy demo_env ?l (view (nd_gateway nd))"
    using FSM_refines [OF good, of ?e demo_env] by auto
  then have t: "apply_entry demo_env ?e (nd_gateway nd) = Ret t" "v_locations (view t) ''/api'' \<noteq> None"
    using loc by (simp_all add: apply_entry_def)
  let ?t2 = "snd (ChangeLb 3 [] 0 ''round-robin'' t)"
  have one: "?run [?e] (nd_gateway nd) t"
    by (rule run_apply [where app = "apply_entry demo_env", OF t(1)]) (rule run_done)
  have change: "ChangeLb 3 [] 0 ''round-robin'' t = (None, ?t2)" by (simp add: ChangeLb_def Build_def factories_def)
  have two: "?run [?e] (nd_gateway nd) ?t2"
    by (rule run_apply [where app = "apply_entry demo_env", OF t(1)],
        rule run_local [where loc = "local_step (env_rate demo_env)", OF local_change [OF change]], rule run_done)
  from started_nodes_agree [OF nd nd one two] t(2) nd one two show ?thesis by metis
qed

lemma persisted:
  "snapshot_Persist enc write close s = (None, acts) \<Longrightarrow> \<exists>bs. enc s = Inr bs \<and> acts = [SinkWrite bs, SinkClose]"
  by (auto simp: snapshot_Persist_def snapshot_Marshal_def split: sum.splits option.splits)

text \<open>C8: a snapshot is as good as the log, except for single hosts. A node that reads back the
  snapshot that another one has persisted, which has started and applied the log up to here,
  has the routes and locations that applying the log would have given it, whatever its own
  state was, with the hosts of their locations; if no entry of the log adds or removes a single host, these are
  the hosts of the other node too, and both keep the same routes from there on.\<close>

theorem snapshot_equals_replay:
  assumes "main_run read_yaml listen createRaftNode http_get path = Ret nd"
    and "run (apply_entry env) (local_step (env_rate env)) es (nd_gateway nd) t"
    and "healthy g" "iter_ok env (dom (v_locations (view t)))"
    and "restore_acl (iter env (dom (Record (black_list t)))) = Ret tree"
    and "snapshot_Persist enc write close (FSM_Snapshot t) = (None, acts)"
    and "\<forall>bs. enc (FSM_Snapshot t) = Inr bs \<longrightarrow> dec bs = Inr (FSM_Snapshot t)"
  shows "\<exists>bs g'. acts = [SinkWrite bs, SinkClose] \<and> FSM_Restore_stream env dec bs g = Ret g' \<and> good_gateway g' \<and> black_list g' = tree
    \<and> view g' = reconfigured env (view t)
    \<and> ((\<forall>e \<in> set es. Opt e \<notin> {5, 6}) \<longrightarrow> view g' = view t
         \<and> (\<forall>es2 t2 g2. run (apply_entry env) (local_step (env_rate env)) es2 t t2
              \<and> run (apply_entry env) (local_step (env_rate env)) es2 g' g2 \<longrightarrow> view t2 = view g2))"
proof -
  note start = started_shared [OF assms(1)]
  have t: "good_gateway t" "fold_outcome (spec_entry env) es (shared (nd_gateway nd)) = Ret (shared t)"
    using shares.run_refines [OF assms(2)] start by simp_all
  have "located env (fst (shared (nd_gateway nd)))" "reconfigured env (fst (shared (nd_gateway nd))) = fst (shared (nd_gateway nd))"
    using start by (simp_all add: located_def reconfigured_def)
  note empty = this
  have "located env (fst (shared t))"
    by (rule spec_run_keeps [where P = "located env", OF t(2) empty(1)]) (blast intro: located_apply)
  then have loc: "located env (view t)" by (simp add: shared_def)
  have same: "reconfigured env (view t) = view t" if "\<forall>e \<in> set es. Opt e \<notin> {5, 6}"
  proof -
    have "reconfigured env (fst (shared t)) = fst (shared t)"
      by (rule spec_run_keeps [where P = "\<lambda>v. reconfigured env v = v", OF t(2) empty(2)])
        (use that in \<open>blast intro: reconfigured_apply\<close>)
    then show ?thesis by (simp add: shared_def)
  qed
  obtain g' where g': "FSM_Restore env (FSM_Snapshot t) g = Ret g'" "good_gateway g'" "view g' = reconfigured env (view t)"
    "black_list g' = tree"
    using Restore_reconfigures [OF loc assms(3-5)] by blast
  obtain bs where bs: "acts = [SinkWrite bs, SinkClose]" "dec bs = Inr (FSM_Snapshot t)"
    using persisted [OF assms(6)] assms(7) by blast
  then have "FSM_Restore_stream env dec bs g = Ret g'"
    using g'(1) by (simp add: FSM_Restore_stream_def snapshot_UnMarshal_def)
  note g' = this g'(2-)
  have "view t2 = view g2" if "view g' = view t" "run (apply_entry env) (local_step (env_rate env)) es2 t t2"
    "run (apply_entry env) (local_step (env_rate env)) es2 g' g2" for es2 t2 g2
    by (rule replicas.run_agree [OF that(2,3) t(1) g'(2) that(1) [symmetric]])
  with g' same bs(1) show ?thesis by (intro exI [of _ bs] exI [of _ g']) metis
qed

theorem snapshot_equals_replay_witness:
  "\<exists>t g'. run (apply_entry demo_env) (local_step (env_rate demo_env))
       [\<lparr>Opt = 1, Data = enc_location demo_env (hd (Locations_cfg leader_conf))\<rparr>] (nd_gateway demo_started) t
    \<and> FSM_Restore_stream demo_env (\<lambda>_. Inr (FSM_Snapshot t)) [] demo_served = Ret g' \<and> view g' = view t \<and> view t \<noteq> view demo_served"
proof -
  let ?l = "hd (Locations_cfg leader_conf)" and ?g = "nd_gateway demo_started"
  let ?e = "\<lparr>Opt = 1, Data = enc_location demo_env ?l\<rparr>"
  have start: "good_gateway ?g" "shared ?g = (\<lparr>v_hosts = Map.empty, v_locations = Map.empty\<rparr>, NewRadixTree)"
    using started_shared [OF demo_starts] by simp_all
  have l: "?l = \<lparr>l_Pattern = ''/api'', ProxyPass = [''http://a:80''], BalanceMode = ''round-robin''\<rparr>" by (simp add: leader_conf_def)
  have ann: "announced_ok demo_env ?l" using demo_announced by (simp add: leader_conf_def)
  have "buildable demo_env ?l" by (simp add: buildable_def l demo_env_def demo_parse_def)
  then have "spec_apply demo_env ?e (view ?g) = Ret \<lparr>v_hosts = [''/api'' \<mapsto> [''a:80'' \<mapsto> \<lparr>Scheme = ''http'', Host = ''a:80''\<rparr>]],
      v_locations = [''/api'' \<mapsto> ?l]\<rparr>" (is "_ = Ret ?v")
    using start(2) ann
    by (simp add: spec_apply_def announced_ok_def shared_def spec_new_proxy_buildable)
      (simp add: l demo_env_def demo_parse_def GetHost_demo)
  then obtain ret t where t: "FSM_Apply demo_env (LogEntry_Encode ?e) ?g = Ret (ret, t)" "view t = ?v"
    using FSM_refines [OF start(1), of ?e demo_env] by auto
  have run: "run (apply_entry demo_env) (local_step (env_rate demo_env)) [?e] ?g t"
    by (rule run_apply [where app = "apply_entry demo_env" and s' = t]) (simp add: apply_entry_def t(1), rule run_done)
  have "black_list t = NewRadixTree" using FSM_black_list [OF _ t(1)] start(2) by (simp add: shared_def)
  then have acl: "restore_acl (iter demo_env (dom (Record (black_list t)))) = Ret NewRadixTree"
    by (simp add: restore_acl_def NewRadixTree_def demo_env_def)
  have iter: "iter_ok demo_env (dom (v_locations (view t)))" by (simp add: t(2) iter_ok_def demo_env_def)
  have healthy: "healthy demo_served"
    using demo_good by (auto simp: healthy_def routed_def demo_served_def demo_gateway_def)
  have "view t \<noteq> view demo_served"
    using arg_cong [of "view t" "view demo_served" "\<lambda>v. v_locations v ''/api''"]
    by (auto simp: t(2)) (auto simp: view_def demo_served_def demo_gateway_def NewProxyMap_def)
  moreover have "snapshot_Persist (\<lambda>_. Inr []) (\<lambda>_. None) None (FSM_Snapshot t) = (None, [SinkWrite [], SinkClose])"
    by (simp add: snapshot_Persist_def snapshot_Marshal_def)
  ultimately show ?thesis
    using snapshot_equals_replay [OF demo_starts run healthy iter acl, of "\<lambda>_. Inr []" "\<lambda>_. None" None _ "\<lambda>_. Inr (FSM_Snapshot t)"] run by auto
qed

end
