(* ===== verification/ClusterSteps.thy ===== *)
theory ClusterSteps
  imports Snapshots
begin

text \<open>
  A cluster as one transition system: any number of nodes, the log that the raft library has
  committed, how much of it each node has applied, and the snapshots that were persisted. A
  leader changes its own state in the handler and applies its entry again, a follower applies
  the next entry, a node serves requests and checks its hosts, persists a snapshot, reads one
  back, or starts again with nothing. \<open>replicated_cluster\<close> extends the contract of \<open>Replicas\<close>
  with the laws of these steps; its invariant says that what a node shows is what the prefix
  of the log that it has applied determines.
\<close>

subsection \<open>Clusters\<close>

record ('e, 's, 'p) cluster_state =
  committed :: "'e list"
  members :: "nat \<Rightarrow> 's"
  applied_index :: "nat \<Rightarrow> nat"
  persisted_snaps :: "(nat \<times> 'p) set"

definition put_member :: "nat \<Rightarrow> 's \<Rightarrow> nat \<Rightarrow> ('e, 's, 'p) cluster_state \<Rightarrow> ('e, 's, 'p) cluster_state" where
  "put_member n s k c = c\<lparr>members := (members c)(n := s), applied_index := (applied_index c)(n := k)\<rparr>"

text \<open>\<open>simple\<close> tells which entries a snapshot can express. A write is accepted by a node that has
  applied the log; the raft library gives a node the snapshots of the log only.\<close>

inductive cluster_step ::
  "('e \<Rightarrow> 's \<Rightarrow> 's outcome) \<Rightarrow> ('s \<Rightarrow> 's \<Rightarrow> bool) \<Rightarrow> ('e \<Rightarrow> 's \<Rightarrow> 's \<Rightarrow> bool) \<Rightarrow> ('s \<Rightarrow> 'p) \<Rightarrow> ('p \<Rightarrow> 's \<Rightarrow> 's \<Rightarrow> bool) \<Rightarrow>
    ('s \<Rightarrow> bool) \<Rightarrow> ('e \<Rightarrow> bool) \<Rightarrow> ('e, 's, 'p) cluster_state \<Rightarrow> ('e, 's, 'p) cluster_state \<Rightarrow> bool"
  for app loc leads snap give fresh simple where
  cluster_follow: "applied_index c n < length (committed c) \<Longrightarrow> app (committed c ! applied_index c n) (members c n) = Ret s' \<Longrightarrow>
    cluster_step app loc leads snap give fresh simple c (put_member n s' (Suc (applied_index c n)) c)"
| cluster_local: "loc (members c n) s' \<Longrightarrow>
    cluster_step app loc leads snap give fresh simple c (put_member n s' (applied_index c n) c)"
| cluster_lead: "applied_index c n = length (committed c) \<Longrightarrow> leads e (members c n) s' \<Longrightarrow>
    cluster_step app loc leads snap give fresh simple c
      (put_member n s' (Suc (applied_index c n)) (c\<lparr>committed := committed c @ [e]\<rparr>))"
| cluster_persist: "cluster_step app loc leads snap give fresh simple c
      (c\<lparr>persisted_snaps := insert (applied_index c n, snap (members c n)) (persisted_snaps c)\<rparr>)"
| cluster_give: "(k, p) \<in> persisted_snaps c \<Longrightarrow> \<forall>e \<in> set (take k (committed c)). simple e \<Longrightarrow> give p (members c n) s' \<Longrightarrow>
    cluster_step app loc leads snap give fresh simple c (put_member n s' k c)"
| cluster_restart: "fresh s' \<Longrightarrow> cluster_step app loc leads snap give fresh simple c (put_member n s' 0 c)"

locale replicated_cluster = replicated_machine good view app spec loc
  for good :: "'s \<Rightarrow> bool" and view :: "'s \<Rightarrow> 'v"
    and app :: "'e \<Rightarrow> 's \<Rightarrow> 's outcome" and spec :: "'e \<Rightarrow> 'v \<Rightarrow> 'v outcome" and loc :: "'s \<Rightarrow> 's \<Rightarrow> bool" +
  fixes leads :: "'e \<Rightarrow> 's \<Rightarrow> 's \<Rightarrow> bool" and snap :: "'s \<Rightarrow> 'p" and give :: "'p \<Rightarrow> 's \<Rightarrow> 's \<Rightarrow> bool"
    and fresh :: "'s \<Rightarrow> bool" and simple :: "'e \<Rightarrow> bool" and initial :: 'v
  assumes lead_refines: "good s \<Longrightarrow> leads e s s' \<Longrightarrow> good s' \<and> spec e (view s) = Ret (view s')"
    and fresh_initial: "fresh s \<Longrightarrow> good s \<and> view s = initial"
    and given: "good s \<Longrightarrow> good t \<Longrightarrow> fold_outcome spec es initial = Ret (view s) \<Longrightarrow> \<forall>e \<in> set es. simple e \<Longrightarrow>
      give (snap s) t t' \<Longrightarrow> good t' \<and> view t' = view s"
begin

definition shows_prefix :: "'e list \<Rightarrow> nat \<Rightarrow> 's \<Rightarrow> bool" where
  "shows_prefix es k s \<longleftrightarrow> k \<le> length es \<and> good s \<and> fold_outcome spec (take k es) initial = Ret (view s)"

definition coherent :: "('e, 's, 'p) cluster_state \<Rightarrow> bool" where
  "coherent c \<longleftrightarrow> (\<forall>n. shows_prefix (committed c) (applied_index c n) (members c n))
     \<and> (\<forall>(k, p) \<in> persisted_snaps c. \<exists>s. p = snap s \<and> shows_prefix (committed c) k s)"

lemma shows_next:
  assumes "shows_prefix es k s" "k < length es" "good s'" "spec (es ! k) (view s) = Ret (view s')"
  shows "shows_prefix es (Suc k) s'"
  using assms by (simp add: shows_prefix_def take_Suc_conv_app_nth fold_outcome_append)

lemma shows_longer: "shows_prefix es k s \<Longrightarrow> shows_prefix (es @ es') k s"
  by (simp add: shows_prefix_def)

lemma coherent_put:
  assumes "coherent c" "shows_prefix (committed c) k s"
  shows "coherent (put_member n s k c)"
  using assms by (auto simp: coherent_def put_member_def)

lemma coherent_longer: "coherent c \<Longrightarrow> coherent (c\<lparr>committed := committed c @ es\<rparr>)"
  by (fastforce simp: coherent_def shows_longer)

lemma coherent_step:
  assumes "cluster_step app loc leads snap give fresh simple c c'" "coherent c"
  shows "coherent c'"
proof -
  have prefix: "shows_prefix (committed c) (applied_index c n) (members c n)" for n
    using assms(2) by (simp add: coherent_def)
  then have good: "good (members c n)" for n by (simp add: shows_prefix_def)
  show ?thesis
    using assms(1)
  proof cases
    case (cluster_follow n s')
    then show ?thesis
      using app_refines [OF good] by (auto intro!: coherent_put [OF assms(2)] shows_next [OF prefix])
  next
    case (cluster_local n s')
    then show ?thesis
      using local_hidden [OF good] prefix [of n] by (auto simp: shows_prefix_def intro!: coherent_put [OF assms(2)])
  next
    case (cluster_lead n e s')
    let ?es = "committed c @ [e]"
    have "shows_prefix ?es (Suc (applied_index c n)) s'"
      using lead_refines [OF good cluster_lead(3)] cluster_lead(2)
      by (intro shows_next [OF shows_longer [OF prefix [of n], of "[e]"]]) simp_all
    then show ?thesis
      using coherent_put [OF coherent_longer [OF assms(2)], of "[e]" "Suc (applied_index c n)" s' n] cluster_lead(1) by simp
  next
    case (cluster_persist n)
    then show ?thesis using assms(2) prefix [of n] by (auto simp: coherent_def)
  next
    case (cluster_give k p n s')
    then obtain s where s: "p = snap s" "shows_prefix (committed c) k s" using assms(2) by (auto simp: coherent_def)
    then have "good s'" "view s' = view s"
      using given [of s "members c n" "take k (committed c)" s'] good cluster_give(3,4) by (auto simp: shows_prefix_def)
    then show ?thesis
      using s(2) cluster_give(1) by (auto simp: shows_prefix_def intro!: coherent_put [OF assms(2)])
  next
    case (cluster_restart s' n)
    then show ?thesis using fresh_initial by (auto simp: shows_prefix_def intro!: coherent_put [OF assms(2)])
  qed
qed

lemma coherent_reached:
  assumes "(cluster_step app loc leads snap give fresh simple)\<^sup>*\<^sup>* c c'" "coherent c"
  shows "coherent c'"
  using assms by (induction rule: rtranclp_induct) (auto intro: coherent_step)

lemma coherent_start: "\<forall>n. fresh (members c n) \<and> applied_index c n = 0 \<Longrightarrow> persisted_snaps c = {} \<Longrightarrow> coherent c"
  using fresh_initial by (auto simp: coherent_def shows_prefix_def)

lemma coherent_agree: "coherent c \<Longrightarrow> applied_index c m = applied_index c n \<Longrightarrow> view (members c m) = view (members c n)"
  by (metis coherent_def outcome.inject(1) shows_prefix_def)

end

subsection \<open>Writes on the leader\<close>

text \<open>The accepted writes, with the entry that each adds to the log: the handlers with their own
  change and the second one from the log, and the proxies that an election or a request
  creates for routes that are new.\<close>

definition committed_by :: "('m, 'l, 'r) server_env \<Rightarrow> ('l, 'r) node \<Rightarrow> LogEntry \<Rightarrow> bool" where
  "committed_by env nd e \<longleftrightarrow> fst (raft_Apply env (raft_state nd) (LogEntry_Encode e)) = None"

inductive leads :: "('m, 'l, 'r) server_env \<Rightarrow> LogEntry \<Rightarrow> ('l, 'r) node \<Rightarrow> ('l, 'r) node \<Rightarrow> bool" for env where
  lead_add_host: "doAddHost env b nd = Ret (ok, nd') \<Longrightarrow> accepts_host env b 6 req nd \<Longrightarrow> own_proxy (host_Pattern req) nd = Some p \<Longrightarrow>
    env_parse (cluster env) (host_Host req) = Inr url \<Longrightarrow> leads env \<lparr>Opt = 6, Data = enc_host (cluster env) req\<rparr> nd nd'"
| lead_remove_host: "doRemoveHost env b nd = Ret (ok, nd') \<Longrightarrow> accepts_host env b 5 req nd \<Longrightarrow> own_proxy (host_Pattern req) nd = Some p \<Longrightarrow>
    HostMap (proxies (nd_gateway nd) p) (host_Host req) \<noteq> None \<Longrightarrow> leads env \<lparr>Opt = 5, Data = enc_host (cluster env) req\<rparr> nd nd'"
| lead_remove_proxy: "doRemoveProxy env b nd = Ret (ok, nd') \<Longrightarrow> dec_pattern env b = Inr pattern \<Longrightarrow> own_proxy pattern nd = Some p \<Longrightarrow>
    committed_by env nd \<lparr>Opt = 4, Data = bytes_of pattern\<rparr> \<Longrightarrow> leads env \<lparr>Opt = 4, Data = bytes_of pattern\<rparr> nd nd'"
| lead_add_proxy: "createProxyWithLocation env l nd = Ret nd' \<Longrightarrow> announced_ok (cluster env) l \<Longrightarrow> own_proxy (l_Pattern l) nd = None \<Longrightarrow>
    committed_by env nd \<lparr>Opt = 1, Data = enc_location (cluster env) l\<rparr> \<Longrightarrow>
    leads env \<lparr>Opt = 1, Data = enc_location (cluster env) l\<rparr> nd nd'"
| lead_limiter: "doSetRateLimiter env b nd = Ret (resp, nd') \<Longrightarrow> enableWrite nd \<Longrightarrow> dec_limiter (cluster env) b = Inr info \<Longrightarrow>
    own_proxy (Prefix info) nd = Some p \<Longrightarrow> committed_by env nd \<lparr>Opt = 2, Data = enc_limiter (cluster env) info\<rparr> \<Longrightarrow>
    leads env \<lparr>Opt = 2, Data = enc_limiter (cluster env) info\<rparr> nd nd'"
| lead_acl: "doHandleAcl env b nd = Ret (ok, nd') \<Longrightarrow> dec_acl (cluster env) b = Inr req \<Longrightarrow>
    committed_by env nd \<lparr>Opt = 3, Data = enc_acl (cluster env) req\<rparr> \<Longrightarrow>
    leads env \<lparr>Opt = 3, Data = enc_acl (cluster env) req\<rparr> nd nd'"

lemma written_keeps_view:
  assumes "writeLogEntry env n d nd = Ret (err, nd')" "n \<in> {2, 3}" "good_gateway (nd_gateway nd)"
  shows "good_gateway (nd_gateway nd')" "view (nd_gateway nd') = view (nd_gateway nd)"
proof -
  have "nd_gateway nd' = nd_gateway nd
      \<or> apply_entry (cluster env) \<lparr>Opt = n, Data = d\<rparr> (nd_gateway nd) = Ret (nd_gateway nd')"
    using assms(1) by (auto simp: writeLogEntry_def apply_entry_def Let_def and_then_eq_Ret split: prod.splits option.splits)
  moreover have "spec_apply (cluster env) \<lparr>Opt = n, Data = d\<rparr> v = Ret v" for v using assms(2) by (auto simp: spec_apply_def)
  ultimately show "good_gateway (nd_gateway nd')" "view (nd_gateway nd') = view (nd_gateway nd)"
    using apply_entry_refines [OF assms(3)] assms(3) by fastforce+
qed

lemma leads_limiter_view:
  assumes "doSetRateLimiter env b nd = Ret (resp, nd')" "good_gateway (nd_gateway nd)"
  shows "view (nd_gateway nd') = view (nd_gateway nd)"
proof -
  consider "nd' = nd" | d err where "writeLogEntry env 2 d nd = Ret (err, nd')"
    | d err nd1 p info err' g where "writeLogEntry env 2 d nd = Ret (err, nd1)"
      "SetRateLimiter (env_rate (cluster env)) p info (nd_gateway nd1) = Ret (err', g)" "nd' = set_gateway g nd1"
    using assms(1) by (simp add: doSetRateLimiter_def and_then_eq_Ret split: if_splits sum.splits option.splits) metis+
  then show ?thesis
  proof cases
    case 2
    then show ?thesis using written_keeps_view(2) [OF _ _ assms(2)] by blast
  next
    case (3 d err nd1 p info err' g)
    have "same_routes (nd_gateway nd1) g"
      by (rule SetRateLimiter_cases [OF 3(2)])
        (auto intro!: same_routes_trans [OF same_routes_upd_proxy same_routes_record_limiter])
    then have "view g = view (nd_gateway nd1)" by (rule same_routes_keeps(1))
    then show ?thesis using written_keeps_view(2) [OF 3(1) _ assms(2)] 3(3) by simp
  qed simp
qed

lemma leads_acl_view:
  assumes "doHandleAcl env b nd = Ret (ok, nd')" "good_gateway (nd_gateway nd)"
  shows "view (nd_gateway nd') = view (nd_gateway nd)"
proof -
  obtain t d err where w: "writeLogEntry env 3 d (set_gateway ((nd_gateway nd)\<lparr>black_list := t\<rparr>) nd) = Ret (err, nd')"
    using assms(1)
    by (auto simp: doHandleAcl_def log_and_answer_def fail_def ok_def R_Marshal_def R_Error_def Ok_def Let_def and_then_eq_Ret split: if_splits sum.splits option.splits)
  have "good_gateway ((nd_gateway nd)\<lparr>black_list := t\<rparr>)" "view ((nd_gateway nd)\<lparr>black_list := t\<rparr>) = view (nd_gateway nd)"
    using same_routes_keeps [OF same_routes_black_list [of "nd_gateway nd" t]] assms(2) by simp_all
  then show ?thesis using written_keeps_view(2) [OF w] by simp
qed

subsection \<open>The cluster of nodes\<close>

definition apply_on :: "('m, 'l, 'r) server_env \<Rightarrow> LogEntry \<Rightarrow> ('l, 'r) node \<Rightarrow> ('l, 'r) node outcome" where
  "apply_on env e nd = and_then (apply_entry (cluster env) e (nd_gateway nd)) (\<lambda>g. Ret (set_gateway g nd))"

text \<open>What a node does on its own: requests, health checks and changes of a balancer, a permission
  to write that is given or taken, and whatever the raft library or a node that joins changes
  in its own state.\<close>

inductive works :: "('m, 'l, 'r) server_env \<Rightarrow> ('l, 'r) node \<Rightarrow> ('l, 'r) node \<Rightarrow> bool" for env where
  works_gateway: "local_step (env_rate (cluster env)) (nd_gateway nd) g' \<Longrightarrow> works env nd (set_gateway g' nd)"
| works_flag: "works env nd (SetWriteFlag b nd)"
| works_raft: "works env nd (nd\<lparr>raft_state := r, peer_addresses := peers\<rparr>)"

inductive reads_back :: "('m, 'l, 'r) server_env \<Rightarrow> snapshot \<Rightarrow> ('l, 'r) node \<Rightarrow> ('l, 'r) node \<Rightarrow> bool" for env where
  "FSM_Restore (cluster env) s (nd_gateway nd) = Ret g' \<Longrightarrow> reads_back env s nd (set_gateway g' nd)"

inductive started :: "('l, 'r) node \<Rightarrow> bool" where
  "main_run read_yaml listen createRaftNode http_get path = Ret nd \<Longrightarrow> started nd"

lemma leads_healthy: "leads env e nd nd' \<Longrightarrow> healthy (nd_gateway nd) \<Longrightarrow> healthy (nd_gateway nd')"
  by (induction rule: leads.induct)
    (auto intro: healthy.adding_host healthy.removing_host healthy.removing_proxy healthy.created healthy.setting_limiter
      healthy.blocking)

lemma leads_refines:
  assumes "leads env e nd nd'" "good_gateway (nd_gateway nd)"
  shows "spec_apply (cluster env) e (view (nd_gateway nd)) = Ret (view (nd_gateway nd'))"
  using assms(1)
proof cases
  case (lead_add_host b req p url)
  then show ?thesis using leader_adds_host [OF assms(2) lead_add_host(3-5)] by auto
next
  case (lead_remove_host b req p)
  then show ?thesis using leader_removes_host [OF assms(2) lead_remove_host(3-5)] by auto
next
  case (lead_remove_proxy b pat p)
  then show ?thesis using leader_removes_proxy [OF assms(2) lead_remove_proxy(3,4)] by (auto simp: committed_by_def)
next
  case (lead_add_proxy l)
  let ?g = "nd_gateway nd"
  obtain routes where routes: "router ?g = Some routes" "registered (current ?g) ?g" using assms(2) by (auto simp: good_gateway_def)
  have "AddProxyWithLocation (env_parse (cluster env)) (env_replicas (cluster env)) (current ?g) l ?g = Ret (None, nd_gateway nd')"
    using createProxyWithLocation_ok [OF lead_add_proxy(3) routes] lead_add_proxy(2) by auto
  then have "view (nd_gateway nd') = spec_new_proxy (cluster env) l (view ?g)"
    using AddProxyWithLocation_refines [OF assms(2), of "cluster env" "env_replicas (cluster env)" l] by simp
  moreover have "v_hosts (view ?g) (l_Pattern l) = None" using lead_add_proxy(4) by (simp add: v_hosts_view own_proxy_def)
  ultimately show ?thesis using lead_add_proxy(1,3) by (simp add: spec_apply_def announced_ok_def)
next
  case (lead_limiter b resp info p)
  then show ?thesis using leads_limiter_view [OF lead_limiter(2) assms(2)] by (simp add: spec_apply_def)
next
  case (lead_acl b req)
  then show ?thesis using leads_acl_view [OF lead_acl(2) assms(2)] by (simp add: spec_apply_def)
qed

lemma finite_locations_apply:
  "finite (dom (v_locations v)) \<Longrightarrow> spec_apply env e v = Ret v' \<Longrightarrow> finite (dom (v_locations v'))"
  by (cases "\<exists>l. dec_location env (Data e) = Inr l \<and> buildable env l")
    (auto simp: spec_apply_def spec_new_proxy_buildable spec_new_proxy_not_buildable spec_remove_proxy_def
      spec_set_hosts_def split: if_splits sum.splits)

definition no_routes :: routes_view where
  "no_routes = \<lparr>v_hosts = Map.empty, v_locations = Map.empty\<rparr>"

text \<open>What applying a log to no routes gives: every location can be built, and if no entry adds or
  removes a single host, the hosts of every route are those of its location.\<close>

lemma spec_run_located:
  assumes "fold_outcome (spec_apply env) es no_routes = Ret v"
  shows "located env v" "finite (dom (v_locations v))" "\<forall>e \<in> set es. Opt e \<notin> {5, 6} \<Longrightarrow> reconfigured env v = v"
proof -
  show "located env v"
    by (rule fold_outcome_keeps [where P = "located env", OF assms _ located_apply]) (simp add: located_def no_routes_def)
  show "finite (dom (v_locations v))"
    by (rule fold_outcome_keeps [where P = "\<lambda>v. finite (dom (v_locations v))", OF assms _ finite_locations_apply])
      (simp add: no_routes_def)
  have "reconfigured env no_routes = no_routes" by (simp add: no_routes_def reconfigured_def)
  then show "reconfigured env v = v" if "\<forall>e \<in> set es. Opt e \<notin> {5, 6}"
    by (rule fold_outcome_keeps [where P = "\<lambda>v. reconfigured env v = v", OF assms]) (rule reconfigured_apply, use that in auto)
qed

lemma reads_back_view:
  assumes "reads_back env (FSM_Snapshot (nd_gateway nd)) nd1 nd2" "healthy (nd_gateway nd1)"
    and "located (cluster env) (view (nd_gateway nd))" "iter_ok (cluster env) (dom (v_locations (view (nd_gateway nd))))"
  shows "healthy (nd_gateway nd2)" "view (nd_gateway nd2) = reconfigured (cluster env) (view (nd_gateway nd))"
proof -
  let ?t = "nd_gateway nd"
  obtain g' where g': "FSM_Restore (cluster env) (FSM_Snapshot ?t) (nd_gateway nd1) = Ret g'" "nd2 = set_gateway g' nd1"
    using assms(1) by cases auto
  show "healthy (nd_gateway nd2)" using healthy.restore [OF assms(2) g'(1)] g'(2) by simp
  obtain tree where "restore_acl (iter (cluster env) (dom (Record (black_list ?t)))) = Ret tree"
    using g'(1) by (auto simp: FSM_Restore_def FSM_Snapshot_def Let_def and_then_eq_Ret)
  then show "view (nd_gateway nd2) = reconfigured (cluster env) (view ?t)"
    using Restore_reconfigures [OF assms(3,2,4)] g' by auto
qed

text \<open>\<open>ordered\<close>: what the model asks of Go's iteration over a map.\<close>

definition ordered :: "('m, 'l, 'r) server_env \<Rightarrow> bool" where
  "ordered env \<longleftrightarrow> (\<forall>S. finite S \<longrightarrow> iter_ok (cluster env) S)"

lemma works_keeps:
  assumes "works env nd nd'" "healthy (nd_gateway nd)"
  shows "healthy (nd_gateway nd') \<and> view (nd_gateway nd') = view (nd_gateway nd)"
  using assms(1)
proof cases
  case (works_gateway g')
  then have "same_routes (nd_gateway nd) g'" by (simp add: local_step_same)
  then show ?thesis using same_routes_keeps(1) same_routes_healthy assms(2) works_gateway(1) by auto
qed (use assms(2) in \<open>auto simp: SetWriteFlag_def\<close>)

text \<open>The contract on the nodes. A snapshot is read back with Go's iteration over its map of
  locations, which \<open>ordered\<close> describes.\<close>

interpretation nodes: replicated_cluster "\<lambda>nd. healthy (nd_gateway nd)" "\<lambda>nd. view (nd_gateway nd)" "apply_on env"
  "spec_apply (cluster env)" "works env" "leads env" "\<lambda>nd. FSM_Snapshot (nd_gateway nd)"
  "\<lambda>s nd nd'. ordered env \<and> reads_back env s nd nd'" started "\<lambda>e. Opt e \<notin> {5, 6}" no_routes
  for env :: "('m, 'l, 'r) server_env"
proof unfold_locales
  fix nd nd' :: "('l, 'r) node" and e es t t'
  assume nd: "healthy (nd_gateway nd)"
  then have good: "good_gateway (nd_gateway nd)" by (simp add: healthy_def)
  show "healthy (nd_gateway nd') \<and> spec_apply (cluster env) e (view (nd_gateway nd)) = Ret (view (nd_gateway nd'))"
    if ret: "apply_on env e nd = Ret nd'"
  proof -
    obtain g where g: "apply_entry (cluster env) e (nd_gateway nd) = Ret g" "nd' = set_gateway g nd"
      using ret by (auto simp: apply_on_def and_then_eq_Ret)
    then show ?thesis using healthy.applied [OF nd g(1)] apply_entry_refines [OF good g(1)] by simp
  qed
  show "works env nd nd' \<Longrightarrow> healthy (nd_gateway nd') \<and> view (nd_gateway nd') = view (nd_gateway nd)"
    using works_keeps nd by blast
  show "leads env e nd nd' \<Longrightarrow> healthy (nd_gateway nd') \<and> spec_apply (cluster env) e (view (nd_gateway nd)) = Ret (view (nd_gateway nd'))"
    using leads_healthy leads_refines good nd by blast
  show "healthy (nd_gateway t') \<and> view (nd_gateway t') = view (nd_gateway nd)"
    if "healthy (nd_gateway t)" "fold_outcome (spec_apply (cluster env)) es no_routes = Ret (view (nd_gateway nd))"
      "\<forall>e \<in> set es. Opt e \<notin> {5, 6}" "ordered env \<and> reads_back env (FSM_Snapshot (nd_gateway nd)) t t'"
  proof -
    note run = spec_run_located [OF that(2)]
    have "iter_ok (cluster env) (dom (v_locations (view (nd_gateway nd))))" using that(4) run(2) by (simp add: ordered_def)
    then show ?thesis using reads_back_view [OF _ that(1) run(1)] that(3,4) run(3) by simp
  qed
next
  fix nd :: "('l, 'r) node"
  assume "started nd"
  then show "healthy (nd_gateway nd) \<and> view (nd_gateway nd) = no_routes"
    using started_shared started_healthy by (cases rule: started.cases) (fastforce simp: shared_def no_routes_def)
qed

definition node_cluster_step :: "('m, 'l, 'r) server_env \<Rightarrow> (LogEntry, ('l, 'r) node, snapshot) cluster_state \<Rightarrow>
    (LogEntry, ('l, 'r) node, snapshot) cluster_state \<Rightarrow> bool" where
  "node_cluster_step env = cluster_step (apply_on env) (works env) (leads env) (\<lambda>nd. FSM_Snapshot (nd_gateway nd))
     (\<lambda>s nd nd'. ordered env \<and> reads_back env s nd nd') started (\<lambda>e. Opt e \<notin> {5, 6})"

definition booted :: "(LogEntry, ('l, 'r) node, snapshot) cluster_state \<Rightarrow> bool" where
  "booted c \<longleftrightarrow> (\<forall>n. started (members c n) \<and> applied_index c n = 0) \<and> persisted_snaps c = {}"

subsection \<open>Properties\<close>

text \<open>C4: a cluster never disagrees. Take any number of processes that came up with \<open>main\<close>, and let
  them take any of these steps in any order: a node that has applied the log accepts a host for
  a route that it has, the removal of a host or proxy that it has, a proxy for a new route, a
  limit or a block, which it applies in the handler and again from the log, and which the
  library commits; followers apply the log, each at its own pace; nodes serve requests, check
  hosts, persist snapshots, read back those of others when no entry before added or removed a
  single host, and start again. Then every node is healthy and has exactly the routes, hosts
  and locations of the prefix of the log that it has applied, so two nodes that have applied as
  much have the same. Writes that are refused or not committed, a proxy for a route that
  exists, and two writes at a time are outside of it; what a second proxy for a route does to the
  agreement is a property of \<open>Agreement\<close>.\<close>

theorem cluster_agrees:
  fixes env :: "('m, 'l, 'r) server_env"
  assumes "booted c" "(node_cluster_step env)\<^sup>*\<^sup>* c c'"
  shows "healthy (nd_gateway (members c' m))
    \<and> fold_outcome (spec_apply (cluster env)) (take (applied_index c' m) (committed c')) no_routes = Ret (view (nd_gateway (members c' m)))
    \<and> (applied_index c' m = applied_index c' n \<longrightarrow> view (nd_gateway (members c' m)) = view (nd_gateway (members c' n)))"
proof -
  have coherent: "nodes.coherent TYPE('m) env c'"
    using nodes.coherent_reached [OF assms(2) [unfolded node_cluster_step_def]] nodes.coherent_start [of c env] assms(1)
    by (simp add: booted_def)
  have "nodes.shows_prefix TYPE('m) env (committed c') (applied_index c' m) (members c' m)"
    using coherent unfolding nodes.coherent_def by blast
  then show ?thesis
    unfolding nodes.shows_prefix_def using nodes.coherent_agree [OF coherent] by blast
qed

theorem cluster_agrees_witness:
  "\<exists>c c' :: (LogEntry, (int \<times> int, unit) node, snapshot) cluster_state.
     booted c \<and> (node_cluster_step demo_server)\<^sup>*\<^sup>* c c' \<and> applied_index c' 0 = 1 \<and> applied_index c' 1 = 1
     \<and> view (nd_gateway (members c' 0)) = view (nd_gateway (members c' 1))
     \<and> v_locations (view (nd_gateway (members c' 1))) ''/api'' \<noteq> None"
proof -
  let ?l = "hd (Locations_cfg leader_conf)" and ?g = "nd_gateway demo_started"
  let ?e = "\<lparr>Opt = 1, Data = enc_location demo_env ?l\<rparr>"
  let ?c = "\<lparr>committed = [], members = (\<lambda>_. demo_started), applied_index = (\<lambda>_. 0), persisted_snaps = {}\<rparr>
    :: (LogEntry, (int \<times> int, unit) node, snapshot) cluster_state"
  have boot: "booted ?c" using demo_starts by (auto simp: booted_def intro: started.intros)
  have good: "good_gateway ?g" "view ?g = no_routes"
    using started_shared [OF demo_starts] by (simp_all add: shared_def no_routes_def)
  have ann: "announced_ok demo_env ?l" "l_Pattern ?l = ''/api''" using demo_announced by (simp_all add: leader_conf_def)
  have g: "router ?g = Some Map.empty" "registered (current ?g) ?g" using main_run_ready [OF demo_starts] by simp_all
  have env: "cluster demo_server = demo_env" by (simp add: demo_server_def)
  obtain nd where nd: "createProxyWithLocation demo_server ?l demo_started = Ret nd"
    using createProxyWithLocation_ok [of demo_server ?l demo_started, OF _ g] ann(1) unfolding env by blast
  let ?c1 = "put_member 0 nd (Suc (applied_index ?c 0)) (?c\<lparr>committed := committed ?c @ [?e]\<rparr>)"
  have "leads demo_server ?e demo_started nd"
    unfolding env [symmetric]
    by (rule lead_add_proxy [OF nd])
      (use ann good in \<open>simp_all add: env committed_by_def demo_server_def own_proxy_def demo_started_def process_globals_def NewProxyMap_def\<close>)
  then have lead: "node_cluster_step demo_server ?c ?c1"
    unfolding node_cluster_step_def by (intro cluster_lead) simp_all
  have "spec_apply demo_env ?e (view ?g) = Ret (spec_new_proxy demo_env ?l no_routes)"
    using ann good by (simp add: spec_apply_def announced_ok_def no_routes_def)
  then obtain ret t where t: "FSM_Apply demo_env (LogEntry_Encode ?e) ?g = Ret (ret, t)" "view t = spec_new_proxy demo_env ?l no_routes"
    using FSM_refines [OF good(1), of ?e demo_env] by auto
  then have app: "apply_on demo_server ?e demo_started = Ret (set_gateway t demo_started)"
    by (simp add: apply_on_def apply_entry_def env)
  let ?c2 = "put_member 1 (set_gateway t demo_started) (Suc (applied_index ?c1 1)) ?c1"
  have follow: "node_cluster_step demo_server ?c1 ?c2"
    unfolding node_cluster_step_def by (rule cluster_follow) (use app in \<open>simp_all add: put_member_def\<close>)
  have steps: "(node_cluster_step demo_server)\<^sup>*\<^sup>* ?c ?c2" using lead follow by auto
  have "applied_index ?c2 0 = 1" "applied_index ?c2 1 = 1" "view (nd_gateway (members ?c2 1)) = view t"
    by (simp_all add: put_member_def)
  moreover from this have "view (nd_gateway (members ?c2 0)) = view (nd_gateway (members ?c2 1))"
    using cluster_agrees [OF boot steps, of 0 1] by simp
  moreover have "v_locations (view t) ''/api'' \<noteq> None" using announced_new_proxy [OF ann(1), of no_routes] ann(2) t(2) by simp
  ultimately show ?thesis using boot steps by (intro exI [of _ ?c] exI [of _ ?c2]) simp
qed

end
