(* ===== verification/Setup.thy ===== *)
theory Setup
  imports NodeSteps
begin

text \<open>
  Setting up the raft node (\<open>createRaftNode\<close> and \<open>newRaftTransport\<close> in \<open>cluster.go\<close>) and the
  flag of \<open>Start\<close> that tells a first start from a restart. The raft library, its stores, the
  directory and the resolver are the record \<open>raft_lib\<close>; \<open>filepath.Join\<close> of the standard library
  is defined. The properties compose the set-up with the start of the process and the first
  election.
\<close>

subsection \<open>Paths\<close>

text \<open>The loop of \<open>filepath.Clean\<close> over the parts of a path; \<open>out\<close> holds the parts kept so far, the
  last one first.\<close>

fun clean_parts :: "bool \<Rightarrow> string list \<Rightarrow> string list \<Rightarrow> string list" where
  "clean_parts rooted out [] = rev out"
| "clean_parts rooted out (p # ps) =
     (if p = [] \<or> p = ''.'' then clean_parts rooted out ps
      else if p = ''..'' then
        (case out of
           [] \<Rightarrow> clean_parts rooted (if rooted then [] else [p]) ps
         | q # qs \<Rightarrow> if q = ''..'' then clean_parts rooted (p # out) ps else clean_parts rooted qs ps)
      else clean_parts rooted (p # out) ps)"

fun join_parts :: "string list \<Rightarrow> string" where
  "join_parts [] = []"
| "join_parts [p] = p"
| "join_parts (p # ps) = p @ CHR ''/'' # join_parts ps"

definition filepath_Clean :: "string \<Rightarrow> string" where
  "filepath_Clean path =
     (let rooted = (take 1 path = ''/'');
          kept = join_parts (clean_parts rooted [] (Split path CHR ''/''))
      in if rooted then CHR ''/'' # kept else if kept = [] then ''.'' else kept)"

definition filepath_Join :: "string list \<Rightarrow> string" where
  "filepath_Join elems =
     (let parts = dropWhile (\<lambda>e. e = []) elems
      in if parts = [] then [] else filepath_Clean (join_parts parts))"

lemma filepath_Join_demo:
  "filepath_Join [''./data'', ''node1''] = ''data/node1''"
  "filepath_Join [''/var/../data/'', ''node1''] = ''/data/node1''"
  by code_simp+

subsection \<open>The raft node\<close>

record raft_config =
  LocalID :: string
  rc_SnapshotInterval :: int
  rc_SnapshotThreshold :: u64
  rc_LogLevel :: string
  rc_HeartbeatTimeout :: int
  rc_ElectionTimeout :: int

record 'r raft_lib =
  ResolveTCPAddr :: "string \<Rightarrow> string + string"
  NewTCPTransport :: "string \<Rightarrow> string + string"
  MkdirAll :: "string \<Rightarrow> string option"
  NewFileSnapshotStore :: "string \<Rightarrow> string option"
  NewBoltStore :: "string \<Rightarrow> string option"
  NewRaft :: "raft_config \<Rightarrow> string \<Rightarrow> string \<Rightarrow> string + 'r"
  BootstrapCluster :: "(string \<times> string) list \<Rightarrow> 'r \<Rightarrow> 'r"

definition Second :: int where "Second = 1000000000"

text \<open>The result is the local address of the transport.\<close>

definition newRaftTransport :: "'r raft_lib \<Rightarrow> CherylConfig \<Rightarrow> string + string" where
  "newRaftTransport lib conf =
     (case ResolveTCPAddr lib (RaftTCPAddress conf) of
        Inl err \<Rightarrow> Inl err
      | Inr address \<Rightarrow>
         (case NewTCPTransport lib address of
            Inl err \<Rightarrow> Inl err
          | Inr transport \<Rightarrow> Inr transport))"

definition createRaftNode :: "'r raft_lib \<Rightarrow> CherylConfig \<Rightarrow> string + 'r" where
  "createRaftNode lib conf =
     (let raftConfig = \<lparr>LocalID = Name conf, rc_SnapshotInterval = int64 (SnapshotInterval conf * Second),
            rc_SnapshotThreshold = SnapshotThreshold conf, rc_LogLevel = RaftLogLevel conf,
            rc_HeartbeatTimeout = int64 (HeartbeatTimeout conf * Second),
            rc_ElectionTimeout = int64 (ElectionTimeout conf * Second)\<rparr>
      in case newRaftTransport lib conf of
        Inl err \<Rightarrow> Inl err
      | Inr localAddr \<Rightarrow>
          let path = filepath_Join [DataDir conf, Name conf] in
         (case MkdirAll lib path of
            Some err \<Rightarrow> Inl err
          | None \<Rightarrow>
         (case NewFileSnapshotStore lib path of
            Some err \<Rightarrow> Inl err
          | None \<Rightarrow>
         (case NewBoltStore lib (filepath_Join [path, ''raft-log.bolt'']) of
            Some err \<Rightarrow> Inl err
          | None \<Rightarrow>
         (case NewBoltStore lib (filepath_Join [path, ''raft-stable.bolt'']) of
            Some err \<Rightarrow> Inl err
          | None \<Rightarrow>
         (case NewRaft lib raftConfig path localAddr of
            Inl err \<Rightarrow> Inl err
          | Inr raftNode \<Rightarrow>
              Inr (if IsLeader conf then BootstrapCluster lib [(LocalID raftConfig, localAddr)] raftNode
                   else raftNode)))))))"

text \<open>\<open>init\<close> of \<open>Start\<close>: was there a data directory when the process started? The error of
  \<open>PathExist\<close> is ignored, so a directory that cannot be examined counts as absent.\<close>

definition data_dir_exists :: "(string \<Rightarrow> stat_result) \<Rightarrow> CherylConfig \<Rightarrow> bool" where
  "data_dir_exists stat conf = fst (PathExist stat (filepath_Join [DataDir conf, Name conf]))"

lemma createRaftNode_cases:
  assumes "createRaftNode lib conf = Inr r"
  obtains address localAddr node rc where "ResolveTCPAddr lib (RaftTCPAddress conf) = Inr address"
    "NewTCPTransport lib address = Inr localAddr" "MkdirAll lib (filepath_Join [DataDir conf, Name conf]) = None"
    "NewRaft lib rc (filepath_Join [DataDir conf, Name conf]) localAddr = Inr node" "LocalID rc = Name conf"
    "r = (if IsLeader conf then BootstrapCluster lib [(Name conf, localAddr)] node else node)"
  using assms
  by (auto simp: createRaftNode_def newRaftTransport_def Let_def split: sum.splits option.splits)

text \<open>A follower that has not joined ends, so a running process has set up its raft node with its
  own name; only the configured leader starts a cluster of its own, in which it is alone.\<close>

lemma started_raft_node:
  assumes "main_run read_yaml listen (createRaftNode lib) http_get path = Ret nd"
  shows "\<exists>conf address localAddr node rc. read_yaml path = Inr (Some conf) \<and> ResolveTCPAddr lib (RaftTCPAddress conf) = Inr address
    \<and> NewTCPTransport lib address = Inr localAddr \<and> LocalID rc = Name conf
    \<and> NewRaft lib rc (filepath_Join [DataDir conf, Name conf]) localAddr = Inr node
    \<and> raft_state nd = (if IsLeader conf then BootstrapCluster lib [(Name conf, localAddr)] node else node)"
proof -
  obtain conf r where conf: "read_yaml path = Inr (Some conf)" "createRaftNode lib conf = Inr r"
    "startRouter listen conf (new_node process_globals r) = Ret nd"
    using assms
    by (auto simp: main_run_def ReadConfig_def Start_def split: sum.splits option.splits if_splits)
  have r: "raft_state nd = r" using conf(3) by (auto simp: startRouter_def new_node_def set_gateway_def Let_def split: if_splits)
  obtain address localAddr node rc where made: "ResolveTCPAddr lib (RaftTCPAddress conf) = Inr address"
    "NewTCPTransport lib address = Inr localAddr" "NewRaft lib rc (filepath_Join [DataDir conf, Name conf]) localAddr = Inr node"
    "LocalID rc = Name conf" "r = (if IsLeader conf then BootstrapCluster lib [(Name conf, localAddr)] node else node)"
    by (rule createRaftNode_cases [OF conf(2)])
  show ?thesis unfolding r
    by (rule exI [of _ conf], rule exI [of _ address], rule exI [of _ localAddr], rule exI [of _ node], rule exI [of _ rc])
      (use conf(1) made in simp)
qed

subsection \<open>Restarts\<close>

text \<open>What the first notification makes of a node that has just started: the configuration on a
  first start, nothing on a restart, when the raft library has given the log and the snapshot
  back to the state machine.\<close>

lemma first_election:
  assumes "main_run read_yaml listen createNode http_get path = Ret nd" "read_yaml path = Inr (Some conf)"
    and "\<forall>l \<in> set (Locations_cfg conf). announced_ok (cluster env) l" "leader \<or> IsLeader conf"
  shows "\<exists>nd'. leader_notified env conf (data_dir_exists stat conf) leader nd = Ret nd' \<and> enableWrite nd'
    \<and> dom (Relations (maps (nd_gateway nd') (current (nd_gateway nd'))))
        = (if data_dir_exists stat conf then {} else l_Pattern ` set (Locations_cfg conf))"
proof -
  let ?g = "nd_gateway nd" and ?ls = "Locations_cfg conf"
  have g: "router ?g = Some Map.empty" "registered (current ?g) ?g" "Relations (maps ?g (current ?g)) = Map.empty"
    using main_run_ready [OF assms(1)] by simp_all
  show ?thesis
  proof (cases "data_dir_exists stat conf")
    case True
    then show ?thesis using assms(4) g(3) by (simp add: leader_notified_def SetWriteFlag_def)
  next
    case False
    obtain nd1 where nd1: "createProxy env conf nd = Ret nd1"
      "restore_locations (cluster env) (current ?g) ?ls ?g = Ret (nd_gateway nd1)"
      using createProxy_ok [OF _ g(1,2), of conf env] assms(3) by auto
    have "location_ok (cluster env) l" if "l \<in> set ?ls" for l using assms(3) that by (simp add: announced_ok_def)
    from restore_locations_ok [of ?ls "cluster env", OF this g(1,2)] nd1(2) g(3)
    have "current (nd_gateway nd1) = current ?g" "dom (Relations (maps (nd_gateway nd1) (current ?g))) = l_Pattern ` set ?ls" by auto
    then show ?thesis using False assms(4) nd1(1) by (simp add: leader_notified_def SetWriteFlag_def)
  qed
qed

end
