(* ===== verification/PageProtocol.thy ===== *)
theory PageProtocol
  imports Prelude
begin

text \<open>
  A page of the web interface and the server behind it, as one transition system. The user acts
  on the page, which may ask the server something; the server serves the oldest request, with
  an answer and a new state; the page receives the oldest answer, and may ask again; and the
  server moves on its own. Requests and answers stay in order, as on one connection. The locale
  \<open>refreshing_view\<close> is the contract of a page that shows something the server has and reads it
  again whenever a write was acknowledged. Its lemmas are used for every page that does so.
\<close>

record ('p, 'q, 'a, 's) browsing =
  shown :: 'p
  asked :: "'q list"
  answers :: "('q \<times> 'a) list"
  site :: 's

inductive user_step :: "('e \<Rightarrow> 'p \<Rightarrow> 'p \<times> 'q list) \<Rightarrow> ('p, 'q, 'a, 's) browsing \<Rightarrow> ('p, 'q, 'a, 's) browsing \<Rightarrow> bool"
  for act where
  acted: "act ev (shown c) = (p', qs) \<Longrightarrow> user_step act c (c\<lparr>shown := p', asked := asked c @ qs\<rparr>)"

text \<open>What the network does: it delivers a request and takes the answer, or delivers an answer.\<close>

inductive network_step ::
  "('q \<Rightarrow> 's \<Rightarrow> 'a \<Rightarrow> 's \<Rightarrow> bool) \<Rightarrow> ('q \<Rightarrow> 'a \<Rightarrow> 'p \<Rightarrow> 'p \<times> 'q list)
   \<Rightarrow> ('p, 'q, 'a, 's) browsing \<Rightarrow> ('p, 'q, 'a, 's) browsing \<Rightarrow> bool"
  for serves receive where
  served: "asked c = q # rest \<Longrightarrow> serves q (site c) a s' \<Longrightarrow>
    network_step serves receive c (c\<lparr>asked := rest, answers := answers c @ [(q, a)], site := s'\<rparr>)"
| received: "answers c = (q, a) # rest \<Longrightarrow> receive q a (shown c) = (p', qs) \<Longrightarrow>
    network_step serves receive c (c\<lparr>shown := p', asked := asked c @ qs, answers := rest\<rparr>)"

inductive_cases user_stepE: "user_step act c c'"
inductive_cases network_stepE: "network_step serves receive c c'"

text \<open>The configurations that can be reached from \<open>c0\<close>; \<open>quiet\<close> is what the server does on its
  own.\<close>

inductive browsed ::
  "('e \<Rightarrow> 'p \<Rightarrow> 'p \<times> 'q list) \<Rightarrow> ('q \<Rightarrow> 's \<Rightarrow> 'a \<Rightarrow> 's \<Rightarrow> bool) \<Rightarrow> ('q \<Rightarrow> 'a \<Rightarrow> 'p \<Rightarrow> 'p \<times> 'q list)
   \<Rightarrow> ('s \<Rightarrow> 's \<Rightarrow> bool) \<Rightarrow> ('p, 'q, 'a, 's) browsing \<Rightarrow> ('p, 'q, 'a, 's) browsing \<Rightarrow> bool"
  for act serves receive quiet c0 where
  opened: "browsed act serves receive quiet c0 c0"
| by_user: "browsed act serves receive quiet c0 c \<Longrightarrow> user_step act c c' \<Longrightarrow> browsed act serves receive quiet c0 c'"
| by_network: "browsed act serves receive quiet c0 c \<Longrightarrow> network_step serves receive c c' \<Longrightarrow>
    browsed act serves receive quiet c0 c'"
| by_itself: "browsed act serves receive quiet c0 c \<Longrightarrow> quiet (site c) s' \<Longrightarrow>
    browsed act serves receive quiet c0 (c\<lparr>site := s'\<rparr>)"

definition settled :: "('p, 'q, 'a, 's) browsing \<Rightarrow> bool" where
  "settled c \<longleftrightarrow> asked c = [] \<and> answers c = []"

inductive network_run ::
  "('q \<Rightarrow> 's \<Rightarrow> 'a \<Rightarrow> 's \<Rightarrow> bool) \<Rightarrow> ('q \<Rightarrow> 'a \<Rightarrow> 'p \<Rightarrow> 'p \<times> 'q list)
   \<Rightarrow> nat \<Rightarrow> ('p, 'q, 'a, 's) browsing \<Rightarrow> ('p, 'q, 'a, 's) browsing \<Rightarrow> bool"
  for serves receive where
  no_step: "network_run serves receive 0 c c"
| one_more: "network_run serves receive n c c' \<Longrightarrow> network_step serves receive c' c'' \<Longrightarrow>
    network_run serves receive (Suc n) c c''"

text \<open>A run in which less can happen is a run.\<close>

lemma network_step_mono:
  "network_step serves receive c c' \<Longrightarrow> (\<And>q s a s'. serves q s a s' \<Longrightarrow> serves' q s a s') \<Longrightarrow> network_step serves' receive c c'"
  by (elim network_stepE) (auto intro: network_step.intros)

lemma network_run_mono:
  assumes "network_run serves receive n c c'" "\<And>q s a s'. serves q s a s' \<Longrightarrow> serves' q s a s'"
  shows "network_run serves' receive n c c'"
  using assms(1)
proof (induction rule: network_run.induct)
  case (one_more n c c' c'')
  from network_run.one_more [OF one_more.IH network_step_mono [OF one_more.hyps(2) assms(2)]] show ?case by simp
qed (rule network_run.no_step)

lemma browsed_mono:
  assumes "browsed act serves receive quiet c0 c" "\<And>q s a s'. serves q s a s' \<Longrightarrow> serves' q s a s'"
    and "\<And>s s'. quiet s s' \<Longrightarrow> quiet' s s'"
  shows "browsed act serves' receive quiet' c0 c"
  using assms(1)
proof (induction rule: browsed.induct)
  case (by_user c c')
  from browsed.by_user [OF by_user.IH by_user.hyps(2)] show ?case .
next
  case (by_network c c')
  from browsed.by_network [OF by_network.IH network_step_mono [OF by_network.hyps(2) assms(2)]] show ?case by simp
next
  case (by_itself c s')
  from browsed.by_itself [OF by_itself.IH assms(3) [OF by_itself.hyps(2)]] show ?case .
qed (rule browsed.opened)

text \<open>What every step of the server keeps holds of it throughout.\<close>

lemma network_step_site:
  assumes "network_step serves receive c c'" "P (site c)" "\<And>q s a s'. serves q s a s' \<Longrightarrow> P s \<Longrightarrow> P s'"
  shows "P (site c')"
  using assms(1) by (elim network_stepE) (use assms(2,3) in auto)

lemma network_run_site:
  assumes "network_run serves receive n c c'" "P (site c)" "\<And>q s a s'. serves q s a s' \<Longrightarrow> P s \<Longrightarrow> P s'"
  shows "P (site c')"
  using assms(1,2)
proof (induction rule: network_run.induct)
  case (one_more n c c' c'')
  have "P (site c')" by (rule one_more.IH [OF one_more.prems])
  then show ?case by (rule network_step_site [where P = P, OF one_more.hyps(2)]) (rule assms(3))
qed

lemma browsed_site:
  assumes "browsed act serves receive quiet c0 c" "P (site c0)" "\<And>q s a s'. serves q s a s' \<Longrightarrow> P s \<Longrightarrow> P s'"
    and "\<And>s s'. quiet s s' \<Longrightarrow> P s \<Longrightarrow> P s'"
  shows "P (site c)"
  using assms(1)
proof (induction rule: browsed.induct)
  case (by_user c c')
  from by_user.hyps(2) show ?case by (elim user_stepE) (use by_user.IH in simp)
next
  case (by_network c c')
  from by_network.IH show ?case by (rule network_step_site [where P = P, OF by_network.hyps(2)]) (rule assms(3))
next
  case (by_itself c s')
  from assms(4) [OF by_itself.hyps(2) by_itself.IH] show ?case by simp
qed (rule assms(2))

text \<open>The steps of a run that is written out.\<close>

lemma browsed_act:
  assumes "browsed act serves receive quiet c0 \<lparr>shown = p, asked = qs, answers = as, site = s\<rparr>" "act ev p = (p', rs)"
  shows "browsed act serves receive quiet c0 \<lparr>shown = p', asked = qs @ rs, answers = as, site = s\<rparr>"
  using browsed.by_user [OF assms(1), of "\<lparr>shown = p', asked = qs @ rs, answers = as, site = s\<rparr>"]
    user_step.acted [of act ev "\<lparr>shown = p, asked = qs, answers = as, site = s\<rparr>" p' rs] assms(2) by simp

lemma browsed_serve:
  assumes "browsed act serves receive quiet c0 \<lparr>shown = p, asked = q # qs, answers = as, site = s\<rparr>" "serves q s a s'"
  shows "browsed act serves receive quiet c0 \<lparr>shown = p, asked = qs, answers = as @ [(q, a)], site = s'\<rparr>"
  using browsed.by_network [OF assms(1), of "\<lparr>shown = p, asked = qs, answers = as @ [(q, a)], site = s'\<rparr>"]
    network_step.served [of "\<lparr>shown = p, asked = q # qs, answers = as, site = s\<rparr>" q qs serves a s' receive] assms(2) by simp

lemma browsed_receive:
  assumes "browsed act serves receive quiet c0 \<lparr>shown = p, asked = qs, answers = (q, a) # as, site = s\<rparr>" "receive q a p = (p', rs)"
  shows "browsed act serves receive quiet c0 \<lparr>shown = p', asked = qs @ rs, answers = as, site = s\<rparr>"
  using browsed.by_network [OF assms(1), of "\<lparr>shown = p', asked = qs @ rs, answers = as, site = s\<rparr>"]
    network_step.received [of "\<lparr>shown = p, asked = qs, answers = (q, a) # as, site = s\<rparr>" q a as receive p' rs serves] assms(2) by simp

lemma browsed_exchange:
  assumes "browsed act serves receive quiet c0 \<lparr>shown = p, asked = [q], answers = [], site = s\<rparr>"
    and "serves q s a s'" "receive q a p = (p', rs)"
  shows "browsed act serves receive quiet c0 \<lparr>shown = p', asked = rs, answers = [], site = s'\<rparr>"
  using browsed_receive [OF browsed_serve [OF assms(1), of a s', simplified], OF assms(2,3)] by simp

lemma browsed_two:
  assumes "browsed act serves receive quiet c0 \<lparr>shown = p, asked = [q1, q2], answers = [], site = s\<rparr>"
    and "serves q1 s a1 s1" "serves q2 s1 a2 s2" "receive q1 a1 p = (p1, [])" "receive q2 a2 p1 = (p2, [])"
  shows "browsed act serves receive quiet c0 \<lparr>shown = p2, asked = [], answers = [], site = s2\<rparr>"
proof -
  have "browsed act serves receive quiet c0 \<lparr>shown = p, asked = [], answers = [(q1, a1), (q2, a2)], site = s2\<rparr>"
    using browsed_serve [of act serves receive quiet c0, OF browsed_serve [of act serves receive quiet c0, OF assms(1,2)] assms(3)] by simp
  from browsed_receive [of act serves receive quiet c0, OF this assms(4)]
  have "browsed act serves receive quiet c0 \<lparr>shown = p1, asked = [], answers = [(q2, a2)], site = s2\<rparr>" by simp
  from browsed_receive [of act serves receive quiet c0, OF this assms(5)] show ?thesis by simp
qed

text \<open>The messages that are still to come: a request that reads needs its answer, a request that
  writes its answer and perhaps a request that reads.\<close>

definition work :: "('q \<Rightarrow> bool) \<Rightarrow> ('p, 'q, 'a, 's) browsing \<Rightarrow> nat" where
  "work is_read c = (\<Sum>q\<leftarrow>asked c. if is_read q then 2 else 4) + (\<Sum>(q, a)\<leftarrow>answers c. if is_read q then 1 else 3)"

lemma work_bound:
  fixes c :: "('p, 'a, 'c, 's) browsing"
  shows "work is_read c \<le> 4 * length (asked c) + 3 * length (answers c)"
proof -
  have "(\<Sum>q\<leftarrow>qs. if is_read q then 2 else 4) \<le> 4 * length qs" for qs
    by (induction qs) auto
  moreover have "(\<Sum>(q, a)\<leftarrow>as. if is_read q then 1 else 3) \<le> 3 * length as" for as :: "('a \<times> 'c) list"
    by (induction as) auto
  ultimately show ?thesis unfolding work_def by (meson add_mono)
qed

text \<open>While something is on the way, the next message can be delivered if the oldest request is served.\<close>

lemma network_moves:
  assumes "\<not> settled c" "answers c = [] \<Longrightarrow> \<exists>a s'. serves (hd (asked c)) (site c) a s'"
  shows "\<exists>c'. network_step serves receive c c'"
proof (cases "answers c")
  case Nil
  then obtain q rest where "asked c = q # rest" using assms(1) by (cases "asked c") (auto simp: settled_def)
  moreover obtain a s' where "serves (hd (asked c)) (site c) a s'" using assms(2) [OF Nil] by blast
  ultimately have "network_step serves receive c (c\<lparr>asked := rest, answers := answers c @ [(q, a)], site := s'\<rparr>)"
    by (intro network_step.served) simp_all
  then show ?thesis ..
next
  case (Cons x rest)
  obtain q a where x: "x = (q, a)" by (cases x)
  obtain p' qs where "receive q a (shown c) = (p', qs)" by (cases "receive q a (shown c)")
  with Cons x have "network_step serves receive c (c\<lparr>shown := p', asked := asked c @ qs, answers := rest\<rparr>)"
    by (intro network_step.received) simp_all
  then show ?thesis ..
qed

text \<open>The contract. \<open>content\<close> is what the server has, \<open>display\<close> what the page shows of it;
  \<open>renews\<close> marks the answers that make the page read again.\<close>

locale refreshing_view =
  fixes act :: "'e \<Rightarrow> 'p \<Rightarrow> 'p \<times> 'q list"
    and serves :: "'q \<Rightarrow> 's \<Rightarrow> 'a \<Rightarrow> 's \<Rightarrow> bool"
    and receive :: "'q \<Rightarrow> 'a \<Rightarrow> 'p \<Rightarrow> 'p \<times> 'q list"
    and quiet :: "'s \<Rightarrow> 's \<Rightarrow> bool"
    and content :: "'s \<Rightarrow> 'v"
    and display :: "'p \<Rightarrow> 'v"
    and legal :: "'q \<Rightarrow> bool"
    and is_read :: "'q \<Rightarrow> bool"
    and renews :: "'q \<Rightarrow> 'a \<Rightarrow> bool"
  assumes act_shows: "act ev p = (p', qs) \<Longrightarrow> display p' = display p"
    and act_legal: "act ev p = (p', qs) \<Longrightarrow> q \<in> set qs \<Longrightarrow> legal q"
    and read_keeps: "is_read q \<Longrightarrow> serves q s a s' \<Longrightarrow> content s' = content s"
    and read_shows: "is_read q \<Longrightarrow> serves q s a s' \<Longrightarrow> receive q a p = (p', qs) \<Longrightarrow> display p' = content s'"
    and read_ends: "is_read q \<Longrightarrow> receive q a p = (p', qs) \<Longrightarrow> qs = []"
    and write_shows: "legal q \<Longrightarrow> \<not> is_read q \<Longrightarrow> receive q a p = (p', qs) \<Longrightarrow> display p' = display p"
    and write_renews: "legal q \<Longrightarrow> \<not> is_read q \<Longrightarrow> serves q s a s' \<Longrightarrow> content s' = content s \<or> renews q a"
    and renews_reads: "renews q a \<Longrightarrow> receive q a p = (p', qs) \<Longrightarrow> \<exists>r \<in> set qs. is_read r"
    and receive_reads: "legal q \<Longrightarrow> receive q a p = (p', qs) \<Longrightarrow> length qs \<le> 1 \<and> (\<forall>r \<in> set qs. legal r \<and> is_read r)"
    and receive_cong: "display p = display r \<Longrightarrow> display (fst (receive q a p)) = display (fst (receive q a r))"
    and quiet_keeps: "quiet s s' \<Longrightarrow> content s' = content s"
begin

text \<open>What the page will show once the answers on the way are in: the display of the last read
  among them, or what it shows now.\<close>

fun shown_after :: "('q \<times> 'a) list \<Rightarrow> 'p \<Rightarrow> 'v" where
  "shown_after [] p = display p"
| "shown_after ((q, a) # rest) p = shown_after rest (fst (receive q a p))"

definition current_view :: "('p, 'q, 'a, 's) browsing \<Rightarrow> bool" where
  "current_view c \<longleftrightarrow> (\<exists>q \<in> set (asked c). is_read q) \<or> (\<exists>(q, a) \<in> set (answers c). renews q a)
     \<or> shown_after (answers c) (shown c) = content (site c)"

definition lawful :: "('p, 'q, 'a, 's) browsing \<Rightarrow> bool" where
  "lawful c \<longleftrightarrow> (\<forall>q \<in> set (asked c). legal q) \<and> (\<forall>(q, a) \<in> set (answers c). legal q)"

lemma shown_after_cong: "display p = display r \<Longrightarrow> shown_after xs p = shown_after xs r"
proof (induction xs arbitrary: p r)
  case (Cons x xs)
  obtain q a where x: "x = (q, a)" by (cases x)
  show ?case using Cons.IH [OF receive_cong [OF Cons.prems]] by (simp add: x)
qed simp

lemma shown_after_read:
  "is_read q \<Longrightarrow> serves q s a s' \<Longrightarrow> shown_after (xs @ [(q, a)]) p = content s'"
proof (induction xs arbitrary: p)
  case Nil
  then show ?case using read_shows [of q s a s' p] by (cases "receive q a p") simp
next
  case (Cons x xs)
  then show ?case by (cases x) simp
qed

lemma shown_after_write:
  "legal q \<Longrightarrow> \<not> is_read q \<Longrightarrow> shown_after (xs @ [(q, a)]) p = shown_after xs p"
proof (induction xs arbitrary: p)
  case Nil
  then show ?case using write_shows [of q a p] by (cases "receive q a p") simp
next
  case (Cons x xs)
  then show ?case by (cases x) simp
qed

lemma user_keeps:
  assumes "user_step act c c'" "current_view c" "lawful c"
  shows "current_view c' \<and> lawful c'"
  using assms(1)
proof (elim user_stepE, goal_cases)
  case (1 ev p' qs)
  then show ?thesis
    using assms(2,3) act_legal [OF 1(2)] shown_after_cong [OF act_shows [OF 1(2)]]
    by (auto simp: lawful_def current_view_def)
qed

lemma served_keeps:
  assumes "asked c = q # rest" "serves q (site c) a s'" "current_view c" "lawful c"
  shows "current_view (c\<lparr>asked := rest, answers := answers c @ [(q, a)], site := s'\<rparr>)"
proof (cases "is_read q")
  case True
  then show ?thesis using shown_after_read [OF True assms(2)] by (simp add: current_view_def)
next
  case False
  have "legal q" using assms(1,4) by (simp add: lawful_def)
  with write_renews [OF this False assms(2)] shown_after_write [OF this False] assms(1,3) False
  show ?thesis by (auto simp: current_view_def)
qed

lemma received_keeps:
  assumes "answers c = (q, a) # rest" "receive q a (shown c) = (p', qs)" "current_view c"
  shows "current_view (c\<lparr>shown := p', asked := asked c @ qs, answers := rest\<rparr>)"
  using assms renews_reads [OF _ assms(2)] by (auto simp: current_view_def)

lemma network_keeps:
  assumes "network_step serves receive c c'" "current_view c" "lawful c"
  shows "current_view c' \<and> lawful c'"
  using assms(1)
proof (elim network_stepE, goal_cases)
  case (1 q rest a s')
  then show ?thesis using served_keeps [OF 1(2,3) assms(2,3)] assms(3) by (auto simp: lawful_def)
next
  case (2 q a rest p' qs)
  have "legal q" using assms(3) by (simp add: lawful_def 2(2))
  then show ?thesis
    using received_keeps [OF 2(2,3) assms(2)] assms(3) receive_reads [OF _ 2(3)] by (auto simp: lawful_def 2)
qed

lemma browsed_current:
  assumes "browsed act serves receive quiet c0 c" "current_view c0" "lawful c0"
  shows "current_view c \<and> lawful c"
  using assms
proof (induction rule: browsed.induct)
  case (by_user c c')
  from by_user.IH by_user.prems have "current_view c" "lawful c" by simp_all
  with user_keeps [OF by_user.hyps(2)] show ?case by simp
next
  case (by_network c c')
  from by_network.IH by_network.prems have "current_view c" "lawful c" by simp_all
  with network_keeps [OF by_network.hyps(2)] show ?case by simp
next
  case (by_itself c s')
  from by_itself.IH by_itself.prems have "current_view c" "lawful c" by simp_all
  then show ?case using quiet_keeps [OF by_itself.hyps(2)] by (simp add: current_view_def lawful_def)
qed simp

text \<open>A page that asked for the content when it was opened shows it whenever nothing is on the way.\<close>

lemma settles:
  assumes "browsed act serves receive quiet c0 c" "lawful c0" "\<exists>q \<in> set (asked c0). is_read q" "settled c"
  shows "display (shown c) = content (site c)"
  using browsed_current [OF assms(1) _ assms(2)] assms(3,4) by (auto simp: current_view_def settled_def)

text \<open>Without the user, the messages come to an end.\<close>

lemma network_works:
  assumes "network_step serves receive c c'" "lawful c"
  shows "work is_read c' < work is_read c \<and> lawful c'"
  using assms(1)
proof (elim network_stepE, goal_cases)
  case (1 q rest a s')
  then show ?thesis using assms(2) by (auto simp: work_def lawful_def)
next
  case (2 q a rest p' qs)
  have q: "legal q" using assms(2) by (simp add: lawful_def 2(2))
  have "qs = [] \<or> \<not> is_read q \<and> (\<exists>r. qs = [r] \<and> is_read r)"
    using receive_reads [OF q 2(3)] read_ends [OF _ 2(3)] by (cases qs) auto
  moreover have "lawful c'"
    using assms(2) receive_reads [OF q 2(3)] by (auto simp: lawful_def 2)
  ultimately show ?thesis by (auto simp: work_def 2)
qed

lemma network_run_bounded:
  assumes "network_run serves receive n c c'" "lawful c"
  shows "n + work is_read c' \<le> work is_read c \<and> lawful c'"
  using assms
proof (induction rule: network_run.induct)
  case (one_more n c c' c'')
  then show ?case using network_works [OF one_more(2)] by auto
qed simp

lemma browsed_lawful:
  assumes "browsed act serves receive quiet c0 c" "lawful c0"
  shows "lawful c"
  using assms
proof (induction rule: browsed.induct)
  case (by_user c c')
  from by_user.hyps(2) obtain ev p' qs where st: "c' = c\<lparr>shown := p', asked := asked c @ qs\<rparr>" "act ev (shown c) = (p', qs)"
    by (elim user_stepE)
  from by_user.IH by_user.prems have "lawful c" by simp
  then show ?case using act_legal [OF st(2)] by (auto simp: lawful_def st(1))
next
  case (by_network c c')
  from by_network.IH by_network.prems have "lawful c" by simp
  with network_works [OF by_network.hyps(2)] show ?case by simp
next
  case (by_itself c s')
  then have "lawful c" by simp
  then show ?case by (simp add: lawful_def)
qed

end

end
