(* ===== verification/Navigation.thy ===== *)
theory Navigation
  imports PageProtocol
begin

text \<open>
  An application of several pages, of which one is in front. To navigate mounts a fresh page; the
  pages that were left live on in the callbacks of the requests that they have sent, but the user
  does not see them any more. A request carries the number of the page that sent it. The locale
  \<open>navigated_views\<close> is the contract of the pages, and its lemmas say that the page in front shows
  what the server has, although earlier pages still may write.
\<close>

record 'p app =
  earlier :: "'p list"
  front :: 'p

datatype ('e, 'n) app_event = On_page 'e | Navigate 'n

definition app_act ::
  "('e \<Rightarrow> 'p \<Rightarrow> 'p \<times> 'q list) \<Rightarrow> ('n \<Rightarrow> 'p \<Rightarrow> bool) \<Rightarrow> ('n \<Rightarrow> 'p \<times> 'q list)
   \<Rightarrow> ('e, 'n) app_event \<Rightarrow> 'p app \<Rightarrow> 'p app \<times> (nat \<times> 'q) list" where
  "app_act act stays mount ev s =
     (case ev of
        On_page e \<Rightarrow> (let (p, qs) = act e (front s) in (s\<lparr>front := p\<rparr>, map (Pair (length (earlier s))) qs))
      | Navigate n \<Rightarrow>
          if stays n (front s) then (s, [])
          else (let (p, qs) = mount n
                in (\<lparr>earlier = earlier s @ [front s], front = p\<rparr>, map (Pair (Suc (length (earlier s)))) qs)))"

text \<open>An answer goes to the page that asked.\<close>

definition app_receive ::
  "('q \<Rightarrow> 'a \<Rightarrow> 'p \<Rightarrow> 'p \<times> 'q list) \<Rightarrow> nat \<times> 'q \<Rightarrow> 'a \<Rightarrow> 'p app \<Rightarrow> 'p app \<times> (nat \<times> 'q) list" where
  "app_receive receive r a s =
     (let (i, q) = r in
      if i < length (earlier s) then
        (let (p, qs) = receive q a (earlier s ! i) in (s\<lparr>earlier := (earlier s)[i := p]\<rparr>, map (Pair i) qs))
      else (let (p, qs) = receive q a (front s) in (s\<lparr>front := p\<rparr>, map (Pair i) qs)))"

definition app_serves :: "('q \<Rightarrow> 's \<Rightarrow> 'a \<Rightarrow> 's \<Rightarrow> bool) \<Rightarrow> nat \<times> 'q \<Rightarrow> 's \<Rightarrow> 'a \<Rightarrow> 's \<Rightarrow> bool" where
  "app_serves serves r s a s' \<longleftrightarrow> serves (snd r) s a s'"

locale navigated_views =
  fixes act :: "'e \<Rightarrow> 'p \<Rightarrow> 'p \<times> 'q list"
    and stays :: "'n \<Rightarrow> 'p \<Rightarrow> bool"
    and mount :: "'n \<Rightarrow> 'p \<times> 'q list"
    and serves :: "'q \<Rightarrow> 's \<Rightarrow> 'a \<Rightarrow> 's \<Rightarrow> bool"
    and receive :: "'q \<Rightarrow> 'a \<Rightarrow> 'p \<Rightarrow> 'p \<times> 'q list"
    and quiet :: "'s \<Rightarrow> 's \<Rightarrow> bool"
    and kind :: "'p \<Rightarrow> 'k"
    and content :: "'k \<Rightarrow> 's \<Rightarrow> 'v"
    and display :: "'p \<Rightarrow> 'v"
    and legal :: "'k \<Rightarrow> 'q \<Rightarrow> bool"
    and is_read :: "'q \<Rightarrow> bool"
    and writes :: "'q \<Rightarrow> bool"
    and renews :: "'q \<Rightarrow> 'a \<Rightarrow> bool"
  assumes act_keeps: "act e p = (p', qs) \<Longrightarrow> kind p' = kind p \<and> display p' = display p \<and> (\<forall>q \<in> set qs. legal (kind p) q)"
    and mount_reads: "mount n = (p, qs) \<Longrightarrow> (\<exists>q \<in> set qs. is_read q) \<and> (\<forall>q \<in> set qs. legal (kind p) q)"
    and harmless: "\<not> writes q \<Longrightarrow> serves q s a s' \<Longrightarrow> content k s' = content k s"
    and read_harmless: "is_read q \<Longrightarrow> \<not> writes q"
    and read_shows: "is_read q \<Longrightarrow> legal (kind p) q \<Longrightarrow> serves q s a s' \<Longrightarrow> display (fst (receive q a p)) = content (kind p) s"
    and other_shows: "legal (kind p) q \<Longrightarrow> \<not> is_read q \<Longrightarrow> display (fst (receive q a p)) = display p"
    and receive_cong: "kind p = kind r \<Longrightarrow> display p = display r \<Longrightarrow> display (fst (receive q a p)) = display (fst (receive q a r))"
    and write_renews: "legal k q \<Longrightarrow> writes q \<Longrightarrow> serves q s a s' \<Longrightarrow> content k s' = content k s \<or> renews q a"
    and renews_reads: "renews q a \<Longrightarrow> legal (kind p) q \<Longrightarrow> \<exists>r \<in> set (snd (receive q a p)). is_read r"
    and receive_keeps: "legal (kind p) q \<Longrightarrow> receive q a p = (p', qs) \<Longrightarrow>
      kind p' = kind p \<and> (\<forall>r \<in> set qs. legal (kind p) r \<and> \<not> writes r)"
    and quiet_keeps: "quiet s s' \<Longrightarrow> content k s' = content k s"
begin

text \<open>The answers on the way to the page in front, and what it will show when they are in.\<close>

definition to_front :: "nat \<Rightarrow> ((nat \<times> 'q) \<times> 'a) list \<Rightarrow> ('q \<times> 'a) list" where
  "to_front k xs = map (\<lambda>((i, q), a). (q, a)) (filter (\<lambda>((i, q), a). i = k) xs)"

fun after :: "('q \<times> 'a) list \<Rightarrow> 'p \<Rightarrow> 'v" where
  "after [] p = display p"
| "after ((q, a) # xs) p = after xs (fst (receive q a p))"

text \<open>Every write of an earlier page is followed by a read of the page in front.\<close>

fun ordered :: "nat \<Rightarrow> (nat \<times> 'q) list \<Rightarrow> bool" where
  "ordered k [] = True"
| "ordered k ((i, q) # rs) \<longleftrightarrow> (i \<noteq> k \<and> writes q \<longrightarrow> (\<exists>r. (k, r) \<in> set rs \<and> is_read r)) \<and> ordered k rs"

text \<open>The kinds of the pages, of which the last one is in front, and the requests that each may
  have sent.\<close>

definition kinds :: "'p app \<Rightarrow> 'k list" where
  "kinds s = map kind (earlier s) @ [kind (front s)]"

definition proper :: "'k list \<Rightarrow> nat \<times> 'q \<Rightarrow> bool" where
  "proper ks r \<longleftrightarrow> fst r < length ks \<and> legal (ks ! fst r) (snd r)"

definition in_order :: "('p app, nat \<times> 'q, 'a, 's) browsing \<Rightarrow> bool" where
  "in_order c \<longleftrightarrow> (\<forall>r \<in> set (asked c). proper (kinds (shown c)) r) \<and> (\<forall>(r, a) \<in> set (answers c). proper (kinds (shown c)) r)
     \<and> ordered (length (earlier (shown c))) (asked c)"

definition up_to_date :: "('p app, nat \<times> 'q, 'a, 's) browsing \<Rightarrow> bool" where
  "up_to_date c \<longleftrightarrow> (let k = length (earlier (shown c)); p = front (shown c) in
     (\<exists>q. (k, q) \<in> set (asked c) \<and> is_read q) \<or> (\<exists>q a. ((k, q), a) \<in> set (answers c) \<and> renews q a)
     \<or> after (to_front k (answers c)) p = content (kind p) (site c))"

lemma to_front_simps [simp]:
  "to_front k [] = []" "to_front k (((i, q), a) # xs) = (if i = k then (q, a) # to_front k xs else to_front k xs)"
  "to_front k (xs @ ys) = to_front k xs @ to_front k ys"
  by (simp_all add: to_front_def)

lemma ordered_harmless:
  "ordered k xs \<Longrightarrow> (\<forall>(i, q) \<in> set ys. i = k \<or> \<not> writes q) \<Longrightarrow> ordered k (xs @ ys)"
proof (induction xs)
  case Nil
  then show ?case by (induction ys) auto
next
  case (Cons x xs)
  then show ?case by (cases x) auto
qed

lemma ordered_fresh:
  assumes "\<exists>r. (k, r) \<in> set ys \<and> is_read r" "\<forall>(i, q) \<in> set ys. i = k"
  shows "ordered k (xs @ ys)"
proof (induction xs)
  case Nil
  have "ordered k zs" if "\<forall>(i, q) \<in> set zs. i = k" for zs using that by (induction zs) auto
  then show ?case using assms(2) by simp
next
  case (Cons x xs)
  then show ?case using assms(1) by (cases x) auto
qed

lemma receive_kind: "legal (kind p) q \<Longrightarrow> kind (fst (receive q a p)) = kind p"
  using receive_keeps [of p q a "fst (receive q a p)" "snd (receive q a p)"] by simp

lemma after_cong: "kind p = kind r \<Longrightarrow> display p = display r \<Longrightarrow> \<forall>(q, a) \<in> set xs. legal (kind p) q \<Longrightarrow> after xs p = after xs r"
proof (induction xs arbitrary: p r)
  case (Cons x xs)
  obtain q a where x: "x = (q, a)" by (cases x)
  have same: "kind (fst (receive q a p)) = kind p" "kind (fst (receive q a r)) = kind r"
    using receive_kind Cons.prems by (simp_all add: x)
  have "kind (fst (receive q a p)) = kind (fst (receive q a r))" using same Cons.prems(1) by simp
  moreover have "\<forall>(q', a') \<in> set xs. legal (kind (fst (receive q a p))) q'" using Cons.prems(3) same(1) by simp
  ultimately show ?case using Cons.IH [OF _ receive_cong [OF Cons.prems(1,2)]] by (simp add: x)
qed simp

lemma after_read:
  "\<forall>(q, a) \<in> set xs. legal (kind p) q \<Longrightarrow> is_read q \<Longrightarrow> legal (kind p) q \<Longrightarrow> serves q s a s' \<Longrightarrow> after (xs @ [(q, a)]) p = content (kind p) s"
proof (induction xs arbitrary: p)
  case Nil
  then show ?case using read_shows [of q p s a s'] by simp
next
  case (Cons x xs)
  then show ?case using receive_kind by (cases x) auto
qed

lemma after_other:
  "\<forall>(q, a) \<in> set xs. legal (kind p) q \<Longrightarrow> \<not> is_read q \<Longrightarrow> legal (kind p) q \<Longrightarrow> after (xs @ [(q, a)]) p = after xs p"
proof (induction xs arbitrary: p)
  case Nil
  then show ?case using other_shows [of p q a] by simp
next
  case (Cons x xs)
  then show ?case using receive_kind by (cases x) auto
qed

lemma to_front_legal:
  "\<forall>(r, a) \<in> set xs. proper (kinds s) r \<Longrightarrow> \<forall>(q, a) \<in> set (to_front (length (earlier s)) xs). legal (kind (front s)) q"
  by (auto simp: to_front_def proper_def kinds_def nth_append)

lemma proper_front: "proper (kinds s) (length (earlier s), q) \<longleftrightarrow> legal (kind (front s)) q"
  by (simp add: proper_def kinds_def nth_append)

lemma proper_more: "proper ks r \<Longrightarrow> proper (ks @ ls) r"
  by (auto simp: proper_def nth_append)

lemma on_page_keeps:
  assumes "act e (front s) = (p, qs)" "good_c = c\<lparr>shown := s\<lparr>front := p\<rparr>, asked := asked c @ map (Pair (length (earlier s))) qs\<rparr>"
    and "shown c = s" "in_order c" "up_to_date c"
  shows "in_order good_c \<and> up_to_date good_c"
proof -
  note e = act_keeps [OF assms(1)]
  have ks: "kinds (s\<lparr>front := p\<rparr>) = kinds s" using e by (simp add: kinds_def)
  have leg: "\<forall>(q, a) \<in> set (to_front (length (earlier s)) (answers c)). legal (kind p) q"
    using to_front_legal [of "answers c" s] assms(3,4) e by (simp add: in_order_def)
  have "in_order good_c"
    unfolding in_order_def
  proof (intro conjI)
    show "\<forall>r \<in> set (asked good_c). proper (kinds (shown good_c)) r"
      using assms(2-4) e ks proper_front [of s] by (auto simp: in_order_def)
    show "\<forall>(r, a) \<in> set (answers good_c). proper (kinds (shown good_c)) r"
      using assms(2-4) ks by (auto simp: in_order_def)
    show "ordered (length (earlier (shown good_c))) (asked good_c)"
      using assms(2-4) ordered_harmless [of "length (earlier s)" "asked c" "map (Pair (length (earlier s))) qs"]
      by (auto simp: in_order_def)
  qed
  moreover have "after (to_front (length (earlier s)) (answers c)) p = after (to_front (length (earlier s)) (answers c)) (front s)"
    by (rule after_cong) (use e leg in auto)
  then have "up_to_date good_c" using assms(2,3,5) e by (auto simp: up_to_date_def Let_def)
  ultimately show ?thesis by simp
qed

lemma navigate_keeps:
  assumes "mount n = (p, qs)" "in_order c"
    and "c' = c\<lparr>shown := \<lparr>earlier = earlier (shown c) @ [front (shown c)], front = p\<rparr>,
      asked := asked c @ map (Pair (Suc (length (earlier (shown c))))) qs\<rparr>"
  shows "in_order c' \<and> up_to_date c'"
proof -
  let ?k = "Suc (length (earlier (shown c)))"
  note m = mount_reads [OF assms(1)]
  have ks: "kinds (shown c') = kinds (shown c) @ [kind p]" by (simp add: assms(3) kinds_def)
  have "in_order c'"
    unfolding in_order_def
  proof (intro conjI)
    have "proper (kinds (shown c')) (?k, q)" if "q \<in> set qs" for q
      using that m proper_front [of "shown c'" q] by (simp add: assms(3))
    moreover have old: "proper (kinds (shown c')) r" if "proper (kinds (shown c)) r" for r
      unfolding ks by (rule proper_more [OF that])
    ultimately show "\<forall>r \<in> set (asked c'). proper (kinds (shown c')) r"
      using assms(2) by (auto simp: in_order_def assms(3))
    show "\<forall>(r, a) \<in> set (answers c'). proper (kinds (shown c')) r"
      using assms(2) proper_more by (auto simp: in_order_def ks) (auto simp: assms(3))
    have "ordered ?k (asked c @ map (Pair ?k) qs)" by (rule ordered_fresh) (use m in auto)
    then show "ordered (length (earlier (shown c'))) (asked c')" by (simp add: assms(3))
  qed
  moreover have "up_to_date c'" using m by (auto simp: up_to_date_def assms(3))
  ultimately show ?thesis by simp
qed

lemma app_user_keeps:
  assumes "user_step (app_act act stays mount) c c'" "in_order c" "up_to_date c"
  shows "in_order c' \<and> up_to_date c'"
  using assms(1)
proof (elim user_stepE, goal_cases)
  case (1 ev s' rs)
  show ?case
  proof (cases ev)
    case (On_page e)
    obtain p qs where p: "act e (front (shown c)) = (p, qs)" by (cases "act e (front (shown c))")
    show ?thesis
      by (rule on_page_keeps [OF p _ refl assms(2,3)]) (use 1 in \<open>simp add: On_page app_act_def p\<close>)
  next
    case (Navigate n)
    show ?thesis
    proof (cases "stays n (front (shown c))")
      case True
      then have "c' = c" using 1 by (cases c) (auto simp: Navigate app_act_def)
      then show ?thesis using assms(2,3) by simp
    next
      case False
      obtain p qs where p: "mount n = (p, qs)" by (cases "mount n")
      show ?thesis by (rule navigate_keeps [OF p assms(2)]) (use 1 False in \<open>simp add: Navigate app_act_def p\<close>)
    qed
  qed
qed

lemma app_served_keeps:
  assumes "asked c = (i, q) # rest" "serves q (site c) a s'" "in_order c" "up_to_date c"
    and "c' = c\<lparr>asked := rest, answers := answers c @ [((i, q), a)], site := s'\<rparr>"
  shows "in_order c' \<and> up_to_date c'"
proof
  let ?k = "length (earlier (shown c))" and ?p = "front (shown c)"
  show "in_order c'" using assms(3) by (auto simp: in_order_def assms(1,5))
  have old: "(\<exists>r. (?k, r) \<in> set ((i, q) # rest) \<and> is_read r) \<or> (\<exists>r b. ((?k, r), b) \<in> set (answers c) \<and> renews r b)
      \<or> after (to_front ?k (answers c)) ?p = content (kind ?p) (site c)"
    using assms(4) by (simp add: up_to_date_def assms(1) Let_def)
  have new: "up_to_date c' \<longleftrightarrow> (\<exists>r. (?k, r) \<in> set rest \<and> is_read r)
      \<or> (\<exists>r b. ((?k, r), b) \<in> set (answers c @ [((i, q), a)]) \<and> renews r b)
      \<or> after (to_front ?k (answers c @ [((i, q), a)])) ?p = content (kind ?p) s'"
    by (simp add: up_to_date_def assms(5) Let_def)
  have leg: "\<forall>(q, a) \<in> set (to_front ?k (answers c)). legal (kind ?p) q"
    by (rule to_front_legal) (use assms(3) in \<open>simp add: in_order_def\<close>)
  show "up_to_date c'"
  proof (cases "i = ?k")
    case True
    have q: "legal (kind ?p) q" using assms(3) True proper_front by (simp add: in_order_def assms(1))
    show ?thesis
    proof (cases "is_read q")
      case read: True
      have "after (to_front ?k (answers c) @ [(q, a)]) ?p = content (kind ?p) s'"
        using after_read [OF leg read q assms(2)] harmless [OF read_harmless [OF read] assms(2)] by simp
      then show ?thesis by (simp add: new True)
    next
      case other: False
      have "content (kind ?p) s' = content (kind ?p) (site c) \<or> renews q a"
        using write_renews [OF q _ assms(2)] harmless [OF _ assms(2)] by blast
      then show ?thesis using old after_other [OF leg other q] other by (auto simp: new True)
    qed
  next
    case False
    show ?thesis
    proof (cases "writes q")
      case True
      then show ?thesis using assms(3) False by (auto simp: new in_order_def assms(1))
    next
      case unwritten: False
      have "content (kind ?p) s' = content (kind ?p) (site c)" by (rule harmless [OF unwritten assms(2)])
      then show ?thesis using old False by (auto simp: new)
    qed
  qed
qed

lemma app_received_keeps:
  assumes "answers c = ((i, q), a) # rest" "app_receive receive (i, q) a (shown c) = (s', rs)" "in_order c" "up_to_date c"
    and "c' = c\<lparr>shown := s', asked := asked c @ rs, answers := rest\<rparr>"
  shows "in_order c' \<and> up_to_date c'"
proof -
  let ?s = "shown c" and ?k = "length (earlier (shown c))" and ?p = "front (shown c)"
  have head: "i < Suc ?k" "legal (kinds ?s ! i) q" using assms(3) by (simp_all add: in_order_def assms(1) proper_def kinds_def)
  have in_order: "in_order c'" if "kinds s' = kinds ?s" "length (earlier s') = ?k" "\<forall>r \<in> set rs. proper (kinds ?s) r \<and> \<not> writes (snd r)"
  proof -
    have "ordered ?k (asked c @ rs)"
      by (rule ordered_harmless) (use assms(3) that in \<open>auto simp: in_order_def\<close>)
    then show ?thesis using assms(3) that by (auto simp: in_order_def assms(1,5))
  qed
  have old: "(\<exists>r. (?k, r) \<in> set (asked c) \<and> is_read r) \<or> (\<exists>r b. ((?k, r), b) \<in> set (((i, q), a) # rest) \<and> renews r b)
      \<or> after (to_front ?k (((i, q), a) # rest)) ?p = content (kind ?p) (site c)"
    using assms(4) by (simp add: up_to_date_def assms(1) Let_def)
  show ?thesis
  proof (cases "i < ?k")
    case True
    obtain p qs where p: "receive q a (earlier ?s ! i) = (p, qs)" by (cases "receive q a (earlier ?s ! i)")
    have s': "s' = ?s\<lparr>earlier := (earlier ?s)[i := p]\<rparr>" "rs = map (Pair i) qs"
      using assms(2) True by (simp_all add: app_receive_def p)
    have q: "legal (kind (earlier ?s ! i)) q" using head True by (simp add: kinds_def nth_append)
    note keeps = receive_keeps [OF q p]
    have "(map kind (earlier ?s))[i := kind p] = map kind (earlier ?s)"
      using keeps True by (simp add: list_eq_iff_nth_eq nth_list_update)
    then have "kinds s' = kinds ?s" by (simp add: kinds_def s' map_update)
    moreover have "\<forall>r \<in> set rs. proper (kinds ?s) r \<and> \<not> writes (snd r)"
      using keeps True by (auto simp: s' proper_def kinds_def nth_append)
    moreover have "up_to_date c'" using old True by (auto simp: up_to_date_def assms(5) s' Let_def)
    ultimately show ?thesis using in_order s' by simp
  next
    case False
    then have i: "i = ?k" using head by simp
    obtain p qs where p: "receive q a ?p = (p, qs)" by (cases "receive q a ?p")
    have s': "s' = ?s\<lparr>front := p\<rparr>" "rs = map (Pair ?k) qs"
      using assms(2) by (simp_all add: app_receive_def p i)
    have q: "legal (kind ?p) q" using head i by (simp add: kinds_def nth_append)
    note keeps = receive_keeps [OF q p]
    have "kinds s' = kinds ?s" using keeps by (simp add: kinds_def s')
    moreover have "\<forall>r \<in> set rs. proper (kinds ?s) r \<and> \<not> writes (snd r)"
      using keeps by (auto simp: s' proper_def kinds_def nth_append)
    moreover have "up_to_date c'"
    proof (cases "renews q a")
      case True
      then show ?thesis using renews_reads [OF True q] p by (auto simp: up_to_date_def assms(5) s' Let_def)
    next
      case False
      then show ?thesis using old p keeps i by (auto simp: up_to_date_def assms(5) s' Let_def)
    qed
    ultimately show ?thesis using in_order s' by simp
  qed
qed

lemma browsed_up_to_date:
  assumes "browsed (app_act act stays mount) (app_serves serves) (app_receive receive) quiet c0 c"
    and "in_order c0" "up_to_date c0"
  shows "in_order c \<and> up_to_date c"
  using assms
proof (induction rule: browsed.induct)
  case (by_user c c')
  from by_user.IH by_user.prems have "in_order c" "up_to_date c" by simp_all
  with app_user_keeps [OF by_user.hyps(2)] show ?case by simp
next
  case (by_network c c')
  from by_network.IH by_network.prems have c: "in_order c" "up_to_date c" by simp_all
  from by_network.hyps(2) show ?case
  proof (elim network_stepE, goal_cases)
    case (1 r rest a s')
    obtain i q where r: "r = (i, q)" by (cases r)
    show ?case by (rule app_served_keeps [of c i q rest a s', OF _ _ c]) (use 1 in \<open>simp_all add: r app_serves_def\<close>)
  next
    case (2 r a rest s' rs)
    obtain i q where r: "r = (i, q)" by (cases r)
    show ?case by (rule app_received_keeps [of c i q a rest s' rs, OF _ _ c]) (use 2 in \<open>simp_all add: r\<close>)
  qed
next
  case (by_itself c s')
  from by_itself.IH by_itself.prems have "in_order c" "up_to_date c" by simp_all
  then show ?case using quiet_keeps [OF by_itself.hyps(2)] by (simp add: in_order_def up_to_date_def Let_def)
qed simp

text \<open>When nothing is on the way, the page in front shows what the server has.\<close>

lemma app_settles:
  assumes "browsed (app_act act stays mount) (app_serves serves) (app_receive receive) quiet
      \<lparr>shown = \<lparr>earlier = [], front = p\<rparr>, asked = map (Pair 0) qs, answers = [], site = s\<rparr> c"
    and "mount n = (p, qs)" "settled c"
  shows "display (front (shown c)) = content (kind (front (shown c))) (site c)"
proof -
  let ?c0 = "\<lparr>shown = \<lparr>earlier = [], front = p\<rparr>, asked = map (Pair 0) qs, answers = [], site = s\<rparr>
    :: ('p app, nat \<times> 'q, 'a, 's) browsing"
  note m = mount_reads [OF assms(2)]
  have "ordered 0 (map (Pair 0) qs)" using ordered_harmless [of 0 "[]" "map (Pair 0) qs"] by auto
  then have "in_order ?c0" using m by (auto simp: in_order_def proper_def kinds_def)
  moreover have "up_to_date ?c0" using m by (auto simp: up_to_date_def)
  ultimately have "up_to_date c" using browsed_up_to_date [OF assms(1)] by blast
  then show ?thesis using assms(3) by (auto simp: up_to_date_def settled_def Let_def)
qed

end

end
