(* ===== verification/WebUI.thy ===== *)
theory WebUI
  imports JsValue
begin

text \<open>
  The web interface that the HTTP server hands out: the application code of the bundle
  \<open>static/static/js/main.399ebeea.js\<close>. The bundle is one minified line, in which React, antd
  and axios surround the pages of the application; modelled are the pages, the dialogs and
  the dynamic list of input fields that one dialog builds on. A dialog is a record of its
  hooks, an event handler takes the dialog to its next state and a list of effects, and the
  two callbacks of a request are one function of its reply. A callback that throws changes
  nothing from there on, so it ends in the effect \<open>Thrown\<close>.
\<close>

text \<open>A reply carries the data of the response; a request can also fail.\<close>

datatype reply = Reply js | Failed

text \<open>The text of a message: a key of the translations, a value of the reply, a text that is fixed
  in the program (as UTF-16 code units), two texts joined, or the error object of a request.\<close>

datatype ui_text =
    Translated string
  | Raw js
  | Fixed "nat list"
  | Joined ui_text ui_text
  | Reason

text \<open>What a handler does besides changing its hooks: requests, messages, calls of the
  functions that the parent page passed down, and the exception of a callback.\<close>

datatype ui_effect =
    Get string
  | Post string "(string \<times> js) list"
  | SuccessMessage ui_text
  | ErrorMessage ui_text
  | RefreshProxies
  | RefreshAcl
  | CloseDialog
  | ShowAddHost string
  | ConsoleLog
  | Thrown

text \<open>\<open>200 === n.code\<close>.\<close>

definition code_ok :: "js \<Rightarrow> bool" where
  "code_ok n \<longleftrightarrow> field n ''code'' = Some (Number 200)"

text \<open>The two members every reply is asked for; \<open>null\<close> instead of an object throws.\<close>

definition with_data :: "js \<Rightarrow> 's \<Rightarrow> ('s \<times> ui_effect list) \<Rightarrow> 's \<times> ui_effect list" where
  "with_data n s r = (if field n ''code'' = None then (s, [Thrown]) else r)"

definition msg_of :: "js \<Rightarrow> js" where
  "msg_of n = (case field n ''msg'' of None \<Rightarrow> Undefined | Some m \<Rightarrow> m)"

subsection \<open>The front page\<close>

text \<open>A node of the tree of proxies; \<open>node_icon\<close> is absent on the proxies themselves.\<close>

datatype tree_node = TreeNode (node_title: js) (node_key: string) (isLeaf: bool) (node_pattern: string)
  (node_host: js) (node_icon: "bool option") (node_children: "tree_node list")

text \<open>The inner loop of \<open>wrapProxyInfo\<close> over \<open>e[n]\<close>, from index \<open>i\<close>; a missing host
  (\<open>undefined\<close> or \<open>null\<close>) throws. \<open>fuel\<close> counts the remaining elements.\<close>

fun host_nodes :: "nat \<Rightarrow> string \<Rightarrow> js \<Rightarrow> nat \<Rightarrow> tree_node list option" where
  "host_nodes 0 n v i = Some []"
| "host_nodes (Suc fuel) n v i =
     (case field (js_nth v i) ''host'' of
        None \<Rightarrow> None
      | Some host \<Rightarrow>
          let alive = (case field (js_nth v i) ''alive'' of None \<Rightarrow> Undefined | Some a \<Rightarrow> a);
              node = TreeNode host (n @ ''/'' @ js_text host) True n host (Some (truthy alive)) []
          in (case host_nodes fuel n v (Suc i) of None \<Rightarrow> None | Some rest \<Rightarrow> Some (node # rest)))"

text \<open>The number of iterations of \<open>for (o = 0; o < e[n].length; o++)\<close>; a value without a
  property \<open>length\<close> gives none. A member \<open>length\<close> of an object that is a text or a list would be
  converted to a number; the server sends none.\<close>

fun iterations :: "js \<Rightarrow> nat" where
  "iterations (Number k) = nat k"
| "iterations (Boolean b) = (if b then 1 else 0)"
| "iterations _ = 0"

fun proxy_nodes :: "(string \<times> js) list \<Rightarrow> tree_node list option" where
  "proxy_nodes [] = Some []"
| "proxy_nodes ((n, v) # rest) =
     (case field v ''length'' of
        None \<Rightarrow> None
      | Some len \<Rightarrow>
         (case host_nodes (iterations len) n v 0 of
            None \<Rightarrow> None
          | Some children \<Rightarrow>
             (case proxy_nodes rest of
                None \<Rightarrow> None
              | Some nodes \<Rightarrow> Some (TreeNode (String n) n False n (String []) None children # nodes))))"

text \<open>\<open>for (var n in e)\<close>: the entries of an object in the order of the reply, the indices of
  an array or a string, and nothing for all other values.\<close>

fun entries :: "js \<Rightarrow> (string \<times> js) list" where
  "entries (Object kvs) = kvs"
| "entries (Array vs) = map (\<lambda>i. (Itoa i, vs ! i)) [0..<length vs]"
| "entries (String s) = map (\<lambda>i. (Itoa i, String [s ! i])) [0..<length s]"
| "entries _ = []"

definition wrapProxyInfo :: "js \<Rightarrow> tree_node list option" where
  "wrapProxyInfo e = proxy_nodes (entries e)"

record index_page =
  loading :: bool
  page_info :: js
  tree_data :: "tree_node list option"

definition Index_init :: index_page where
  "Index_init = \<lparr>loading = True, page_info = Object [(''name'', String []), (''proxyPort'', String []),
     (''raftAddress'', String []), (''isLeader'', Boolean False)], tree_data = None\<rparr>"

definition Index_mount :: "ui_effect list" where
  "Index_mount = [Get ''/info'', Get ''/proxy'']"

text \<open>The callback of \<open>/info\<close>, which reads \<open>data.data.info\<close>.\<close>

definition Index_info :: "reply \<Rightarrow> index_page \<Rightarrow> index_page \<times> ui_effect list" where
  "Index_info r s =
     (case r of
        Failed \<Rightarrow> (s, [ConsoleLog])
      | Reply n \<Rightarrow>
         (case Option.bind (field n ''data'') (\<lambda>d. field d ''info'') of
            None \<Rightarrow> (s, [Thrown])
          | Some info \<Rightarrow> (s\<lparr>page_info := info, loading := False\<rparr>, [])))"

text \<open>The callback of \<open>/proxy\<close>, which reads \<open>data.data.data\<close>.\<close>

definition getProxyInfo :: "reply \<Rightarrow> index_page \<Rightarrow> index_page \<times> ui_effect list" where
  "getProxyInfo r s =
     (case r of
        Failed \<Rightarrow> (s, [ConsoleLog])
      | Reply n \<Rightarrow>
         (case Option.bind (field n ''data'') (\<lambda>d. field d ''data'') of
            None \<Rightarrow> (s, [Thrown])
          | Some e \<Rightarrow>
             (case wrapProxyInfo e of
                None \<Rightarrow> (s, [Thrown])
              | Some t \<Rightarrow> (s\<lparr>tree_data := Some t\<rparr>, []))))"

subsection \<open>The list of input fields\<close>

text \<open>\<open>Form.List\<close> keeps a key per field; \<open>texts\<close> is what the input with a key shows. The
  inputs are not controlled by the form, so a text stays with its key.\<close>

record form_list =
  field_keys :: "nat list"
  next_id :: nat
  texts :: "nat \<Rightarrow> string"

definition Form_empty :: form_list where
  "Form_empty = \<lparr>field_keys = [], next_id = 0, texts = (\<lambda>_. [])\<rparr>"

definition Form_add :: "form_list \<Rightarrow> form_list" where
  "Form_add f = f\<lparr>field_keys := field_keys f @ [next_id f], next_id := next_id f + 1\<rparr>"

text \<open>\<open>filter\<close> keeps the keys whose index is not the one removed.\<close>

definition without :: "nat \<Rightarrow> 'a list \<Rightarrow> 'a list" where
  "without t xs = map (\<lambda>i. xs ! i) (filter (\<lambda>i. i \<noteq> t) [0..<length xs])"

definition Form_remove :: "nat \<Rightarrow> form_list \<Rightarrow> form_list" where
  "Form_remove t f = f\<lparr>field_keys := without t (field_keys f)\<rparr>"

definition Form_type :: "nat \<Rightarrow> string \<Rightarrow> form_list \<Rightarrow> form_list" where
  "Form_type t v f = f\<lparr>texts := (texts f)(field_keys f ! t := v)\<rparr>"

subsection \<open>Adding a proxy\<close>

record add_proxy_modal =
  ap_visible :: bool
  ap_confirmLoading :: bool
  ap_pattern :: string
  proxy_pass :: "js list"
  balance_mode :: string
  ap_form :: form_list

definition AddProxyModal_init :: add_proxy_modal where
  "AddProxyModal_init = \<lparr>ap_visible = False, ap_confirmLoading = False, ap_pattern = [], proxy_pass = [],
     balance_mode = ''round-robin'', ap_form = Form_empty\<rparr>"

definition AddProxyModal_showModal :: "add_proxy_modal \<Rightarrow> add_proxy_modal" where
  "AddProxyModal_showModal s = s\<lparr>ap_visible := True\<rparr>"

definition AddProxyModal_onCancel :: "add_proxy_modal \<Rightarrow> add_proxy_modal" where
  "AddProxyModal_onCancel s = s\<lparr>ap_visible := False\<rparr>"

definition AddProxyModal_typePattern :: "string \<Rightarrow> add_proxy_modal \<Rightarrow> add_proxy_modal" where
  "AddProxyModal_typePattern v s = s\<lparr>ap_pattern := v\<rparr>"

definition AddProxyModal_select :: "string \<Rightarrow> add_proxy_modal \<Rightarrow> add_proxy_modal" where
  "AddProxyModal_select v s = s\<lparr>balance_mode := v\<rparr>"

text \<open>\<open>n[t] = v\<close> extends an array that is too short, \<open>splice(t, 1)\<close> removes at most one
  element.\<close>

definition js_update :: "js list \<Rightarrow> nat \<Rightarrow> js \<Rightarrow> js list" where
  "js_update xs t v =
     (if t < length xs then xs[t := v] else xs @ replicate (t - length xs) Undefined @ [v])"

definition splice1 :: "nat \<Rightarrow> 'a list \<Rightarrow> 'a list" where
  "splice1 t xs = take t xs @ drop (Suc t) xs"

text \<open>The input with index \<open>t\<close>, its delete button and the add button.\<close>

definition AddProxyModal_type :: "nat \<Rightarrow> string \<Rightarrow> add_proxy_modal \<Rightarrow> add_proxy_modal" where
  "AddProxyModal_type t v s =
     s\<lparr>ap_form := Form_type t v (ap_form s), proxy_pass := js_update (proxy_pass s) t (String v)\<rparr>"

definition AddProxyModal_delete :: "nat \<Rightarrow> add_proxy_modal \<Rightarrow> add_proxy_modal" where
  "AddProxyModal_delete t s =
     s\<lparr>ap_form := Form_remove t (ap_form s), proxy_pass := splice1 t (proxy_pass s)\<rparr>"

definition AddProxyModal_add :: "add_proxy_modal \<Rightarrow> add_proxy_modal" where
  "AddProxyModal_add s =
     s\<lparr>ap_form := Form_add (ap_form s), proxy_pass := proxy_pass s @ [String []]\<rparr>"

definition AddProxyModal_onOk :: "add_proxy_modal \<Rightarrow> add_proxy_modal \<times> ui_effect list" where
  "AddProxyModal_onOk s =
     (s\<lparr>ap_confirmLoading := True\<rparr>,
      [Post ''/addProxy'' [(''pattern'', String (ap_pattern s)), (''proxyPass'', Array (proxy_pass s)),
         (''balanceMode'', String (balance_mode s))]])"

definition AddProxyModal_reply :: "reply \<Rightarrow> add_proxy_modal \<Rightarrow> add_proxy_modal \<times> ui_effect list" where
  "AddProxyModal_reply r s =
     (case r of
        Failed \<Rightarrow> (s\<lparr>ap_visible := False, ap_confirmLoading := False\<rparr>, [ConsoleLog])
      | Reply n \<Rightarrow>
          with_data n s
            (s\<lparr>ap_visible := False, ap_confirmLoading := False\<rparr>,
             if code_ok n then [SuccessMessage (Translated ''index.modal.success''), RefreshProxies]
             else [ErrorMessage (Raw (msg_of n))]))"

subsection \<open>Adding a host\<close>

record add_host_modal =
  ah_visible :: bool
  ah_confirmLoading :: bool
  ah_pattern :: string
  ah_host :: js

definition AddHostModal_init :: add_host_modal where
  "AddHostModal_init = \<lparr>ah_visible = False, ah_confirmLoading = False, ah_pattern = [], ah_host = Array []\<rparr>"

datatype add_host_event =
    AH_showModal string
  | AH_type string
  | AH_onOk
  | AH_onCancel
  | AH_reply reply

fun AddHostModal_step :: "add_host_event \<Rightarrow> add_host_modal \<Rightarrow> add_host_modal \<times> ui_effect list" where
  "AddHostModal_step (AH_showModal p) s = (s\<lparr>ah_visible := True, ah_pattern := p\<rparr>, [])"
| "AddHostModal_step (AH_type v) s = (s\<lparr>ah_host := String v\<rparr>, [])"
| "AddHostModal_step AH_onOk s =
     (s\<lparr>ah_confirmLoading := True\<rparr>,
      [Post ''/addHost'' [(''pattern'', String (ah_pattern s)), (''host'', ah_host s)]])"
| "AddHostModal_step AH_onCancel s = (s\<lparr>ah_visible := False\<rparr>, [])"
| "AddHostModal_step (AH_reply Failed) s = (s\<lparr>ah_visible := False\<rparr>, [ConsoleLog])"
| "AddHostModal_step (AH_reply (Reply n)) s =
     with_data n s
       (s\<lparr>ah_visible := False\<rparr>,
        [if code_ok n then SuccessMessage (Translated ''index.modal.success'') else ErrorMessage (Raw (msg_of n)),
         CloseDialog, RefreshProxies])"

subsection \<open>The menu of a node\<close>

record bubble_dialog =
  bd_visible :: bool
  bd_isLeaf :: bool
  bd_pattern :: string
  bd_host :: js
  bd_left :: int
  bd_top :: int

definition BubbleDialog_init :: bubble_dialog where
  "BubbleDialog_init = \<lparr>bd_visible = False, bd_isLeaf = False, bd_pattern = [], bd_host = String [],
     bd_left = 0, bd_top = 0\<rparr>"

definition BubbleDialog_showModal ::
  "int \<Rightarrow> int \<Rightarrow> bool \<Rightarrow> string \<Rightarrow> js \<Rightarrow> bubble_dialog \<Rightarrow> bubble_dialog" where
  "BubbleDialog_showModal x y leaf pat host s =
     s\<lparr>bd_visible := True, bd_isLeaf := leaf, bd_pattern := pat, bd_host := host, bd_left := x, bd_top := y\<rparr>"

text \<open>The entries of the menu; \<open>menu_shown\<close> says which are not hidden.\<close>

datatype menu_entry = DeleteProxy | AddHost | ChangeBalance | DeleteHost | CloseMenu

definition menu_shown :: "bubble_dialog \<Rightarrow> menu_entry \<Rightarrow> bool" where
  "menu_shown s e \<longleftrightarrow> bd_visible s
     \<and> (case e of DeleteHost \<Rightarrow> bd_isLeaf s | CloseMenu \<Rightarrow> True | _ \<Rightarrow> \<not> bd_isLeaf s)"

fun menu_click :: "menu_entry \<Rightarrow> bubble_dialog \<Rightarrow> bubble_dialog \<times> ui_effect list" where
  "menu_click DeleteProxy s = (s, [Post ''/removeProxy'' [(''pattern'', String (bd_pattern s))]])"
| "menu_click AddHost s = (s, [ShowAddHost (bd_pattern s)])"
| "menu_click ChangeBalance s = (s, [])"
| "menu_click DeleteHost s =
     (s, [Post ''/removeHost'' [(''pattern'', String (bd_pattern s)), (''host'', bd_host s)]])"
| "menu_click CloseMenu s = (s\<lparr>bd_visible := False\<rparr>, [])"

text \<open>Both deletions have the same callbacks.\<close>

definition menu_reply :: "reply \<Rightarrow> bubble_dialog \<Rightarrow> bubble_dialog \<times> ui_effect list" where
  "menu_reply r s =
     (case r of
        Failed \<Rightarrow> (s\<lparr>bd_visible := False\<rparr>, [ConsoleLog])
      | Reply n \<Rightarrow>
          with_data n s
            (s\<lparr>bd_visible := False\<rparr>,
             if code_ok n then [SuccessMessage (Translated ''other.success''), RefreshProxies]
             else [ErrorMessage (Raw (msg_of n))]))"

subsection \<open>The page of the cluster\<close>

record peer =
  serverId :: string
  serverAddress :: string
  peer_isLeader :: bool

text \<open>What is drawn on the canvas: a peer at a point, and a dashed line from the centre to a
  peer. Shifts to the right divide.\<close>

datatype drawing = Peer_at nat nat peer | Line_to "nat \<times> nat" "nat \<times> nat"

text \<open>The loop over the peers; \<open>c\<close> is the number of the next follower.\<close>

fun draw_loop :: "nat \<Rightarrow> nat \<Rightarrow> peer list \<Rightarrow> nat \<Rightarrow> drawing list" where
  "draw_loop w h [] c = []"
| "draw_loop w h (p # ps) c =
     (if peer_isLeader p then Peer_at (w div 2) (h div 2) p # draw_loop w h ps c
      else (if c \<le> 4 then [Peer_at (c * (w div 4)) (h div 8) p,
                             Line_to (w div 2, h div 2) (c * (w div 4), h div 8)] else [])
           @ draw_loop w h ps (c + 1))"

definition drawPeers :: "nat \<Rightarrow> nat \<Rightarrow> peer list \<Rightarrow> drawing list" where
  "drawPeers w h ps =
     (if length ps = 1 then [Peer_at (w div 2) (h div 2) (ps ! 0)]
      else if length ps \<le> 9 then draw_loop w h ps 1
      else [])"

subsection \<open>The page of the limits\<close>

text \<open>A panel per proxy, with an item per method.\<close>

record collapse_panel =
  panel_header :: js
  panel_methods :: "js list"

definition panel_of :: "js \<Rightarrow> collapse_panel option" where
  "panel_of v =
     (case field v ''prefix'' of
        None \<Rightarrow> None
      | Some pre \<Rightarrow>
         (let paths = (case field v ''methodsPath'' of None \<Rightarrow> Undefined | Some m \<Rightarrow> m) in
          case field paths ''length'' of
            None \<Rightarrow> None
          | Some len \<Rightarrow> Some \<lparr>panel_header = pre, panel_methods = map (js_nth paths) [0..<iterations len]\<rparr>))"

fun panels :: "js list \<Rightarrow> collapse_panel list option" where
  "panels [] = Some []"
| "panels (v # vs) =
     (case panel_of v of
        None \<Rightarrow> None
      | Some p \<Rightarrow> (case panels vs of None \<Rightarrow> None | Some ps \<Rightarrow> Some (p # ps)))"

text \<open>The callback of \<open>/methods\<close>; the reply is the list itself.\<close>

definition createCollapseElement :: "js \<Rightarrow> collapse_panel list option" where
  "createCollapseElement n =
     (case field n ''length'' of
        None \<Rightarrow> None
      | Some len \<Rightarrow> panels (map (js_nth n) [0..<iterations len]))"

text \<open>\<open>parseInt\<close> on a text: white space, a sign, and the digits from there on; \<open>0x\<close> starts
  a hexadecimal number. Without a digit it is \<open>NaN\<close>. A double holds every integer up to
  \<open>2 ^ 53\<close>; larger ones would be rounded.\<close>

definition is_js_space :: "char \<Rightarrow> bool" where
  "is_js_space c \<longleftrightarrow> of_char c \<in> {9, 10, 11, 12, 13, 32, 160 :: nat}"

definition js_digit :: "nat \<Rightarrow> char \<Rightarrow> nat option" where
  "js_digit radix c =
     (let n = of_char c :: nat;
          d = (if 48 \<le> n \<and> n \<le> 57 then n - 48
               else if 97 \<le> n \<and> n \<le> 122 then n - 87
               else if 65 \<le> n \<and> n \<le> 90 then n - 55 else 36)
      in if d < radix then Some d else None)"

fun leading_digits :: "nat \<Rightarrow> string \<Rightarrow> nat list" where
  "leading_digits radix [] = []"
| "leading_digits radix (c # cs) =
     (case js_digit radix c of None \<Rightarrow> [] | Some d \<Rightarrow> d # leading_digits radix cs)"

definition parse_digits :: "nat \<Rightarrow> string \<Rightarrow> nat option" where
  "parse_digits radix s =
     (let ds = leading_digits radix s
      in if ds = [] then None else Some (foldl (\<lambda>n d. radix * n + d) 0 ds))"

definition parseInt_text :: "string \<Rightarrow> js" where
  "parseInt_text s =
     (let s1 = dropWhile is_js_space s;
          neg = (take 1 s1 = ''-'');
          s2 = (if take 1 s1 = ''-'' \<or> take 1 s1 = ''+'' then drop 1 s1 else s1);
          n = (if take 2 s2 = ''0x'' \<or> take 2 s2 = ''0X'' then parse_digits 16 (drop 2 s2)
               else parse_digits 10 s2)
      in (case n of None \<Rightarrow> NotANumber | Some k \<Rightarrow> Number (if neg then - int k else int k)))"

definition parseInt :: "js \<Rightarrow> js" where
  "parseInt v = parseInt_text (js_text v)"

record set_rate_modal =
  sr_prefix :: js
  sr_path :: js
  sr_type :: js
  sr_visible :: bool
  sr_confirmLoading :: bool
  sr_volumn :: js
  sr_speed :: js
  sr_timeout :: js

definition SetRateModal_init :: set_rate_modal where
  "SetRateModal_init = \<lparr>sr_prefix = String [], sr_path = String [], sr_type = String [], sr_visible = False,
     sr_confirmLoading = False, sr_volumn = String [], sr_speed = String [], sr_timeout = String []\<rparr>"

text \<open>Opening the dialog asks for the limits of the method.\<close>

definition SetRateModal_showModal :: "js \<Rightarrow> js \<Rightarrow> set_rate_modal \<Rightarrow> set_rate_modal \<times> ui_effect list" where
  "SetRateModal_showModal e t s =
     (s\<lparr>sr_visible := True, sr_prefix := e, sr_path := t\<rparr>, [Post ''/methodInfo'' [(''pattern'', e), (''method'', t)]])"

definition get_or_undefined :: "js \<Rightarrow> string \<Rightarrow> js" where
  "get_or_undefined v k = (case field v k of None \<Rightarrow> Undefined | Some x \<Rightarrow> x)"

text \<open>A speed of at most zero is shown as zero: \<open>t.speed <= 0\<close>, where \<open>null\<close> and \<open>false\<close> count as
  zero. Texts and lists, which the server never sends as a speed, are not converted here.\<close>

fun js_not_positive :: "js \<Rightarrow> bool" where
  "js_not_positive Null = True"
| "js_not_positive (Boolean b) = (\<not> b)"
| "js_not_positive (Number k) = (k \<le> 0)"
| "js_not_positive _ = False"

definition getMethodInfo_reply :: "reply \<Rightarrow> set_rate_modal \<Rightarrow> set_rate_modal \<times> ui_effect list" where
  "getMethodInfo_reply r s =
     (case r of
        Failed \<Rightarrow> (s, [ConsoleLog])
      | Reply n \<Rightarrow>
         (case Option.bind (field n ''data'') (\<lambda>d. field d ''method'') of
            None \<Rightarrow> (s, [Thrown])
          | Some m \<Rightarrow>
             (case field m ''speed'' of
                None \<Rightarrow> (s, [Thrown])
              | Some speed \<Rightarrow>
                  (s\<lparr>sr_type := get_or_undefined m ''type'',
                     sr_speed := (if js_not_positive speed then Number 0 else speed),
                     sr_volumn := get_or_undefined m ''volumn'',
                     sr_timeout := get_or_undefined m ''timeout''\<rparr>, []))))"

definition SetRateModal_select :: "string \<Rightarrow> set_rate_modal \<Rightarrow> set_rate_modal" where
  "SetRateModal_select v s = s\<lparr>sr_type := String v\<rparr>"

definition SetRateModal_typeVolumn :: "string \<Rightarrow> set_rate_modal \<Rightarrow> set_rate_modal" where
  "SetRateModal_typeVolumn v s = s\<lparr>sr_volumn := String v\<rparr>"

definition SetRateModal_typeSpeed :: "string \<Rightarrow> set_rate_modal \<Rightarrow> set_rate_modal" where
  "SetRateModal_typeSpeed v s = s\<lparr>sr_speed := String v\<rparr>"

definition SetRateModal_typeTimeout :: "string \<Rightarrow> set_rate_modal \<Rightarrow> set_rate_modal" where
  "SetRateModal_typeTimeout v s = s\<lparr>sr_timeout := String v\<rparr>"

definition SetRateModal_onCancel :: "set_rate_modal \<Rightarrow> set_rate_modal" where
  "SetRateModal_onCancel s = s\<lparr>sr_visible := False\<rparr>"

definition SetRateModal_onOk :: "set_rate_modal \<Rightarrow> set_rate_modal \<times> ui_effect list" where
  "SetRateModal_onOk s =
     (s\<lparr>sr_confirmLoading := True\<rparr>,
      [Post ''/limiter'' [(''prefix'', sr_prefix s), (''pathName'', sr_path s), (''limiterType'', sr_type s),
         (''volumn'', parseInt (sr_volumn s)), (''speed'', parseInt (sr_speed s)),
         (''duration'', parseInt (sr_timeout s))]])"

text \<open>The dialog is only closed, and its button released, when a reply arrives.\<close>

definition setRate_reply :: "reply \<Rightarrow> set_rate_modal \<Rightarrow> set_rate_modal \<times> ui_effect list" where
  "setRate_reply r s =
     (case r of
        Failed \<Rightarrow> (s, [ConsoleLog])
      | Reply n \<Rightarrow>
          with_data n s
            (s\<lparr>sr_visible := False, sr_confirmLoading := False\<rparr>,
             [if code_ok n then SuccessMessage (Fixed [0x4fee, 0x6539, 0x6210, 0x529f])
              else ErrorMessage (Joined (Fixed [0x4fee, 0x6539, 0x5931, 0x8d25]) (Raw (msg_of n)))]))"

text \<open>The types that the dialog offers.\<close>

definition offered_types :: "string list" where
  "offered_types = [''qps'', ''concurrent'']"

subsection \<open>The page of the black list\<close>

record acl_insert_modal =
  in_visible :: bool
  in_confirmLoading :: bool
  in_kind :: int
  in_ipAddress :: string
  in_mask :: string

definition AccessControlInsertModal_init :: acl_insert_modal where
  "AccessControlInsertModal_init = \<lparr>in_visible = False, in_confirmLoading = False, in_kind = 1,
     in_ipAddress = [], in_mask = []\<rparr>"

definition AccessControlInsertModal_onOk :: "acl_insert_modal \<Rightarrow> acl_insert_modal \<times> ui_effect list" where
  "AccessControlInsertModal_onOk s =
     (s\<lparr>in_confirmLoading := True\<rparr>,
      [Post ''/acl'' [(''pattern'', Number 1),
         (''ipAddress'', String (if in_kind s = 1 then in_ipAddress s @ ''/32''
                                 else in_ipAddress s @ ''/'' @ in_mask s))]])"

definition AccessControlInsertModal_reply ::
  "reply \<Rightarrow> acl_insert_modal \<Rightarrow> acl_insert_modal \<times> ui_effect list" where
  "AccessControlInsertModal_reply r s =
     (case r of
        Failed \<Rightarrow> (s\<lparr>in_visible := False, in_confirmLoading := False\<rparr>, [ErrorMessage Reason])
      | Reply n \<Rightarrow>
          if field n ''code'' = None then (s, [ConsoleLog, Thrown])
          else if code_ok n
          then (s\<lparr>in_ipAddress := [], in_visible := False, in_confirmLoading := False\<rparr>,
                [ConsoleLog, SuccessMessage (Translated ''acl.modal.success''), RefreshAcl])
          else (s\<lparr>in_visible := False, in_confirmLoading := False\<rparr>,
                [ConsoleLog, ErrorMessage (Translated ''acl.modal.fail'')]))"

definition AccessControlInsertModal_showModal :: "acl_insert_modal \<Rightarrow> acl_insert_modal" where
  "AccessControlInsertModal_showModal s = s\<lparr>in_visible := True\<rparr>"

definition AccessControlInsertModal_onCancel :: "acl_insert_modal \<Rightarrow> acl_insert_modal" where
  "AccessControlInsertModal_onCancel s = s\<lparr>in_visible := False\<rparr>"

text \<open>The radio buttons, of which the one for IPv6 is disabled, and the two inputs; that of the mask
  is hidden for the first kind.\<close>

definition AccessControlInsertModal_select :: "int \<Rightarrow> acl_insert_modal \<Rightarrow> acl_insert_modal" where
  "AccessControlInsertModal_select k s = s\<lparr>in_kind := k\<rparr>"

definition AccessControlInsertModal_typeAddress :: "string \<Rightarrow> acl_insert_modal \<Rightarrow> acl_insert_modal" where
  "AccessControlInsertModal_typeAddress v s = s\<lparr>in_ipAddress := v\<rparr>"

definition AccessControlInsertModal_typeMask :: "string \<Rightarrow> acl_insert_modal \<Rightarrow> acl_insert_modal" where
  "AccessControlInsertModal_typeMask v s = s\<lparr>in_mask := v\<rparr>"

record acl_delete_modal =
  de_visible :: bool
  de_confirmLoading :: bool
  de_ipAddress :: string

definition AccessControlDeleteModal_init :: acl_delete_modal where
  "AccessControlDeleteModal_init = \<lparr>de_visible = False, de_confirmLoading = False, de_ipAddress = []\<rparr>"

definition AccessControlDeleteModal_onOk :: "acl_delete_modal \<Rightarrow> acl_delete_modal \<times> ui_effect list" where
  "AccessControlDeleteModal_onOk s =
     (s\<lparr>de_confirmLoading := True\<rparr>,
      [Post ''/acl'' [(''pattern'', Number 0), (''ipAddress'', String (de_ipAddress s))]])"

definition AccessControlDeleteModal_reply ::
  "reply \<Rightarrow> acl_delete_modal \<Rightarrow> acl_delete_modal \<times> ui_effect list" where
  "AccessControlDeleteModal_reply r s =
     (case r of
        Failed \<Rightarrow> (s\<lparr>de_visible := False, de_confirmLoading := False\<rparr>, [ErrorMessage Reason])
      | Reply n \<Rightarrow>
          with_data n s
            (s\<lparr>de_visible := False, de_confirmLoading := False\<rparr>,
             if code_ok n then [SuccessMessage (Translated ''acl.modal.success''), RefreshAcl]
             else [ErrorMessage (Translated ''acl.modal.fail'')]))"

definition AccessControlDeleteModal_showModal :: "acl_delete_modal \<Rightarrow> acl_delete_modal" where
  "AccessControlDeleteModal_showModal s = s\<lparr>de_visible := True\<rparr>"

definition AccessControlDeleteModal_onCancel :: "acl_delete_modal \<Rightarrow> acl_delete_modal" where
  "AccessControlDeleteModal_onCancel s = s\<lparr>de_visible := False\<rparr>"

definition AccessControlDeleteModal_typeAddress :: "string \<Rightarrow> acl_delete_modal \<Rightarrow> acl_delete_modal" where
  "AccessControlDeleteModal_typeAddress v s = s\<lparr>de_ipAddress := v\<rparr>"

record acl_row =
  row_key :: string
  row_ipAddress :: js

text \<open>The callback of \<open>/getAcl\<close>: \<open>None\<close> is an exception, other codes leave the rows.\<close>

definition getAclList_reply :: "reply \<Rightarrow> acl_row list \<Rightarrow> acl_row list \<times> ui_effect list" where
  "getAclList_reply r rows =
     (case r of
        Failed \<Rightarrow> (rows, [ConsoleLog])
      | Reply n \<Rightarrow>
          with_data n rows
            (if code_ok n then
               (case Option.bind (field n ''data'') (\<lambda>d. field d ''list'') of
                  None \<Rightarrow> (rows, [Thrown])
                | Some l \<Rightarrow> (map (\<lambda>(k, v). \<lparr>row_key = k, row_ipAddress = v\<rparr>) (entries l), []))
             else (rows, [])))"

text \<open>Confirming the deletion of a row.\<close>

definition AccessList_onConfirm :: "acl_row \<Rightarrow> ui_effect list" where
  "AccessList_onConfirm row = [Post ''/acl'' [(''pattern'', Number 0), (''ipAddress'', row_ipAddress row)]]"

definition AccessList_reply :: "reply \<Rightarrow> ui_effect list" where
  "AccessList_reply r =
     (case r of
        Failed \<Rightarrow> [ConsoleLog]
      | Reply n \<Rightarrow>
          if field n ''code'' = None then [Thrown]
          else if code_ok n then [SuccessMessage (Translated ''acl.handle.success''), RefreshAcl]
          else [ErrorMessage (Joined (Translated ''acl.handle.error'') (Raw (msg_of n)))])"

subsection \<open>The pages\<close>

datatype page = ClusterPage | RatePage | AclPage | IndexPage

text \<open>\<open>Switch\<close> takes the first route whose path is a prefix of the location up to a slash;
  case does not matter.\<close>

definition path_matches :: "string \<Rightarrow> string \<Rightarrow> bool" where
  "path_matches route loc =
     (let l = map to_lower loc in
      take (length route) l = route \<and> (length l = length route \<or> l ! length route = CHR ''/''))"

definition App_page :: "string \<Rightarrow> page option" where
  "App_page loc =
     (if path_matches ''/cluster'' loc then Some ClusterPage
      else if path_matches ''/rate'' loc then Some RatePage
      else if path_matches ''/acl'' loc then Some AclPage
      else if loc = [] \<or> take 1 loc = ''/'' then Some IndexPage
      else None)"

end
