(* ===== verification/WebUIProps.thy ===== *)
theory WebUIProps
  imports WebUI
begin

text \<open>
  What the dialogs and pages of the web interface guarantee by themselves: the tree of the
  front page, the list of target hosts that is posted, the canvas of the cluster page, the
  numbers of the limit dialog and the buttons that stay disabled.
\<close>

subsection \<open>The tree of proxies\<close>

definition host_js :: "string \<times> bool \<Rightarrow> js" where
  "host_js h = Object [(''host'', String (fst h)), (''alive'', Boolean (snd h))]"

definition host_node :: "string \<Rightarrow> string \<times> bool \<Rightarrow> tree_node" where
  "host_node n h = TreeNode (String (fst h)) (n @ ''/'' @ fst h) True n (String (fst h)) (Some (snd h)) []"

lemma field_host_js [simp]:
  "field (host_js h) ''host'' = Some (String (fst h))" "field (host_js h) ''alive'' = Some (Boolean (snd h))"
  by (simp_all add: host_js_def)

lemma host_nodes_array:
  "host_nodes (length hs) n (Array (map host_js (pre @ hs))) (length pre) = Some (map (host_node n) hs)"
proof (induction hs arbitrary: pre)
  case (Cons h hs)
  have "host_nodes (length hs) n (Array (map host_js (pre @ h # hs))) (Suc (length pre)) = Some (map (host_node n) hs)"
    using Cons.IH [of "pre @ [h]"] by simp
  moreover have "js_nth (Array (map host_js (pre @ h # hs))) (length pre) = host_js h" by (simp add: nth_append)
  ultimately show ?case by (simp add: host_node_def del: js_nth.simps map_append)
qed simp

text \<open>The front page lists every proxy with its hosts, in the order of the reply and with
  the state of each host, if a reply maps each pattern to an array of hosts.\<close>

theorem wrapProxyInfo_lists_hosts:
  "wrapProxyInfo (Object (map (\<lambda>(n, hs). (n, Array (map host_js hs))) ps))
     = Some (map (\<lambda>(n, hs). TreeNode (String n) n False n (String []) None (map (host_node n) hs)) ps)"
proof -
  have "host_nodes (length hs) n (Array (map host_js hs)) 0 = Some (map (host_node n) hs)" for n hs
    using host_nodes_array [of hs n "[]"] by simp
  then show ?thesis unfolding wrapProxyInfo_def by (induction ps) auto
qed

text \<open>The front page shows no host of a proxy whose value is an object. The page counts
  the hosts with \<open>length\<close>, which an object with the members \<open>balancerMode\<close> and \<open>hosts\<close>
  does not have, so every proxy appears without children.\<close>

theorem wrapProxyInfo_objects_have_no_hosts:
  assumes "\<forall>(n, v) \<in> set ps. \<exists>members. v = Object members \<and> map_of members ''length'' = None"
  shows "wrapProxyInfo (Object ps) = Some (map (\<lambda>(n, v). TreeNode (String n) n False n (String []) None []) ps)"
  using assms unfolding wrapProxyInfo_def by (induction ps) auto

theorem wrapProxyInfo_objects_have_no_hosts_witness:
  "wrapProxyInfo (Object [(''/api'', Object [(''balancerMode'', String ''round-robin''),
      (''hosts'', Array [host_js (''a:80'', True)])])]) = Some [TreeNode (String ''/api'') ''/api'' False ''/api'' (String []) None []]"
  using wrapProxyInfo_objects_have_no_hosts [of "[(''/api'', Object [(''balancerMode'', String ''round-robin''),
      (''hosts'', Array [host_js (''a:80'', True)])])]"] by simp

subsection \<open>The list of target hosts\<close>

datatype field_event = FieldAdd | FieldType nat string | FieldDelete nat

fun field_step :: "field_event \<Rightarrow> add_proxy_modal \<Rightarrow> add_proxy_modal" where
  "field_step FieldAdd s = AddProxyModal_add s"
| "field_step (FieldType t v) s = AddProxyModal_type t v s"
| "field_step (FieldDelete t) s = AddProxyModal_delete t s"

text \<open>An event of an input exists only while the input is shown.\<close>

definition possible :: "add_proxy_modal \<Rightarrow> field_event \<Rightarrow> bool" where
  "possible s e = (case e of FieldAdd \<Rightarrow> True
     | FieldType t v \<Rightarrow> t < length (field_keys (ap_form s))
     | FieldDelete t \<Rightarrow> t < length (field_keys (ap_form s)))"

inductive typed :: "add_proxy_modal \<Rightarrow> bool" where
  typed_init: "typed AddProxyModal_init"
| typed_step: "typed s \<Longrightarrow> possible s e \<Longrightarrow> typed (field_step e s)"
| typed_ok: "typed s \<Longrightarrow> typed (fst (AddProxyModal_onOk s))"
| typed_reply: "typed s \<Longrightarrow> typed (fst (AddProxyModal_reply r s))"
| typed_show: "typed s \<Longrightarrow> typed (AddProxyModal_showModal s)"
| typed_cancel: "typed s \<Longrightarrow> typed (AddProxyModal_onCancel s)"
| typed_pattern: "typed s \<Longrightarrow> typed (AddProxyModal_typePattern v s)"
| typed_select: "typed s \<Longrightarrow> typed (AddProxyModal_select v s)"

definition form_sync :: "add_proxy_modal \<Rightarrow> bool" where
  "form_sync s \<longleftrightarrow> (let f = ap_form s in
     distinct (field_keys f) \<and> (\<forall>k \<in> set (field_keys f). k < next_id f) \<and> (\<forall>k \<ge> next_id f. texts f k = [])
     \<and> proxy_pass s = map (\<lambda>k. String (texts f k)) (field_keys f))"

lemma without_splice: "without t xs = splice1 t xs"
proof -
  have "filter (\<lambda>i. i \<noteq> t) [0..<length xs] = [0..<min t (length xs)] @ [Suc t..<length xs]"
  proof (cases "t < length xs")
    case True
    then have split: "[0..<length xs] = [0..<t] @ t # [Suc t..<length xs]"
      by (metis append_Nil less_imp_le_nat upt_add_eq_append upt_conv_Cons le_add_diff_inverse zero_le)
    have "filter (\<lambda>i. i \<noteq> t) [0..<t] = [0..<t]" "filter (\<lambda>i. i \<noteq> t) [Suc t..<length xs] = [Suc t..<length xs]"
      by (auto intro: filter_True)
    then show ?thesis using True by (simp add: split)
  next
    case False
    then show ?thesis by (auto intro: filter_True)
  qed
  moreover have "map ((!) xs) [0..<min t (length xs)] = take t xs"
    by (simp add: list_eq_iff_nth_eq)
  moreover have "map ((!) xs) [Suc t..<length xs] = drop (Suc t) xs"
    by (simp add: list_eq_iff_nth_eq)
  ultimately show ?thesis by (simp add: without_def splice1_def)
qed

lemma map_splice1: "map f (splice1 t xs) = splice1 t (map f xs)"
  by (simp add: splice1_def take_map drop_map)

lemma set_splice1: "set (splice1 t xs) \<subseteq> set xs"
  by (auto simp: splice1_def dest: in_set_takeD in_set_dropD)

lemma distinct_splice1: "distinct xs \<Longrightarrow> distinct (splice1 t xs)"
  using set_take_disj_set_drop_if_distinct [of xs t "Suc t"] by (simp add: splice1_def)

lemma form_sync_type:
  assumes "form_sync s" and "t < length (field_keys (ap_form s))"
  shows "form_sync (AddProxyModal_type t v s)"
proof -
  let ?ks = "field_keys (ap_form s)" and ?x = "texts (ap_form s)"
  let ?y = "?x(?ks ! t := v)"
  have ok: "distinct ?ks" "\<forall>k \<in> set ?ks. k < next_id (ap_form s)" "\<forall>k \<ge> next_id (ap_form s). ?x k = []"
    "proxy_pass s = map (\<lambda>k. String (?x k)) ?ks"
    using assms(1) by (simp_all add: form_sync_def Let_def)
  have "(map (\<lambda>k. String (?x k)) ?ks)[t := String v] = map (\<lambda>k. String (?y k)) ?ks"
    using ok(1) assms(2) by (simp add: list_eq_iff_nth_eq nth_list_update nth_eq_iff_index_eq)
  moreover have "\<forall>k \<ge> next_id (ap_form s). ?y k = []"
    using ok(2,3) assms(2) by (metis fun_upd_apply leD nth_mem)
  ultimately show ?thesis
    using ok assms(2) by (simp add: form_sync_def Let_def AddProxyModal_type_def Form_type_def js_update_def)
qed

lemma form_sync_delete:
  assumes "form_sync s"
  shows "form_sync (AddProxyModal_delete t s)"
proof -
  let ?ks = "field_keys (ap_form s)"
  have "\<forall>k \<in> set (splice1 t ?ks). k < next_id (ap_form s)" "distinct (splice1 t ?ks)"
    using assms set_splice1 [of t ?ks] distinct_splice1 [of ?ks t] unfolding form_sync_def Let_def by blast+
  then show ?thesis
    using assms by (simp add: form_sync_def Let_def AddProxyModal_delete_def Form_remove_def without_splice map_splice1)
qed

lemma form_sync_add: "form_sync s \<Longrightarrow> form_sync (AddProxyModal_add s)"
  by (auto simp: form_sync_def Let_def AddProxyModal_add_def Form_add_def)

lemma form_sync_same:
  "ap_form s' = ap_form s \<Longrightarrow> proxy_pass s' = proxy_pass s \<Longrightarrow> form_sync s' = form_sync s"
  by (simp add: form_sync_def)

lemma typed_fold:
  "typed s \<Longrightarrow> \<forall>i < length es. possible (fold field_step (take i es) s) (es ! i) \<Longrightarrow> typed (fold field_step es s)"
proof (induction es arbitrary: s)
  case (Cons e es)
  have "typed (field_step e s)" using Cons.prems by (intro typed_step) force+
  moreover have "\<forall>i < length es. possible (fold field_step (take i es) (field_step e s)) (es ! i)"
  proof (intro allI impI)
    fix i assume "i < length es"
    then show "possible (fold field_step (take i es) (field_step e s)) (es ! i)"
      using Cons.prems(2) [THEN spec, of "Suc i"] by simp
  qed
  ultimately show ?case using Cons.IH by simp
qed simp

lemma posted_by_dialog:
  assumes "typed s"
  shows "snd (AddProxyModal_onOk s) = [Post ''/addProxy'' [(''pattern'', String (ap_pattern s)),
     (''proxyPass'', Array (map (\<lambda>k. String (texts (ap_form s) k)) (field_keys (ap_form s)))),
     (''balanceMode'', String (balance_mode s))]]"
proof -
  have "form_sync s" using assms
  proof induction
    case typed_init
    show ?case by (simp add: form_sync_def AddProxyModal_init_def Form_empty_def)
  next
    case (typed_step s e)
    then show ?case
      by (cases e) (simp_all add: possible_def form_sync_add form_sync_type form_sync_delete)
  next
    case (typed_reply s r)
    then show ?case
      by (auto simp: AddProxyModal_reply_def with_data_def form_sync_def split: reply.splits)
  qed (simp_all add: form_sync_def AddProxyModal_onOk_def AddProxyModal_showModal_def AddProxyModal_onCancel_def
      AddProxyModal_typePattern_def AddProxyModal_select_def)
  then show ?thesis by (simp add: AddProxyModal_onOk_def form_sync_def Let_def)
qed

text \<open>What the dialog posts is what it shows. However fields are added, edited and
  removed, and however often the dialog is opened, cancelled and confirmed, the posted list of
  target hosts holds the texts of the visible inputs, in their order.\<close>

theorem posted_hosts_are_shown:
  assumes "typed s"
  shows "snd (AddProxyModal_onOk s) = [Post ''/addProxy'' [(''pattern'', String (ap_pattern s)),
     (''proxyPass'', Array (map (\<lambda>k. String (texts (ap_form s) k)) (field_keys (ap_form s)))),
     (''balanceMode'', String (balance_mode s))]]"
  by (rule posted_by_dialog [OF assms])

definition demo_modal :: add_proxy_modal where
  "demo_modal = fold field_step [FieldAdd, FieldAdd, FieldAdd, FieldType 0 ''http://a:80'', FieldType 2 ''http://c:80'',
     FieldDelete 1] AddProxyModal_init"

lemmas demo_modal_defs = demo_modal_def AddProxyModal_init_def Form_empty_def AddProxyModal_add_def AddProxyModal_type_def
  AddProxyModal_delete_def Form_add_def Form_type_def Form_remove_def without_def splice1_def js_update_def

lemma typed_demo: "typed demo_modal"
  unfolding demo_modal_def
  by (rule typed_fold [OF typed_init]) (simp add: All_less_Suc possible_def demo_modal_defs upt_rec numeral_eq_Suc)

theorem posted_hosts_are_shown_witness:
  "snd (AddProxyModal_onOk demo_modal) = [Post ''/addProxy'' [(''pattern'', String []),
     (''proxyPass'', Array [String ''http://a:80'', String ''http://c:80'']), (''balanceMode'', String ''round-robin'')]]"
  using posted_hosts_are_shown [OF typed_demo] by (simp add: demo_modal_defs upt_rec)

subsection \<open>The canvas of the cluster\<close>

definition drawn :: "drawing list \<Rightarrow> peer list" where
  "drawn ds = concat (map (\<lambda>d. case d of Peer_at x y p \<Rightarrow> [p] | _ \<Rightarrow> []) ds)"

definition followers :: "peer list \<Rightarrow> peer list" where
  "followers ps = filter (\<lambda>p. \<not> peer_isLeader p) ps"

lemma drawn_simps [simp]:
  "drawn [] = []" "drawn (Peer_at x y p # ds) = p # drawn ds" "drawn (Line_to a b # ds) = drawn ds"
  "drawn (ds @ es) = drawn ds @ drawn es"
  by (simp_all add: drawn_def)

lemma draw_loop_drawn:
  "followers (drawn (draw_loop w h ps c)) = take (5 - c) (followers ps)
   \<and> filter peer_isLeader (drawn (draw_loop w h ps c)) = filter peer_isLeader ps"
proof (induction ps arbitrary: c)
  case (Cons p ps)
  have "5 - c = Suc (5 - (c + 1))" if "c \<le> 4" using that by simp
  then show ?case using Cons.IH [of c] Cons.IH [of "c + 1"] by (auto simp: followers_def)
qed (simp add: followers_def)

lemma draw_loop_places:
  "Peer_at x y p \<in> set (draw_loop w h ps c) \<Longrightarrow> x \<le> w \<and> y \<le> h \<and> p \<in> set ps"
proof (induction ps arbitrary: c)
  case (Cons q ps)
  have inside: "c * (w div 4) \<le> w" if "c \<le> 4"
    using mult_le_mono1 [OF that, of "w div 4"] by (meson le_trans times_div_less_eq_dividend)
  show ?case
  proof (cases "Peer_at x y p \<in> set (draw_loop w h ps c) \<or> Peer_at x y p \<in> set (draw_loop w h ps (c + 1))")
    case True
    then show ?thesis using Cons.IH by auto
  next
    case False
    then have "p = q \<and> (x = w div 2 \<and> y = h div 2 \<or> c \<le> 4 \<and> x = c * (w div 4) \<and> y = h div 8)"
      using Cons.prems by (auto split: if_splits)
    then show ?thesis using inside by (metis div_le_dividend list.set_intros(1))
  qed
qed simp


definition demo_peer :: "nat \<Rightarrow> peer" where
  "demo_peer i = \<lparr>serverId = Itoa i, serverAddress = ''10.0.0.'' @ Itoa i, peer_isLeader = (i = 0)\<rparr>"


subsection \<open>The dialog of the limits\<close>

lemma js_digit_digit_char: "d < 10 \<Longrightarrow> js_digit 10 (digit_char d) = Some d"
  by (simp add: js_digit_def digit_char_def Let_def)

lemma leading_digits_append:
  "\<forall>c \<in> set xs. js_digit r c \<noteq> None \<Longrightarrow> leading_digits r (xs @ ys) = leading_digits r xs @ leading_digits r ys"
  by (induction xs) auto

lemma leading_digits_Itoa: "foldl (\<lambda>n d. 10 * n + d) 0 (leading_digits 10 (Itoa n)) = n \<and> leading_digits 10 (Itoa n) \<noteq> []"
proof (induction n rule: Itoa.induct)
  case (1 n)
  show ?case
  proof (cases "n < 10")
    case True
    then show ?thesis by (simp add: Itoa.simps [of n] js_digit_digit_char)
  next
    case False
    have "\<forall>c \<in> set (Itoa (n div 10)). js_digit 10 c \<noteq> None"
      using Itoa_digits js_digit_digit_char by force
    with 1 [OF False] False show ?thesis
      by (simp add: Itoa.simps [of n] leading_digits_append js_digit_digit_char)
  qed
qed

lemma Itoa_first:
  assumes "Itoa n = c # cs"
  shows "\<not> is_js_space c" "c \<noteq> CHR ''-''" "c \<noteq> CHR ''+''" "take 2 (c # cs) \<noteq> ''0x''" "take 2 (c # cs) \<noteq> ''0X''"
proof -
  have no: "CHR ''x'' \<notin> set (Itoa n)" "CHR ''X'' \<notin> set (Itoa n)" by (rule Itoa_no_char, simp)+
  obtain d where d: "d < 10" "c = digit_char d" using Itoa_digits [of c n] assms by auto
  then show "\<not> is_js_space c" by (simp add: is_js_space_def digit_char_def)
  show "c \<noteq> CHR ''-''" "c \<noteq> CHR ''+''" using Itoa_no_sep(4,5) [of n] assms by auto
  show "take 2 (c # cs) \<noteq> ''0x''" "take 2 (c # cs) \<noteq> ''0X''"
    using no assms by (cases cs; auto)+
qed

lemma parse_digits_Itoa: "parse_digits 10 (Itoa n) = Some n"
  using leading_digits_Itoa [of n] by (simp add: parse_digits_def Let_def)

lemma parseInt_Number [simp]: "parseInt (Number k) = Number k"
proof -
  obtain c cs where s: "Itoa (nat \<bar>k\<bar>) = c # cs" by (cases "Itoa (nat \<bar>k\<bar>)") auto
  note first = Itoa_first [OF s] and digits = parse_digits_Itoa [of "nat \<bar>k\<bar>", unfolded s]
  show ?thesis
  proof (cases "k < 0")
    case True
    then have "js_text (Number k) = CHR ''-'' # c # cs" using s by simp
    moreover have "\<not> is_js_space (CHR ''-'')" by (simp add: is_js_space_def)
    ultimately show ?thesis using True first digits by (auto simp: parseInt_def parseInt_text_def Let_def)
  next
    case False
    then have "js_text (Number k) = c # cs" using s by simp
    then show ?thesis using False first digits by (auto simp: parseInt_def parseInt_text_def Let_def)
  qed
qed

text \<open>Opening the dialog of a method and confirming it unchanged posts the limits that the
  server answered, number by number through the text fields, with a speed of zero for an
  unlimited method.\<close>

theorem SetRate_unchanged:
  assumes "field n ''data'' = Some d" and "field d ''method'' = Some (Object m)"
    and "map_of m ''type'' = Some (String t)" and "map_of m ''speed'' = Some (Number sp)"
    and "map_of m ''volumn'' = Some (Number v)" and "map_of m ''timeout'' = Some (Number d')"
  shows "snd (SetRateModal_onOk (fst (getMethodInfo_reply (Reply n)
       (fst (SetRateModal_showModal (String pre) (String path) s)))))
     = [Post ''/limiter'' [(''prefix'', String pre), (''pathName'', String path), (''limiterType'', String t),
          (''volumn'', Number v), (''speed'', Number (max 0 sp)), (''duration'', Number d')]]"
  using assms
  by (auto simp: SetRateModal_showModal_def getMethodInfo_reply_def SetRateModal_onOk_def get_or_undefined_def)

definition demo_method_reply :: js where
  "demo_method_reply = Object [(''code'', Number 200), (''data'', Object [(''method'', Object [(''type'', String ''qps''),
     (''speed'', Number 50), (''volumn'', Number 10), (''timeout'', Number 200)])])]"

theorem SetRate_unchanged_witness:
  "snd (SetRateModal_onOk (fst (getMethodInfo_reply (Reply demo_method_reply)
       (fst (SetRateModal_showModal (String ''/api'') (String ''/x'') SetRateModal_init)))))
     = [Post ''/limiter'' [(''prefix'', String ''/api''), (''pathName'', String ''/x''), (''limiterType'', String ''qps''),
          (''volumn'', Number 10), (''speed'', Number 50), (''duration'', Number 200)]]"
  by (subst SetRate_unchanged [where sp = 50 and v = 10 and d' = 200 and t = "''qps''"])
    (auto simp: demo_method_reply_def)

text \<open>The dialog of a method without limits shows those of the method that was opened
  before. The error reply has no member \<open>method\<close>, so the callback throws and the fields
  keep their texts, which are then posted under the name of the new method.\<close>

theorem SetRate_shows_stale_limits:
  assumes "field n ''data'' = Some (Object [])"
  shows "snd (getMethodInfo_reply (Reply n) s) = [Thrown]
    \<and> snd (SetRateModal_onOk (fst (getMethodInfo_reply (Reply n) (fst (SetRateModal_showModal pre path s)))))
      = [Post ''/limiter'' [(''prefix'', pre), (''pathName'', path), (''limiterType'', sr_type s),
          (''volumn'', parseInt (sr_volumn s)), (''speed'', parseInt (sr_speed s)),
          (''duration'', parseInt (sr_timeout s))]]"
  using assms
  by (simp add: SetRateModal_showModal_def getMethodInfo_reply_def SetRateModal_onOk_def)

theorem SetRate_shows_stale_limits_witness:
  "snd (SetRateModal_onOk (fst (getMethodInfo_reply (Reply (Object [(''code'', Number 404), (''data'', Object [])]))
       (fst (SetRateModal_showModal (String ''/api'') (String ''/y'')
          (fst (getMethodInfo_reply (Reply demo_method_reply) SetRateModal_init)))))))
     = [Post ''/limiter'' [(''prefix'', String ''/api''), (''pathName'', String ''/y''), (''limiterType'', String ''qps''),
          (''volumn'', Number 10), (''speed'', Number 50), (''duration'', Number 200)]]"
  using SetRate_shows_stale_limits [of "Object [(''code'', Number 404), (''data'', Object [])]"
      "fst (getMethodInfo_reply (Reply demo_method_reply) SetRateModal_init)" "String ''/api''" "String ''/y''"]
  by (simp add: getMethodInfo_reply_def demo_method_reply_def get_or_undefined_def)

subsection \<open>Buttons that stay disabled\<close>

definition run_add_host :: "add_host_event list \<Rightarrow> add_host_modal \<Rightarrow> add_host_modal" where
  "run_add_host = fold (\<lambda>e s. fst (AddHostModal_step e s))"

lemma AddHostModal_step_loading:
  "ah_confirmLoading (fst (AddHostModal_step e s)) = (ah_confirmLoading s \<or> e = AH_onOk)"
  by (cases "(e, s)" rule: AddHostModal_step.cases) (auto simp: with_data_def)

text \<open>The button of the dialog that adds a host can be used once. From the first
  confirmation on it is marked as loading, whatever the server answers, until the page is
  loaded again.\<close>

theorem AddHostModal_loading_forever:
  "ah_confirmLoading (run_add_host es AddHostModal_init) = (AH_onOk \<in> set es)"
proof -
  have "ah_confirmLoading (run_add_host es s) = (ah_confirmLoading s \<or> AH_onOk \<in> set es)" for s
    unfolding run_add_host_def
    by (induction es arbitrary: s) (auto simp: AddHostModal_step_loading)
  then show ?thesis by (simp add: AddHostModal_init_def)
qed

end
