(* ===== verification/UIServer.thy ===== *)
theory UIServer
  imports Agreement WebUIProps
begin

text \<open>
  The web interface together with the server that answers it. A request of a dialog becomes a
  call of the management API with the JSON text of its members as the body (\<open>stringify\<close>, which
  is \<open>JSON.stringify\<close>), and the JSON value the handler writes is the data of the reply.
\<close>

fun ui_call :: "((string \<times> js) list \<Rightarrow> bytes) \<Rightarrow> ui_effect \<Rightarrow> http_call option" where
  "ui_call stringify (Get p) = Some \<lparr>call_path = p, call_body = [], call_query = (\<lambda>_. [])\<rparr>"
| "ui_call stringify (Post p members) = Some \<lparr>call_path = p, call_body = stringify members, call_query = (\<lambda>_. [])\<rparr>"
| "ui_call stringify e = None"

text \<open>The answer of the server to the first request of a list of effects.\<close>

definition answer ::
  "('m, 'l, 'r) server_env \<Rightarrow> CherylConfig \<Rightarrow> ((string \<times> js) list \<Rightarrow> bytes) \<Rightarrow> ui_effect list \<Rightarrow> ('l, 'r) node
   \<Rightarrow> ('l, 'r) handled option" where
  "answer env conf stringify effs nd =
     (case effs of
        [] \<Rightarrow> None
      | e # _ \<Rightarrow> map_option (\<lambda>call. serve_api env conf (\<lambda>_. Status 404) call nd) (ui_call stringify e))"

lemma answer_Get [simp]:
  "answer env conf stringify (Get p # es) nd
     = Some (serve_api env conf (\<lambda>_. Status 404) \<lparr>call_path = p, call_body = [], call_query = (\<lambda>_. [])\<rparr> nd)"
  by (simp add: answer_def)

lemma answer_Post [simp]:
  "answer env conf stringify (Post p members # es) nd
     = Some (serve_api env conf (\<lambda>_. Status 404) \<lparr>call_path = p, call_body = stringify members, call_query = (\<lambda>_. [])\<rparr> nd)"
  by (simp add: answer_def)

subsection \<open>The front page\<close>

text \<open>The answer to the request of the tree makes one node per route.\<close>

definition route_nodes :: "('m, 'l, 'r) server_env \<Rightarrow> ('l, 'r) node \<Rightarrow> tree_node list" where
  "route_nodes env nd = map (\<lambda>k. TreeNode (String k) k False k (String []) None [])
     (iter (cluster env) (dom (Relations (maps (nd_gateway nd) (current (nd_gateway nd))))))"

lemma doGetProxy_tree:
  "\<exists>j. doGetProxy env nd = Ret (Json j, nd) \<and> (\<forall>s. getProxyInfo (Reply j) s = (s\<lparr>tree_data := Some (route_nodes env nd)\<rparr>, []))"
proof -
  let ?g = "nd_gateway nd" and ?it = "iter (cluster env)"
  let ?rel = "Relations (maps ?g (current ?g))"
  let ?entry = "\<lambda>k. let v = proxies ?g (the (?rel k)) in
     (k, Object [(''balancerMode'', String (Balancer_Mode (Lb v))),
        (''hosts'', Array (map (\<lambda>h. Object [(''host'', String h), (''alive'', Boolean (ReadAlive v h))]) (?it (dom (HostMap v)))))])"
  let ?e = "Object (map ?entry (?it (dom ?rel)))"
  have "doGetProxy env nd = Ret (Json (R_Marshal (Put ''data'' ?e Ok)), nd)"
    by (simp add: doGetProxy_def Let_def)
  moreover have "wrapProxyInfo ?e = Some (route_nodes env nd)"
    unfolding route_nodes_def by (subst wrapProxyInfo_objects_have_no_hosts) (auto simp: Let_def)
  ultimately show ?thesis
    by (intro exI [of _ "R_Marshal (Put ''data'' ?e Ok)"]) (simp add: getProxyInfo_def R_Marshal_def Put_def Ok_def)
qed

text \<open>C39: the front page never shows a host. Whatever proxies a node has, the answer of the server
  to the page's request makes a tree with one node per route and no children, because the
  server wraps the hosts in an object with the balancer mode and the page counts them with
  \<open>length\<close>.\<close>

theorem front_page_shows_no_hosts:
  "\<exists>j. answer env conf stringify [Index_mount ! 1] nd = Some (Ret (Json j, nd))
    \<and> getProxyInfo (Reply j) s
       = (s\<lparr>tree_data := Some (map (\<lambda>k. TreeNode (String k) k False k (String []) None [])
            (iter (cluster env) (dom (Relations (maps (nd_gateway nd) (current (nd_gateway nd)))))))\<rparr>, [])"
  using doGetProxy_tree [of env nd] by (auto simp: Index_mount_def serve_api_def Let_def route_nodes_def)

subsection \<open>Blocking and unblocking an address\<close>

text \<open>The codecs of the black list requests: the server reads what the page wrote, the log keeps
  it, and the raft library commits.\<close>

definition acl_codec :: "('m, 'l, 'r) server_env \<Rightarrow> ((string \<times> js) list \<Rightarrow> bytes) \<Rightarrow> bool" where
  "acl_codec env stringify \<longleftrightarrow>
     (\<forall>k \<in> {0, 1}. \<forall>t. dec_acl (cluster env) (stringify [(''pattern'', Number k), (''ipAddress'', String t)])
        = Inr \<lparr>acl_Pattern = word_of_int k, IpAddress = t\<rparr>)
     \<and> (\<forall>req. dec_acl (cluster env) (enc_acl (cluster env) req) = Inr req)
     \<and> (\<forall>r e. fst (raft_Apply env r e) = None)"

lemma acl_codec_accepts:
  assumes "acl_codec env stringify" "enableWrite nd" "k \<in> {0, 1}"
  shows "accepts_acl env (stringify [(''pattern'', Number k), (''ipAddress'', String t)])
     \<lparr>acl_Pattern = word_of_int k, IpAddress = t\<rparr> nd"
  using assms by (auto simp: acl_codec_def accepts_acl_def)

lemma key_path_length: "length (key_path k n) = n"
  by (simp add: key_path_def)

lemma blocked_iff_entries:
  assumes "acl_ok t" "tree_entry t = (tree_entry t0)(key_path (ipv4 a b c d) 32 := v)" "acl_ok t0"
    and "a < 256" "b < 256" "c < 256" "d < 256"
    and "RadixTree_AccessControl t0 (dotted a b c d @ CHR '':'' # port) = Ret False"
  shows "RadixTree_AccessControl t (dotted a b c d @ CHR '':'' # port) = Ret (v \<noteq> [])"
proof -
  have none: "tree_entry t0 (key_path (ipv4 a b c d) n) = []" for n
    using assms(8) AccessControl_entries [OF assms(3-7), of port] by simp
  have "(\<exists>n. tree_entry t (key_path (ipv4 a b c d) n) \<noteq> []) \<longleftrightarrow> v \<noteq> []"
    using none by (auto simp: assms(2))
  then show ?thesis using AccessControl_entries [OF assms(1,4-7), of port] by simp
qed

lemma getAclList_rows:
  assumes "t \<in> set xs"
  shows "\<exists>i. \<lparr>row_key = Itoa i, row_ipAddress = String t\<rparr>
    \<in> set (fst (getAclList_reply (Reply (R_Marshal (Put ''list'' (Array (map String xs)) Ok))) rows))"
proof -
  have "fst (getAclList_reply (Reply (R_Marshal (Put ''list'' (Array (map String xs)) Ok))) rows)
      = map (\<lambda>i. \<lparr>row_key = Itoa i, row_ipAddress = String (xs ! i)\<rparr>) [0..<length xs]"
    by (simp add: getAclList_reply_def with_data_def code_ok_def R_Marshal_def Put_def Ok_def)
  moreover obtain i where "i < length xs" "t = xs ! i" using assms by (metis in_set_conv_nth)
  ultimately show ?thesis by (intro exI [of _ i]) simp
qed


definition demo_stringify :: "(string \<times> js) list \<Rightarrow> bytes" where
  "demo_stringify members = (case members of
     [(_, Number k), (_, String t)] \<Rightarrow> word_of_int k # bytes_of t
   | [(_, String p), (_, String m)] \<Rightarrow> lines_of [p, m]
   | [(_, String p), (_, Array ts), (_, String m)] \<Rightarrow> lines_of (p # m # map (\<lambda>t. case t of String x \<Rightarrow> x | _ \<Rightarrow> []) ts)
   | _ \<Rightarrow> [])"

lemma demo_codec: "acl_codec demo_server demo_stringify"
  by (simp add: acl_codec_def demo_server_def demo_env_def demo_stringify_def)


text \<open>The dialog that deletes an address posts what was typed. An address as the other dialog asks
  for it has no suffix, which the server refuses; nothing changes.\<close>

lemma ui_delete_needs_suffix:
  assumes "acl_codec env stringify" and "enableWrite nd" and "de_ipAddress s = dotted a b c d"
    and "a < 256" "b < 256" "c < 256" "d < 256"
  shows "\<exists>nd'. answer env conf stringify (snd (AccessControlDeleteModal_onOk s)) nd
      = Some (Ret (fail env 500 (FromAcl InvaildIpAddress), nd'))
    \<and> black_list (nd_gateway nd') = black_list (nd_gateway nd)"
proof -
  have "Split (dotted a b c d) CHR ''/'' = [dotted a b c d]" by (rule Split_no_sep) simp
  then have del: "RadixTree_Delete (dotted a b c d) t = Ret (Some InvaildIpAddress, t)" for t
    using InetToi_ipv4 [OF assms(4-7)] by (simp add: RadixTree_Delete_def)
  have "dec_acl (cluster env) (stringify [(''pattern'', Number 0), (''ipAddress'', String (dotted a b c d))])
      = Inr \<lparr>acl_Pattern = 0, IpAddress = dotted a b c d\<rparr>"
    using assms(1) by (simp add: acl_codec_def)
  then show ?thesis
    using assms(2,3) del by (simp add: AccessControlDeleteModal_onOk_def serve_api_def doHandleAcl_def checkWritePermission_def Let_def)
qed

subsection \<open>Reading and writing limits\<close>


definition limited_node :: "(int \<times> int, unit) node" where
  "limited_node = set_gateway (upd_proxy 0 (\<lambda>h. h\<lparr>Methods := [''/x'' \<mapsto>
     Qps_SetTimeout (int64 (200 * Millisecond)) (NewQpsRateLimiter toy_rate)]\<rparr>) demo_served) demo_node"


subsection \<open>Adding a proxy\<close>

text \<open>The location that the dialog shows.\<close>

definition shown_location :: "add_proxy_modal \<Rightarrow> Location" where
  "shown_location s = \<lparr>l_Pattern = ap_pattern s, ProxyPass = map (texts (ap_form s)) (field_keys (ap_form s)),
     BalanceMode = balance_mode s\<rparr>"

definition location_members :: "Location \<Rightarrow> (string \<times> js) list" where
  "location_members l = [(''pattern'', String (l_Pattern l)), (''proxyPass'', Array (map String (ProxyPass l))),
     (''balanceMode'', String (BalanceMode l))]"

lemma target_hosts_dom:
  "target_hosts parse ts m = Some hosts \<Longrightarrow> dom hosts = dom m \<union> {GetHost u |t u. t \<in> set ts \<and> parse t = Inr u}"
  by (induction ts arbitrary: m) (auto split: sum.splits)

lemma announced_view:
  assumes "announced_ok env l"
  shows "v_locations (spec_new_proxy env l v) (l_Pattern l) = Some l
    \<and> (\<exists>hosts. v_hosts (spec_new_proxy env l v) (l_Pattern l) = Some hosts \<and> dom hosts = configured_hosts env l)"
proof -
  obtain hosts where hosts: "target_hosts (env_parse env) (ProxyPass l) Map.empty = Some hosts"
    using target_hosts_ok [of "ProxyPass l" "env_parse env" Map.empty] assms by (auto simp: announced_ok_def location_ok_def)
  then have "dom hosts = configured_hosts env l" using target_hosts_dom [OF hosts] by (simp add: configured_hosts_def)
  then show ?thesis using hosts assms by (auto simp: spec_new_proxy_def announced_ok_def location_ok_def)
qed

text \<open>What \<open>doAddProxy\<close> does on a leader and its log entry on a follower, for a route that is new.\<close>

lemma new_proxy_everywhere:
  assumes "good_gateway (nd_gateway nd)" "good_gateway gf" "view gf = view (nd_gateway nd)" "enableWrite nd"
    and "dec_location (cluster env) b = Inr l" "announced_ok (cluster env) l" "take 1 (l_Pattern l) = ''/''" "ProxyPass l \<noteq> []"
    and "own_proxy (l_Pattern l) nd = None"
  shows "\<exists>nd' gf'. doAddProxy env b nd = Ret (ok, nd') \<and> good_gateway (nd_gateway nd')
    \<and> apply_entry (cluster env) \<lparr>Opt = 1, Data = enc_location (cluster env) l\<rparr> gf = Ret gf'
    \<and> view (nd_gateway nd') = spec_new_proxy (cluster env) l (view gf) \<and> view gf' = view (nd_gateway nd')"
proof -
  let ?g = "nd_gateway nd" and ?e = "\<lparr>Opt = 1, Data = enc_location (cluster env) l\<rparr>"
  obtain routes where g: "router ?g = Some routes" "registered (current ?g) ?g" using assms(1) by (auto simp: good_gateway_def)
  obtain nd' where nd': "createProxyWithLocation env l nd = Ret nd'"
    "AddProxyWithLocation (env_parse (cluster env)) (env_replicas (cluster env)) (current ?g) l ?g = Ret (None, nd_gateway nd')"
    by (rule createProxyWithLocation_ok [OF assms(6) g])
  have leader: "good_gateway (nd_gateway nd')" "view (nd_gateway nd') = spec_new_proxy (cluster env) l (view gf)"
    using AddProxyWithLocation_refines [OF assms(1), of "cluster env" "env_replicas (cluster env)" l] nd'(2) assms(3) by simp_all
  have "v_hosts (view gf) (l_Pattern l) = None" using assms(3,9) by (simp add: own_proxy_def v_hosts_view)
  then have "spec_apply (cluster env) ?e (view gf) = Ret (spec_new_proxy (cluster env) l (view gf))"
    using assms(6) by (simp add: spec_apply_def announced_ok_def)
  then obtain err gf' where "FSM_Apply (cluster env) (LogEntry_Encode ?e) gf = Ret (err, gf')"
    "view gf' = spec_new_proxy (cluster env) l (view gf)"
    using FSM_refines [OF assms(2), of ?e "cluster env"] by auto
  moreover have "doAddProxy env b nd = Ret (ok, nd')"
    using assms(4,5,7,8) nd'(1)
    by (auto simp: doAddProxy_def checkWritePermission_def validLocation_def split: list.splits)
  ultimately show ?thesis using leader by (simp add: apply_entry_def)
qed



subsection \<open>Changing a proxy\<close>

lemma follower_same_entry:
  assumes "good_gateway gf" "view gf = v" "Opt e \<noteq> 3" "spec_apply env e v = Ret v'"
  shows "\<exists>gf'. apply_entry env e gf = Ret gf' \<and> view gf' = v'"
  using FSM_refines [OF assms(1,3), of env] assms(2,4) by (auto simp: apply_entry_def)



end
