(* ===== verification/Browser.thy ===== *)
theory Browser
  imports PageProtocol UIServer
begin

text \<open>
  The server as a page of the web interface sees it: the replies that the client library makes
  of its responses, and a request as one step of the node.
\<close>

text \<open>What the client library makes of a response: a status from 200 to 299 is a success, and the
  response of a status alone has an empty text.\<close>

fun reply_of :: "api_response \<Rightarrow> reply" where
  "reply_of (Json j) = Reply j"
| "reply_of (Plain t) = Reply (String t)"
| "reply_of (Status n) = (if 200 \<le> n \<and> n < 300 then Reply (String []) else Failed)"

text \<open>A request is served by the multiplexer. When its handler panics the connection is closed and
  the request fails; what the handler had changed by then is left open, except that it has not
  touched what \<open>content\<close> names.\<close>

inductive site_serves ::
  "('m, 'l, 'r) server_env \<Rightarrow> CherylConfig \<Rightarrow> (string \<Rightarrow> api_response) \<Rightarrow> ((string \<times> js) list \<Rightarrow> bytes)
   \<Rightarrow> (('l, 'r) node \<Rightarrow> 'v) \<Rightarrow> ui_effect \<Rightarrow> ('l, 'r) node \<Rightarrow> reply \<Rightarrow> ('l, 'r) node \<Rightarrow> bool"
  for env conf files stringify content where
  answered: "ui_call stringify e = Some call \<Longrightarrow> serve_api env conf files call nd = Ret (resp, nd') \<Longrightarrow>
    site_serves env conf files stringify content e nd (reply_of resp) nd'"
| panicked: "ui_call stringify e = Some call \<Longrightarrow> serve_api env conf files call nd = Panic p \<Longrightarrow>
    content nd' = content nd \<Longrightarrow> site_serves env conf files stringify content e nd Failed nd'"

inductive_cases site_servesE: "site_serves env conf files stringify content e nd r nd'"

text \<open>The raft library commits what it is given in this state, as that of a leader does.\<close>

definition committing :: "('m, 'l, 'r) server_env \<Rightarrow> ('l, 'r) node \<Rightarrow> bool" where
  "committing env nd \<longleftrightarrow> (\<forall>bytes. fst (raft_Apply env (raft_state nd) bytes) = None)"

definition committed_serves ::
  "('m, 'l, 'r) server_env \<Rightarrow> CherylConfig \<Rightarrow> (string \<Rightarrow> api_response) \<Rightarrow> ((string \<times> js) list \<Rightarrow> bytes)
   \<Rightarrow> (('l, 'r) node \<Rightarrow> 'v) \<Rightarrow> 'o \<times> ui_effect \<Rightarrow> ('l, 'r) node \<Rightarrow> reply \<Rightarrow> ('l, 'r) node \<Rightarrow> bool" where
  "committed_serves env conf files stringify content q nd r nd' \<longleftrightarrow>
     committing env nd \<and> site_serves env conf files stringify content (snd q) nd r nd'"

definition keeps_content :: "(('l, 'r) node \<Rightarrow> 'v) \<Rightarrow> ('l, 'r) node \<Rightarrow> ('l, 'r) node \<Rightarrow> bool" where
  "keeps_content content nd nd' \<longleftrightarrow> content nd' = content nd"

text \<open>A request is served unless its handler ends the process or hangs.\<close>

lemma committed_serves_total:
  assumes "committing env nd" "ui_call stringify (snd q) = Some call" "serve_api env conf files call nd \<notin> {Exit, Stuck}"
  shows "\<exists>r nd'. committed_serves env conf files stringify content q nd r nd'"
proof (cases "serve_api env conf files call nd")
  case (Ret x)
  obtain resp nd' where "x = (resp, nd')" by (cases x)
  with Ret have "site_serves env conf files stringify content (snd q) nd (reply_of resp) nd'"
    by (intro site_serves.answered [OF assms(2)]) simp
  with assms(1) show ?thesis by (auto simp: committed_serves_def)
next
  case (Panic p)
  then have "site_serves env conf files stringify content (snd q) nd Failed nd"
    by (rule site_serves.panicked [OF assms(2)]) simp
  with assms(1) show ?thesis by (auto simp: committed_serves_def)
qed (use assms(3) in auto)

lemma writeLogEntry_committing:
  "committing env nd \<Longrightarrow> writeLogEntry env opt d nd = Ret (err, nd') \<Longrightarrow> err = None"
  by (auto simp: committing_def writeLogEntry_def Let_def and_then_eq_Ret split: prod.splits option.splits) (metis fst_conv option.distinct(1))+

lemma log_and_answer_committing:
  assumes "committing env nd" "log_and_answer env opt d nd = Ret (resp, nd')"
  shows "resp = ok"
  using assms writeLogEntry_committing [OF assms(1)]
  by (fastforce simp: log_and_answer_def and_then_eq_Ret split: option.splits)

lemma committing_set [simp]: "committing env (set_gateway g nd) = committing env nd"
  by (simp add: committing_def)

lemma ok_reply [simp]: "reply_of ok = Reply (R_Marshal Ok)"
  by (simp add: ok_def)

lemma fail_reply [simp]: "reply_of (fail env c e) = Reply (R_Marshal (R_Error c (error_text env e)))"
  by (simp add: fail_def)

lemma R_Marshal_fields [simp]:
  "field (R_Marshal r) ''code'' = Some (Number (Code r))" "field (R_Marshal r) ''msg'' = Some (String (Msg r))"
  "field (R_Marshal r) ''data'' = Some (Object (R_Data r))" "code_ok (R_Marshal r) \<longleftrightarrow> Code r = 200"
  "Code Ok = 200" "Code (Put k v r) = Code r" "Code (R_Error c m) = c"
  by (auto simp: R_Marshal_def code_ok_def Ok_def Put_def R_Error_def)

lemma committed_serves_weaken:
  assumes "committed_serves env conf files stringify c q nd r nd'" "\<And>nd nd'. c nd' = c nd \<Longrightarrow> d nd' = d nd" "snd q = snd q'"
  shows "committed_serves env conf files stringify d q' nd r nd'"
proof -
  have "site_serves env conf files stringify c (snd q') nd r nd'" "committing env nd"
    using assms(1,3) by (simp_all add: committed_serves_def)
  then show ?thesis
    unfolding committed_serves_def
  proof (elim site_servesE, goal_cases)
    case (1 call resp)
    then show ?case by (auto intro: site_serves.answered)
  next
    case (2 call p)
    then show ?case using assms(2) by (auto intro: site_serves.panicked)
  qed
qed

text \<open>Serving keeps the goroutines of the proxies waiting, so no handler of a page hangs but that
  of the black list.\<close>

lemma doHandleAcl_watched:
  assumes "watched_node nd" "doHandleAcl env b nd = Ret (resp, nd')"
  shows "watched_node nd'"
proof -
  have fsm: "watched g'" if "FSM_Apply (cluster env) (LogEntry_Encode \<lparr>Opt = 3, Data = d\<rparr>) g = Ret (err, g')" "watched g" for g g' d err
    using that by (auto simp: FSM_Apply_Encode FSM_doHandleAcl_def and_then_eq_Ret watched_def split: sum.splits if_splits)
  have log: "watched_node nd2" if "log_and_answer env 3 d nd1 = Ret (resp, nd2)" "watched_node nd1" for nd1 nd2 d resp
    using that fsm
    by (auto simp: log_and_answer_def writeLogEntry_def Let_def and_then_eq_Ret watched_node_def split: option.splits prod.splits)
  have set: "watched_node (set_gateway ((nd_gateway nd)\<lparr>black_list := t\<rparr>) nd)" for t
    using assms(1) by (simp add: watched_node_def watched_def)
  show ?thesis
    using assms log set by (auto simp: doHandleAcl_def Let_def and_then_eq_Ret split: if_splits sum.splits option.splits)
qed

lemma committed_serves_watched:
  assumes "committed_serves env conf files stringify content q nd r nd'" "watched_node nd"
    and "\<And>nd nd'. content nd' = content nd \<Longrightarrow> watched_node nd' = watched_node nd"
  shows "watched_node nd'"
proof -
  have "site_serves env conf files stringify content (snd q) nd r nd'" using assms(1) by (simp add: committed_serves_def)
  then show ?thesis
  proof (elim site_servesE, goal_cases)
    case (1 call resp)
    show ?case
    proof (cases "call_path call = ''/acl''")
      case True
      then have "doHandleAcl env (call_body call) nd = Ret (resp, nd')" using 1 by (simp add: serve_api_def Let_def)
      then show ?thesis by (rule doHandleAcl_watched [OF assms(2)])
    next
      case False
      have "fine (serve_api env conf files call nd)"
        by (rule serve_api_fine [OF _ False]) (use assms(2) in \<open>simp add: watched_node_def\<close>)
      then show ?thesis using 1 by simp
    qed
  next
    case (2 call p)
    show ?case using assms(3) [OF 2(4)] assms(2) by simp
  qed
qed

end
