(* ===== verification/FrontPage.thy ===== *)
theory FrontPage
  imports Browser NodeSteps
begin

text \<open>
  The front page as a whole: the tree of proxies, the dialog for a new proxy, the menu of a node
  and the dialog for a new host that the menu contains, wired together as the function
  \<open>Index\<close> of the bundle does, in front of the multiplexer of the server.
\<close>

record front_page =
  fp_index :: index_page
  fp_adding :: add_proxy_modal
  fp_menu :: bubble_dialog
  fp_hosting :: add_host_modal

definition Index_page :: front_page where
  "Index_page = \<lparr>fp_index = Index_init, fp_adding = AddProxyModal_init, fp_menu = BubbleDialog_init,
     fp_hosting = AddHostModal_init\<rparr>"

text \<open>Who sent a request and will get the answer. The two of \<open>Index\<close> itself are those for the node
  and for the tree.\<close>

datatype front_origin = FromInfo | FromTree | FromAdding | FromMenu | FromHosting

type_synonym front_request = "front_origin \<times> ui_effect"

text \<open>What an effect does to the page: a request is sent, \<open>getProxyInfo\<close> and \<open>close\<close> are the
  functions that the page passed down, and the menu opens its dialog.\<close>

fun front_effect :: "front_origin \<Rightarrow> ui_effect \<Rightarrow> front_page \<Rightarrow> front_page \<times> front_request list" where
  "front_effect origin (Get path) s = (s, [(origin, Get path)])"
| "front_effect origin (Post path members) s = (s, [(origin, Post path members)])"
| "front_effect origin RefreshProxies s = (s, [(FromTree, Get ''/proxy'')])"
| "front_effect origin CloseDialog s = (s\<lparr>fp_menu := (fp_menu s)\<lparr>bd_visible := False\<rparr>\<rparr>, [])"
| "front_effect origin (ShowAddHost p) s = (s\<lparr>fp_hosting := fst (AddHostModal_step (AH_showModal p) (fp_hosting s))\<rparr>, [])"
| "front_effect origin _ s = (s, [])"

fun front_effects :: "front_origin \<Rightarrow> ui_effect list \<Rightarrow> front_page \<Rightarrow> front_page \<times> front_request list" where
  "front_effects origin [] s = (s, [])"
| "front_effects origin (e # es) s =
     (let (s1, qs1) = front_effect origin e s; (s2, qs2) = front_effects origin es s1 in (s2, qs1 @ qs2))"

text \<open>What the user does. Nothing here asks whether a dialog is open or a menu entry hidden.\<close>

datatype front_event =
    ClickAdd
  | CancelAdd
  | TypePattern string
  | SelectBalance string
  | TypeTarget nat string
  | DeleteTarget nat
  | AddTarget
  | ConfirmAdd
  | RightClick int int tree_node
  | ClickMenu menu_entry
  | TypeHost string
  | CancelHost
  | ConfirmHost

fun Index_event :: "front_event \<Rightarrow> front_page \<Rightarrow> front_page \<times> front_request list" where
  "Index_event ClickAdd s = (s\<lparr>fp_adding := AddProxyModal_showModal (fp_adding s)\<rparr>, [])"
| "Index_event CancelAdd s = (s\<lparr>fp_adding := AddProxyModal_onCancel (fp_adding s)\<rparr>, [])"
| "Index_event (TypePattern v) s = (s\<lparr>fp_adding := AddProxyModal_typePattern v (fp_adding s)\<rparr>, [])"
| "Index_event (SelectBalance v) s = (s\<lparr>fp_adding := AddProxyModal_select v (fp_adding s)\<rparr>, [])"
| "Index_event (TypeTarget t v) s = (s\<lparr>fp_adding := AddProxyModal_type t v (fp_adding s)\<rparr>, [])"
| "Index_event (DeleteTarget t) s = (s\<lparr>fp_adding := AddProxyModal_delete t (fp_adding s)\<rparr>, [])"
| "Index_event AddTarget s = (s\<lparr>fp_adding := AddProxyModal_add (fp_adding s)\<rparr>, [])"
| "Index_event ConfirmAdd s =
     (let (m, es) = AddProxyModal_onOk (fp_adding s) in front_effects FromAdding es (s\<lparr>fp_adding := m\<rparr>))"
| "Index_event (RightClick x y node) s =
     (s\<lparr>fp_menu := BubbleDialog_showModal x y (isLeaf node) (node_pattern node) (node_host node) (fp_menu s)\<rparr>, [])"
| "Index_event (ClickMenu entry) s =
     (let (m, es) = menu_click entry (fp_menu s) in front_effects FromMenu es (s\<lparr>fp_menu := m\<rparr>))"
| "Index_event (TypeHost v) s = (s\<lparr>fp_hosting := fst (AddHostModal_step (AH_type v) (fp_hosting s))\<rparr>, [])"
| "Index_event CancelHost s = (s\<lparr>fp_hosting := fst (AddHostModal_step AH_onCancel (fp_hosting s))\<rparr>, [])"
| "Index_event ConfirmHost s =
     (let (m, es) = AddHostModal_step AH_onOk (fp_hosting s) in front_effects FromHosting es (s\<lparr>fp_hosting := m\<rparr>))"

text \<open>The callbacks of the requests.\<close>

fun Index_reply :: "front_request \<Rightarrow> reply \<Rightarrow> front_page \<Rightarrow> front_page \<times> front_request list" where
  "Index_reply (FromInfo, _) r s =
     (let (i, es) = Index_info r (fp_index s) in front_effects FromInfo es (s\<lparr>fp_index := i\<rparr>))"
| "Index_reply (FromTree, _) r s =
     (let (i, es) = getProxyInfo r (fp_index s) in front_effects FromTree es (s\<lparr>fp_index := i\<rparr>))"
| "Index_reply (FromAdding, _) r s =
     (let (m, es) = AddProxyModal_reply r (fp_adding s) in front_effects FromAdding es (s\<lparr>fp_adding := m\<rparr>))"
| "Index_reply (FromMenu, _) r s =
     (let (m, es) = menu_reply r (fp_menu s) in front_effects FromMenu es (s\<lparr>fp_menu := m\<rparr>))"
| "Index_reply (FromHosting, _) r s =
     (let (m, es) = AddHostModal_step (AH_reply r) (fp_hosting s) in front_effects FromHosting es (s\<lparr>fp_hosting := m\<rparr>))"

subsection \<open>What the page shows and what the node has\<close>

definition node_routes :: "('m, 'l, 'r) server_env \<Rightarrow> ('l, 'r) node \<Rightarrow> js set option" where
  "node_routes env nd =
     Some (String ` set (iter (cluster env) (dom (Relations (maps (nd_gateway nd) (current (nd_gateway nd)))))))"

definition shown_routes :: "front_page \<Rightarrow> js set option" where
  "shown_routes s = map_option (\<lambda>nodes. node_title ` set nodes) (tree_data (fp_index s))"

fun front_legal :: "front_request \<Rightarrow> bool" where
  "front_legal (FromInfo, e) \<longleftrightarrow> e = Get ''/info''"
| "front_legal (FromTree, e) \<longleftrightarrow> e = Get ''/proxy''"
| "front_legal (FromAdding, e) \<longleftrightarrow> (\<exists>members. e = Post ''/addProxy'' members)"
| "front_legal (FromMenu, e) \<longleftrightarrow> (\<exists>members. e = Post ''/removeProxy'' members \<or> e = Post ''/removeHost'' members)"
| "front_legal (FromHosting, e) \<longleftrightarrow> (\<exists>members. e = Post ''/addHost'' members)"

definition front_reads :: "front_request \<Rightarrow> bool" where
  "front_reads q \<longleftrightarrow> q = (FromTree, Get ''/proxy'')"

definition front_renews :: "front_request \<Rightarrow> reply \<Rightarrow> bool" where
  "front_renews q r \<longleftrightarrow> (\<exists>j. r = Reply j \<and> field j ''code'' \<noteq> None
     \<and> (fst q = FromHosting \<or> fst q \<in> {FromAdding, FromMenu} \<and> code_ok j))"

text \<open>The page after \<open>mount\<close> in front of a node.\<close>

definition front_opened :: "('l, 'r) node \<Rightarrow> (front_page, front_request, reply, ('l, 'r) node) browsing" where
  "front_opened nd = \<lparr>shown = Index_page, asked = zip [FromInfo, FromTree] Index_mount, answers = [], site = nd\<rparr>"

subsection \<open>The page keeps the contract\<close>

lemma shown_routes_cong: "tree_data (fp_index s) = tree_data (fp_index r) \<Longrightarrow> shown_routes s = shown_routes r"
  by (simp add: shown_routes_def)

lemma front_effect_tree: "front_effect origin e s = (s', qs) \<Longrightarrow> fp_index s' = fp_index s"
  by (cases e) auto

lemma front_effects_tree: "front_effects origin es s = (s', qs) \<Longrightarrow> fp_index s' = fp_index s"
  by (induction es arbitrary: s s' qs) (auto simp: Let_def split: prod.splits dest!: front_effect_tree)

lemma fst_front_effects [simp]: "fp_index (fst (front_effects origin es s)) = fp_index s"
  using front_effects_tree [of origin es s] by (cases "front_effects origin es s") simp

lemma Index_event_shows:
  assumes "Index_event ev s = (s', qs)"
  shows "shown_routes s' = shown_routes s"
proof -
  have "fp_index s' = fp_index s"
    using assms by (cases ev) (auto simp: Let_def split: prod.splits dest!: front_effects_tree)
  then show ?thesis by (simp add: shown_routes_def)
qed

lemma Index_event_legal:
  assumes "Index_event ev s = (s', qs)" "q \<in> set qs"
  shows "front_legal q"
proof (cases ev)
  case (ClickMenu entry)
  then show ?thesis using assms by (cases entry) (auto simp: Let_def)
qed (use assms in \<open>auto simp: AddProxyModal_onOk_def Let_def\<close>)

lemma Index_reply_shows:
  assumes "front_legal q" "\<not> front_reads q" "Index_reply q r s = (s', qs)"
  shows "shown_routes s' = shown_routes s"
proof (cases q rule: front_legal.cases)
  case (1 e)
  then have "tree_data (fp_index s') = tree_data (fp_index s)"
    using assms(3) by (auto simp: Index_info_def Let_def split: prod.splits reply.splits option.splits dest!: front_effects_tree)
  then show ?thesis by (rule shown_routes_cong)
qed (use assms in \<open>auto simp: front_reads_def Let_def intro!: shown_routes_cong split: prod.splits dest!: front_effects_tree\<close>)

lemma Index_reply_reads:
  assumes "front_legal q" "Index_reply q r s = (s', qs)"
  shows "length qs \<le> 1 \<and> (\<forall>x \<in> set qs. front_legal x \<and> front_reads x)"
  using assms
  by (cases q rule: front_legal.cases; cases r)
    (auto simp: Index_info_def getProxyInfo_def AddProxyModal_reply_def menu_reply_def with_data_def front_reads_def Let_def
      split: if_splits option.splits)

lemma Index_reply_renews:
  assumes "front_renews q r" "Index_reply q r s = (s', qs)"
  shows "\<exists>x \<in> set qs. front_reads x"
  using assms
  by (cases q rule: front_legal.cases)
    (auto simp: front_renews_def AddProxyModal_reply_def menu_reply_def with_data_def front_reads_def Let_def
      split: if_splits)

lemma getProxyInfo_replaces:
  "(\<exists>nodes. \<forall>s. tree_data (fst (getProxyInfo r s)) = Some nodes) \<or> (\<forall>s. tree_data (fst (getProxyInfo r s)) = tree_data s)"
  by (auto simp: getProxyInfo_def split: reply.splits option.splits)

lemma Index_reply_tree:
  "tree_data (fp_index (fst (Index_reply q r s)))
    = (if fst q = FromTree then tree_data (fst (getProxyInfo r (fp_index s))) else tree_data (fp_index s))"
proof (cases q rule: front_legal.cases)
  case (1 e)
  then show ?thesis
    by (auto simp: Index_info_def Let_def split: prod.splits reply.splits option.splits dest!: front_effects_tree)
qed (auto simp: Let_def split: prod.splits dest!: front_effects_tree)

lemma tree_read_shows:
  assumes "front_reads q" "committed_serves env conf files stringify content q nd r nd'"
  shows "nd' = nd \<and> tree_data (fst (getProxyInfo r s)) = Some (route_nodes env nd)"
proof -
  obtain j where j: "doGetProxy env nd = Ret (Json j, nd)"
    "\<And>s. getProxyInfo (Reply j) s = (s\<lparr>tree_data := Some (route_nodes env nd)\<rparr>, [])"
    using doGetProxy_tree [of env nd] by auto
  have "site_serves env conf files stringify content (Get ''/proxy'') nd r nd'"
    using assms by (simp add: front_reads_def committed_serves_def)
  then show ?thesis
    by (elim site_servesE) (auto simp: serve_api_def Let_def j)
qed

lemma node_routes_nodes: "node_routes env nd = Some (node_title ` set (route_nodes env nd))"
  by (simp add: node_routes_def route_nodes_def image_image)

lemma node_routes_set:
  "maps g = maps (nd_gateway nd) \<Longrightarrow> current g = current (nd_gateway nd) \<Longrightarrow> node_routes env (set_gateway g nd) = node_routes env nd"
  by (simp add: node_routes_def)

lemma RemoveProxy_refused: "RemoveProxy m order pattern g = Ret (Some e, g') \<Longrightarrow> g' = g"
  by (auto simp: RemoveProxy_def Let_def split: option.splits if_splits)

text \<open>A handler that changes the routes of the node acknowledges it.\<close>

lemma doAddProxy_acknowledged:
  "doAddProxy env b nd = Ret (resp, nd') \<Longrightarrow> nd' = nd \<or> resp = ok"
  by (auto simp: doAddProxy_def and_then_eq_Ret split: if_splits sum.splits option.splits)

lemma doRemoveProxy_acknowledged:
  assumes "committing env nd" "doRemoveProxy env b nd = Ret (resp, nd')"
  shows "node_routes env nd' = node_routes env nd \<or> resp = ok"
  using assms log_and_answer_committing [of env "set_gateway g nd" for g] RemoveProxy_refused
  by (fastforce simp: doRemoveProxy_def Let_def and_then_eq_Ret node_routes_set split: sum.splits option.splits)

lemma doRemoveHost_acknowledged:
  assumes "committing env nd" "doRemoveHost env b nd = Ret (resp, nd')"
  shows "node_routes env nd' = node_routes env nd \<or> resp = ok"
  using assms log_and_answer_committing [of env "set_gateway g nd" for g] RemoveHost_same_table
  by (fastforce simp: doRemoveHost_def Let_def and_then_eq_Ret node_routes_set split: sum.splits option.splits)

lemma doAddHost_answers:
  assumes "committing env nd" "doAddHost env b nd = Ret (resp, nd')"
  shows "\<exists>R. resp = Json (R_Marshal R)"
  using assms log_and_answer_committing [of env "set_gateway g nd" for g]
  by (fastforce simp: doAddHost_def Let_def fail_def ok_def split: sum.splits prod.splits option.splits)

lemma write_acknowledged:
  assumes "front_legal q" "\<not> front_reads q" "committed_serves env conf files stringify (node_routes env) q nd r nd'"
  shows "node_routes env nd' = node_routes env nd \<or> front_renews q r"
proof -
  have com: "committing env nd" using assms(3) by (simp add: committed_serves_def)
  from assms(3) have "site_serves env conf files stringify (node_routes env) (snd q) nd r nd'" by (simp add: committed_serves_def)
  then show ?thesis
  proof (elim site_servesE, goal_cases)
    case (1 call resp)
    note answer = 1
    show ?case
    proof (cases q rule: front_legal.cases)
      case (1 e)
      then show ?thesis using answer assms(1) by (auto simp: serve_api_def doGetInfo_def Let_def)
    next
      case (2 e)
      then show ?thesis using assms(1,2) by (simp add: front_reads_def)
    next
      case (3 e)
      then show ?thesis
        using answer assms(1) doAddProxy_acknowledged [of env "call_body call" nd resp nd']
        by (auto simp: serve_api_def front_renews_def Let_def)
    next
      case (4 e)
      then show ?thesis
        using answer assms(1) doRemoveProxy_acknowledged [OF com, of "call_body call" resp nd']
          doRemoveHost_acknowledged [OF com, of "call_body call" resp nd']
        by (auto simp: serve_api_def front_renews_def Let_def)
    next
      case (5 e)
      then show ?thesis
        using answer assms(1) doAddHost_answers [OF com, of "call_body call" resp nd']
        by (auto simp: serve_api_def front_renews_def Let_def)
    qed
  qed simp
qed

interpretation front: refreshing_view Index_event "committed_serves env conf files stringify (node_routes env)" Index_reply
    "keeps_content (node_routes env)" "node_routes env" shown_routes front_legal front_reads front_renews
  for env :: "('m, 'l, 'r) server_env" and conf files stringify
proof (unfold_locales, goal_cases)
  case (1 ev p p' qs)
  then show ?case by (rule Index_event_shows)
next
  case (2 ev p p' qs q)
  then show ?case by (rule Index_event_legal)
next
  case (3 q s a s')
  then show ?case using tree_read_shows [OF 3] by simp
next
  case (4 q s a s' p p' qs)
  then have "tree_data (fp_index p') = Some (route_nodes env s)"
    using tree_read_shows [OF 4(1,2), of "fp_index p"] Index_reply_tree [of q a p] by (simp add: front_reads_def)
  then show ?case using tree_read_shows [OF 4(1,2)] by (simp add: shown_routes_def node_routes_nodes)
next
  case (5 q a p p' qs)
  then show ?case
    by (cases a) (auto simp: front_reads_def getProxyInfo_def Let_def split: option.splits)
next
  case (6 q a p p' qs)
  then show ?case by (rule Index_reply_shows)
next
  case (7 q s a s')
  then show ?case by (rule write_acknowledged)
next
  case (8 q a p p' qs)
  then show ?case by (rule Index_reply_renews)
next
  case (9 q a p p' qs)
  then show ?case by (rule Index_reply_reads)
next
  case (10 p r q a)
  then show ?case
    using getProxyInfo_replaces [of a] by (auto simp: shown_routes_def Index_reply_tree)
next
  case (11 s s')
  then show ?case by (simp add: keeps_content_def)
qed

subsection \<open>The front page shows the routes of the node\<close>

lemma front_opened_lawful:
  "front.lawful (front_opened nd)" "\<exists>q \<in> set (asked (front_opened nd)). front_reads q"
  by (simp_all add: front.lawful_def front_opened_def Index_mount_def front_reads_def)

lemma Index_info_reply: "\<exists>i. Index_reply (FromInfo, e) (Reply j) Index_page = (Index_page\<lparr>fp_index := i\<rparr>, [])"
  by (cases "Option.bind (field j ''data'') (\<lambda>d. field d ''info'')") (auto simp: Index_info_def Index_page_def)

text \<open>Loading the page, whatever the way in which requests are served.\<close>

lemma front_loads:
  assumes "\<And>q call resp nd'. q \<in> set (zip [FromInfo, FromTree] Index_mount) \<Longrightarrow> ui_call stringify (snd q) = Some call
      \<Longrightarrow> serve_api env conf files call nd = Ret (resp, nd') \<Longrightarrow> serves q nd (reply_of resp) nd'"
  shows "\<exists>i. browsed Index_event serves Index_reply quiet (front_opened nd)
      \<lparr>shown = Index_page\<lparr>fp_index := i\<rparr>, asked = [], answers = [], site = nd\<rparr>
    \<and> tree_data i = Some (route_nodes env nd)"
proof -
  obtain j where j: "doGetProxy env nd = Ret (Json j, nd)"
    "\<And>s. getProxyInfo (Reply j) s = (s\<lparr>tree_data := Some (route_nodes env nd)\<rparr>, [])"
    using doGetProxy_tree [of env nd] by auto
  obtain i where i: "doGetInfo env conf nd = Ret (Json i, nd)" by (auto simp: doGetInfo_def Let_def)
  let ?call = "\<lambda>p. \<lparr>call_path = p, call_body = [], call_query = (\<lambda>_. [])\<rparr>"
  have sv: "serves (FromInfo, Get ''/info'') nd (Reply i) nd" "serves (FromTree, Get ''/proxy'') nd (Reply j) nd"
    using assms [of "(FromInfo, Get ''/info'')" "?call ''/info''" "Json i" nd]
      assms [of "(FromTree, Get ''/proxy'')" "?call ''/proxy''" "Json j" nd]
    by (simp_all add: Index_mount_def serve_api_def i j(1) Let_def)
  have opened: "front_opened nd = \<lparr>shown = Index_page, asked = [(FromInfo, Get ''/info''), (FromTree, Get ''/proxy'')], answers = [], site = nd\<rparr>"
    by (simp add: front_opened_def Index_mount_def)
  obtain i1 where i1: "Index_reply (FromInfo, Get ''/info'') (Reply i) Index_page = (Index_page\<lparr>fp_index := i1\<rparr>, [])"
    using Index_info_reply by blast
  let ?i = "i1\<lparr>tree_data := Some (route_nodes env nd)\<rparr>"
  have i2: "Index_reply (FromTree, Get ''/proxy'') (Reply j) (Index_page\<lparr>fp_index := i1\<rparr>) = (Index_page\<lparr>fp_index := ?i\<rparr>, [])"
    by (simp add: j(2))
  have "browsed Index_event serves Index_reply quiet (front_opened nd)
      \<lparr>shown = Index_page, asked = [(FromInfo, Get ''/info''), (FromTree, Get ''/proxy'')], answers = [], site = nd\<rparr>"
    unfolding opened by (rule browsed.opened)
  from browsed_two [of Index_event serves Index_reply quiet, OF this sv i1 i2]
  show ?thesis by (intro exI [of _ ?i]) simp
qed

text \<open>The front page shows the routes of the node. The user may work with the tree, the menu
  and the two dialogs in any order, also while requests are on the way and also with what the
  server refuses, and the node may do on its own whatever leaves its routes alone; whenever
  nothing is on the way, the tree has exactly the routes of the node.\<close>

theorem front_page_settles:
  assumes "browsed Index_event (committed_serves env conf files stringify (node_routes env)) Index_reply
      (keeps_content (node_routes env)) (front_opened nd) c"
    and "settled c"
  shows "shown_routes (shown c) = node_routes env (site c)"
  using assms by (rule front.settles [OF _ front_opened_lawful])

theorem front_page_settles_witness:
  "\<exists>c. browsed Index_event (committed_serves demo_server demo_conf (\<lambda>_. Status 404) demo_stringify (node_routes demo_server)) Index_reply
      (keeps_content (node_routes demo_server)) (front_opened demo_node) c
    \<and> shown_routes (shown c) = Some {String ''/api''} \<and> \<not> settled (front_opened demo_node)"
proof -
  let ?serves = "committed_serves demo_server demo_conf (\<lambda>_. Status 404) demo_stringify (node_routes demo_server)"
  let ?quiet = "keeps_content (node_routes demo_server)"
  have "?serves q demo_node (reply_of resp) nd'"
    if "ui_call demo_stringify (snd q) = Some call" "serve_api demo_server demo_conf (\<lambda>_. Status 404) call demo_node = Ret (resp, nd')"
    for q :: front_request and call resp nd'
    using site_serves.answered [OF that] by (simp add: committed_serves_def committing_def demo_server_def)
  then obtain i where i: "browsed Index_event ?serves Index_reply ?quiet (front_opened demo_node)
      \<lparr>shown = Index_page\<lparr>fp_index := i\<rparr>, asked = [], answers = [], site = demo_node\<rparr>"
    using front_loads [where nd = demo_node and serves = ?serves and quiet = ?quiet and env = demo_server
        and conf = demo_conf and files = "\<lambda>_. Status 404" and stringify = demo_stringify] by blast
  let ?c = "\<lparr>shown = Index_page\<lparr>fp_index := i\<rparr>, asked = [], answers = [], site = demo_node\<rparr>"
  have "shown_routes (shown ?c) = node_routes demo_server (site ?c)"
    using front_page_settles [OF i] by (simp add: settled_def)
  moreover have "node_routes demo_server demo_node = Some {String ''/api''}"
    by (simp add: node_routes_def demo_server_def demo_env_def demo_node_def demo_served_def demo_gateway_def NewProxyMap_def)
  ultimately show ?thesis using i by (intro exI [of _ ?c]) (simp add: settled_def front_opened_def Index_mount_def)
qed

lemma front_legal_call: "front_legal q \<Longrightarrow> \<exists>call. ui_call stringify (snd q) = Some call \<and> call_path call \<noteq> ''/acl''"
  by (cases q rule: front_legal.cases) auto

text \<open>The routes, and whether the goroutines of the proxies wait: neither has been touched when a
  handler panics.\<close>

definition watched_routes :: "('m, 'l, 'r) server_env \<Rightarrow> ('l, 'r) node \<Rightarrow> js set option \<times> bool" where
  "watched_routes env nd = (node_routes env nd, watched_node nd)"



subsection \<open>Where the page is wrong\<close>

text \<open>An answer that is overtaken by a later one brings the old tree back: nothing tells the page
  which of two answers is the newer one.\<close>

lemma late_answer_shows_old_routes:
  assumes "doGetProxy env nd = Ret (Json j, nd)"
  shows "shown_routes (fst (Index_reply (FromTree, e) (Reply j) (fst (Index_reply (FromTree, e') r s)))) = node_routes env nd"
proof -
  obtain k where k: "doGetProxy env nd = Ret (Json k, nd)"
    "\<And>s. getProxyInfo (Reply k) s = (s\<lparr>tree_data := Some (route_nodes env nd)\<rparr>, [])"
    using doGetProxy_tree [of env nd] by auto
  then have "\<And>s. getProxyInfo (Reply j) s = (s\<lparr>tree_data := Some (route_nodes env nd)\<rparr>, [])" using assms by simp
  then show ?thesis by (simp add: shown_routes_def node_routes_nodes)
qed

text \<open>A removal that the raft library refuses is done on the node nevertheless, but the page,
  which only shows the error, keeps the route in its tree.\<close>

lemma refused_removal_not_shown:
  assumes "good_gateway (nd_gateway nd)" "own_proxy (bd_pattern m) nd = Some p"
    and "dec_pattern env (stringify [(''pattern'', String (bd_pattern m))]) = Inr (bd_pattern m)"
    and "\<And>r bytes. fst (raft_Apply env r bytes) = Some e"
    and "fp_menu s = m"
  shows "\<exists>j nd'. answer env conf stringify (snd (menu_click DeleteProxy m)) nd = Some (Ret (Json j, nd'))
    \<and> own_proxy (bd_pattern m) nd' = None
    \<and> (let (s', qs) = Index_reply (FromMenu, Post ''/removeProxy'' members) (Reply j) s
       in qs = [] \<and> shown_routes s' = shown_routes s)"
proof -
  let ?g = "nd_gateway nd" and ?pat = "bd_pattern m"
  obtain err g' where g': "RemoveProxy (current ?g) (remove_order (cluster env) ?pat ?g) ?pat ?g = Ret (err, g')"
    "view g' = spec_remove_proxy ?pat (view ?g)"
    using RemoveProxy_refines [OF assms(1), of "remove_order (cluster env) ?pat ?g" ?pat] by blast
  have err: "err = None"
    using g'(1) assms(2) by (auto simp: RemoveProxy_def own_proxy_def Let_def split: option.splits if_splits)
  let ?bytes = "LogEntry_Encode \<lparr>Opt = 4, Data = bytes_of ?pat\<rparr>"
  obtain r' where r': "raft_Apply env (raft_state nd) ?bytes = (Some e, r')"
    using assms(4) [of "raft_state nd" ?bytes] by (cases "raft_Apply env (raft_state nd) ?bytes") simp
  let ?nd' = "(set_gateway g' nd)\<lparr>raft_state := r'\<rparr>"
  have nd': "doRemoveProxy env (stringify [(''pattern'', String ?pat)]) nd = Ret (fail env 500 (CantApply e), ?nd')"
    using assms(3) g'(1) err r' by (simp add: doRemoveProxy_def log_and_answer_def writeLogEntry_def Let_def)
  have "v_hosts (view g') ?pat = None" using g'(2) by (simp add: spec_remove_proxy_def)
  then have gone: "own_proxy ?pat ?nd' = None" by (simp add: own_proxy_def v_hosts_view)
  let ?j = "R_Marshal (R_Error 500 (error_text env (CantApply e)))"
  have "answer env conf stringify (snd (menu_click DeleteProxy m)) nd = Some (Ret (Json ?j, ?nd'))"
    using nd' by (simp add: serve_api_def fail_def Let_def)
  moreover have "let (s', qs) = Index_reply (FromMenu, Post ''/removeProxy'' members) (Reply ?j) s
      in qs = [] \<and> shown_routes s' = shown_routes s"
    by (simp add: menu_reply_def with_data_def shown_routes_def)
  ultimately show ?thesis using gone by blast
qed

end
