(* ===== verification/AclPage.thy ===== *)
theory AclPage
  imports Browser
begin

text \<open>
  The page of the black list as a whole: the table of addresses, whose rows can be deleted after a
  question, and the dialogs that insert and delete an address, wired together as the function
  \<open>AccessList\<close> of the bundle does, in front of the multiplexer of the server.
\<close>

record acl_page =
  al_rows :: "acl_row list"
  al_insert :: acl_insert_modal
  al_delete :: acl_delete_modal

definition AccessList_page :: acl_page where
  "AccessList_page = \<lparr>al_rows = [], al_insert = AccessControlInsertModal_init, al_delete = AccessControlDeleteModal_init\<rparr>"

definition AccessList_mount :: "ui_effect list" where
  "AccessList_mount = [Get ''/getAcl'']"

text \<open>The requests for the list, from the two dialogs, and from the question of a row.\<close>

datatype acl_origin = FromList | FromInsert | FromDelete | FromRow

type_synonym acl_request = "acl_origin \<times> ui_effect"

text \<open>The requests among the effects; \<open>getAclList\<close> is the function that the page passed down.\<close>

fun acl_effect :: "acl_origin \<Rightarrow> ui_effect \<Rightarrow> acl_request list" where
  "acl_effect origin (Get path) = [(origin, Get path)]"
| "acl_effect origin (Post path members) = [(origin, Post path members)]"
| "acl_effect origin RefreshAcl = [(FromList, Get ''/getAcl'')]"
| "acl_effect origin _ = []"

definition acl_effects :: "acl_origin \<Rightarrow> ui_effect list \<Rightarrow> acl_request list" where
  "acl_effects origin es = concat (map (acl_effect origin) es)"

datatype acl_event =
    ClickInsert
  | CancelInsert
  | SelectKind int
  | TypeAddress string
  | TypeMask string
  | ConfirmInsert
  | ClickDelete
  | CancelDelete
  | TypeDeleted string
  | ConfirmDelete
  | ConfirmRow acl_row

fun AccessList_event :: "acl_event \<Rightarrow> acl_page \<Rightarrow> acl_page \<times> acl_request list" where
  "AccessList_event ClickInsert s = (s\<lparr>al_insert := AccessControlInsertModal_showModal (al_insert s)\<rparr>, [])"
| "AccessList_event CancelInsert s = (s\<lparr>al_insert := AccessControlInsertModal_onCancel (al_insert s)\<rparr>, [])"
| "AccessList_event (SelectKind k) s = (s\<lparr>al_insert := AccessControlInsertModal_select k (al_insert s)\<rparr>, [])"
| "AccessList_event (TypeAddress v) s = (s\<lparr>al_insert := AccessControlInsertModal_typeAddress v (al_insert s)\<rparr>, [])"
| "AccessList_event (TypeMask v) s = (s\<lparr>al_insert := AccessControlInsertModal_typeMask v (al_insert s)\<rparr>, [])"
| "AccessList_event ConfirmInsert s =
     (let (m, es) = AccessControlInsertModal_onOk (al_insert s) in (s\<lparr>al_insert := m\<rparr>, acl_effects FromInsert es))"
| "AccessList_event ClickDelete s = (s\<lparr>al_delete := AccessControlDeleteModal_showModal (al_delete s)\<rparr>, [])"
| "AccessList_event CancelDelete s = (s\<lparr>al_delete := AccessControlDeleteModal_onCancel (al_delete s)\<rparr>, [])"
| "AccessList_event (TypeDeleted v) s = (s\<lparr>al_delete := AccessControlDeleteModal_typeAddress v (al_delete s)\<rparr>, [])"
| "AccessList_event ConfirmDelete s =
     (let (m, es) = AccessControlDeleteModal_onOk (al_delete s) in (s\<lparr>al_delete := m\<rparr>, acl_effects FromDelete es))"
| "AccessList_event (ConfirmRow row) s = (s, acl_effects FromRow (AccessList_onConfirm row))"

fun AccessList_answer :: "acl_request \<Rightarrow> reply \<Rightarrow> acl_page \<Rightarrow> acl_page \<times> acl_request list" where
  "AccessList_answer (FromList, _) r s =
     (let (rows, es) = getAclList_reply r (al_rows s) in (s\<lparr>al_rows := rows\<rparr>, acl_effects FromList es))"
| "AccessList_answer (FromInsert, _) r s =
     (let (m, es) = AccessControlInsertModal_reply r (al_insert s) in (s\<lparr>al_insert := m\<rparr>, acl_effects FromInsert es))"
| "AccessList_answer (FromDelete, _) r s =
     (let (m, es) = AccessControlDeleteModal_reply r (al_delete s) in (s\<lparr>al_delete := m\<rparr>, acl_effects FromDelete es))"
| "AccessList_answer (FromRow, _) r s = (s, acl_effects FromRow (AccessList_reply r))"

subsection \<open>What the page shows and what the node has\<close>

text \<open>The key set of the black list.\<close>

definition node_blocks :: "('m, 'l, 'r) server_env \<Rightarrow> ('l, 'r) node \<Rightarrow> js set" where
  "node_blocks env nd = String ` set (iter (cluster env) (dom (Record (black_list (nd_gateway nd)))))"

definition shown_blocks :: "acl_page \<Rightarrow> js set" where
  "shown_blocks s = row_ipAddress ` set (al_rows s)"

definition acl_legal :: "acl_request \<Rightarrow> bool" where
  "acl_legal q \<longleftrightarrow> (if fst q = FromList then snd q = Get ''/getAcl'' else (\<exists>members. snd q = Post ''/acl'' members))"

definition acl_reads :: "acl_request \<Rightarrow> bool" where
  "acl_reads q \<longleftrightarrow> q = (FromList, Get ''/getAcl'')"

definition acl_renews :: "acl_request \<Rightarrow> reply \<Rightarrow> bool" where
  "acl_renews q r \<longleftrightarrow> fst q \<noteq> FromList \<and> (\<exists>j. r = Reply j \<and> field j ''code'' \<noteq> None \<and> code_ok j)"

definition acl_opened :: "('l, 'r) node \<Rightarrow> (acl_page, acl_request, reply, ('l, 'r) node) browsing" where
  "acl_opened nd = \<lparr>shown = AccessList_page, asked = acl_effects FromList AccessList_mount, answers = [], site = nd\<rparr>"

subsection \<open>The page keeps the contract\<close>

lemma acl_effects_simps [simp]:
  "acl_effects origin [] = []" "acl_effects origin (e # es) = acl_effect origin e @ acl_effects origin es"
  by (simp_all add: acl_effects_def)

lemma AccessList_event_rows: "AccessList_event ev s = (s', qs) \<Longrightarrow> al_rows s' = al_rows s"
  by (cases ev) (auto simp: Let_def split: prod.splits)

lemma AccessList_event_legal:
  "AccessList_event ev s = (s', qs) \<Longrightarrow> q \<in> set qs \<Longrightarrow> acl_legal q"
  by (cases ev) (auto simp: acl_legal_def AccessControlInsertModal_onOk_def AccessControlDeleteModal_onOk_def
      AccessList_onConfirm_def Let_def)

lemma AccessList_answer_rows:
  "al_rows (fst (AccessList_answer q r s)) = (if fst q = FromList then fst (getAclList_reply r (al_rows s)) else al_rows s)"
  by (cases q; cases "fst q") (auto simp: Let_def split: prod.splits)

lemma AccessList_answer_reads:
  "acl_legal q \<Longrightarrow> AccessList_answer q r s = (s', qs) \<Longrightarrow> length qs \<le> 1 \<and> (\<forall>x \<in> set qs. acl_legal x \<and> acl_reads x)"
  by (cases q; cases "fst q"; cases r)
    (auto simp: getAclList_reply_def AccessControlInsertModal_reply_def AccessControlDeleteModal_reply_def AccessList_reply_def
      with_data_def acl_legal_def acl_reads_def Let_def split: if_splits option.splits)

lemma AccessList_answer_renews:
  "acl_renews q r \<Longrightarrow> AccessList_answer q r s = (s', qs) \<Longrightarrow> \<exists>x \<in> set qs. acl_reads x"
  by (cases q; cases "fst q")
    (auto simp: AccessControlInsertModal_reply_def AccessControlDeleteModal_reply_def AccessList_reply_def
      with_data_def acl_renews_def acl_reads_def Let_def split: if_splits)

lemma getAclList_replaces:
  "(\<exists>rows. \<forall>s. fst (getAclList_reply r s) = rows) \<or> (\<forall>s. fst (getAclList_reply r s) = s)"
  by (auto simp: getAclList_reply_def with_data_def split: reply.splits option.splits)

lemma doGetAccessControlList_rows:
  "\<exists>j. doGetAccessControlList env nd = Ret (Json j, nd)
    \<and> (\<forall>rows. row_ipAddress ` set (fst (getAclList_reply (Reply j) rows)) = node_blocks env nd \<and> snd (getAclList_reply (Reply j) rows) = [])"
proof -
  let ?xs = "iter (cluster env) (dom (Record (black_list (nd_gateway nd))))"
  let ?j = "R_Marshal (Put ''list'' (Array (map String ?xs)) Ok)"
  have rows: "getAclList_reply (Reply ?j) rows
      = (map (\<lambda>i. \<lparr>row_key = Itoa i, row_ipAddress = String (?xs ! i)\<rparr>) [0..<length ?xs], [])" for rows
    by (simp add: getAclList_reply_def with_data_def code_ok_def R_Marshal_def Put_def Ok_def)
  have texts: "map (\<lambda>i. String (?xs ! i)) [0..<length ?xs] = map String ?xs" by (rule nth_equalityI) simp_all
  have "row_ipAddress ` set (fst (getAclList_reply (Reply ?j) rows)) = node_blocks env nd" for rows
    using arg_cong [OF texts, of set] by (simp add: rows node_blocks_def image_image)
  moreover have "doGetAccessControlList env nd = Ret (Json ?j, nd)" by (simp add: doGetAccessControlList_def)
  ultimately show ?thesis by (intro exI [of _ ?j]) (simp add: rows)
qed

text \<open>What the handler does to the key set it acknowledges.\<close>

lemma RadixTree_delete_False: "RadixTree_delete k m t = Ret (False, t') \<Longrightarrow> t' = t"
  by (auto simp: RadixTree_delete_def and_then_eq_Ret split: option.splits if_splits)

lemma RadixTree_Add_refused: "RadixTree_Add x v t = Ret (Some e, t') \<Longrightarrow> t' = t"
  by (auto simp: RadixTree_Add_def Let_def and_then_eq_Ret split: if_splits sum.splits)

lemma RadixTree_Delete_refused: "RadixTree_Delete x t = Ret (Some e, t') \<Longrightarrow> t' = t"
  by (auto simp: RadixTree_Delete_def Let_def and_then_eq_Ret split: if_splits sum.splits dest: RadixTree_delete_False)

lemma doHandleAcl_acknowledged:
  assumes "committing env nd" "doHandleAcl env b nd = Ret (resp, nd')"
  shows "nd' = nd \<or> resp = ok"
proof (cases "checkWritePermission nd \<and> (\<exists>req. dec_acl (cluster env) b = Inr req)")
  case True
  then obtain req where req: "dec_acl (cluster env) b = Inr req" by blast
  let ?t = "black_list (nd_gateway nd)"
  let ?m = "if acl_Pattern req = 0 then RadixTree_Delete (IpAddress req) ?t else RadixTree_Add (IpAddress req) (IpAddress req) ?t"
  let ?nd = "\<lambda>t. set_gateway ((nd_gateway nd)\<lparr>black_list := t\<rparr>) nd"
  obtain err t' where t': "?m = Ret (err, t')"
    "(case err of Some e \<Rightarrow> Ret (fail env 500 (FromAcl e), ?nd t') | None \<Rightarrow> log_and_answer env 3 (enc_acl (cluster env) req) (?nd t')) = Ret (resp, nd')"
    using assms(2) True by (auto simp: doHandleAcl_def req Let_def and_then_eq_Ret)
  show ?thesis
  proof (cases err)
    case None
    then show ?thesis using t'(2) log_and_answer_committing [of env "?nd t'"] assms(1) by simp
  next
    case (Some e)
    then have "t' = ?t" using t'(1) RadixTree_Add_refused RadixTree_Delete_refused by (auto split: if_splits)
    then show ?thesis using t'(2) Some by (simp add: set_gateway_def)
  qed
qed (use assms(2) in \<open>auto simp: doHandleAcl_def split: sum.splits if_splits\<close>)

lemma list_read_shows:
  assumes "acl_reads q" "committed_serves env conf files stringify content q nd r nd'"
  shows "nd' = nd \<and> row_ipAddress ` set (fst (getAclList_reply r rows)) = node_blocks env nd"
proof -
  have "site_serves env conf files stringify content (Get ''/getAcl'') nd r nd'"
    using assms by (simp add: acl_reads_def committed_serves_def)
  moreover obtain j where "doGetAccessControlList env nd = Ret (Json j, nd)"
    "row_ipAddress ` set (fst (getAclList_reply (Reply j) rows)) = node_blocks env nd"
    using doGetAccessControlList_rows [of env nd] by blast
  ultimately show ?thesis
    by (elim site_servesE; clarsimp simp: serve_api_def Let_def)
qed

lemma acl_write_acknowledged:
  assumes "acl_legal q" "\<not> acl_reads q" "committed_serves env conf files stringify (node_blocks env) q nd r nd'"
  shows "node_blocks env nd' = node_blocks env nd \<or> acl_renews q r"
proof -
  have com: "committing env nd" and serves: "site_serves env conf files stringify (node_blocks env) (snd q) nd r nd'"
    using assms(3) by (simp_all add: committed_serves_def)
  obtain members where q: "fst q \<noteq> FromList" "snd q = Post ''/acl'' members"
    using assms(1,2) by (cases q) (auto simp: acl_legal_def acl_reads_def split: if_splits)
  show ?thesis
    using serves
  proof (elim site_servesE, goal_cases)
    case (1 call resp)
    then have "doHandleAcl env (call_body call) nd = Ret (resp, nd')"
      using q(2) by (auto simp: serve_api_def Let_def)
    from doHandleAcl_acknowledged [OF com this] show ?case
      using 1 q(1) by (auto simp: acl_renews_def)
  qed simp
qed

interpretation acls: refreshing_view AccessList_event "committed_serves env conf files stringify (node_blocks env)" AccessList_answer
    "keeps_content (node_blocks env)" "node_blocks env" shown_blocks acl_legal acl_reads acl_renews
  for env :: "('m, 'l, 'r) server_env" and conf files stringify
proof (unfold_locales, goal_cases)
  case (1 ev p p' qs)
  then show ?case by (simp add: shown_blocks_def AccessList_event_rows)
next
  case (2 ev p p' qs q)
  then show ?case by (rule AccessList_event_legal)
next
  case (3 q s a s')
  then show ?case using list_read_shows [OF 3] by simp
next
  case (4 q s a s' p p' qs)
  then show ?case
    using list_read_shows [OF 4(1,2), of "al_rows p"] AccessList_answer_rows [of q a p] by (simp add: acl_reads_def shown_blocks_def)
next
  case (5 q a p p' qs)
  then show ?case
    by (cases a) (auto simp: acl_reads_def getAclList_reply_def with_data_def Let_def split: if_splits option.splits)
next
  case (6 q a p p' qs)
  then have "fst q \<noteq> FromList" by (cases q) (auto simp: acl_legal_def acl_reads_def split: if_splits)
  with 6(3) show ?case using AccessList_answer_rows [of q a p] by (simp add: shown_blocks_def)
next
  case (7 q s a s')
  then show ?case by (rule acl_write_acknowledged)
next
  case (8 q a p p' qs)
  then show ?case by (rule AccessList_answer_renews)
next
  case (9 q a p p' qs)
  then show ?case by (rule AccessList_answer_reads)
next
  case (10 p r q a)
  then show ?case using getAclList_replaces [of a] by (elim disjE exE) (simp_all add: shown_blocks_def AccessList_answer_rows)
next
  case (11 s s')
  then show ?case by (simp add: keeps_content_def)
qed

subsection \<open>The page shows the key set of the black list\<close>

lemma acl_opened_lawful:
  "acls.lawful (acl_opened nd)" "\<exists>q \<in> set (asked (acl_opened nd)). acl_reads q"
  by (simp_all add: acls.lawful_def acl_opened_def AccessList_mount_def acl_reads_def acl_legal_def)

text \<open>Reading the list, whatever the way in which requests are served.\<close>

lemma acl_reads_list:
  assumes "browsed AccessList_event serves AccessList_answer quiet c0
      \<lparr>shown = s, asked = [(FromList, Get ''/getAcl'')], answers = [], site = nd\<rparr>"
    and "\<And>resp. serve_api env conf files \<lparr>call_path = ''/getAcl'', call_body = [], call_query = (\<lambda>_. [])\<rparr> nd = Ret (resp, nd)
      \<Longrightarrow> serves (FromList, Get ''/getAcl'') nd (reply_of resp) nd"
  shows "\<exists>rows. browsed AccessList_event serves AccessList_answer quiet c0
      \<lparr>shown = s\<lparr>al_rows := rows\<rparr>, asked = [], answers = [], site = nd\<rparr>"
proof -
  obtain j where j: "doGetAccessControlList env nd = Ret (Json j, nd)" "snd (getAclList_reply (Reply j) (al_rows s)) = []"
    using doGetAccessControlList_rows [of env nd] by blast
  have "serves (FromList, Get ''/getAcl'') nd (Reply j) nd"
    using assms(2) [of "Json j"] j(1) by (simp add: serve_api_def Let_def)
  moreover have "AccessList_answer (FromList, Get ''/getAcl'') (Reply j) s
      = (s\<lparr>al_rows := fst (getAclList_reply (Reply j) (al_rows s))\<rparr>, [])"
    using j(2) by (cases "getAclList_reply (Reply j) (al_rows s)") (simp add: Let_def)
  ultimately show ?thesis using browsed_exchange [OF assms(1)] by blast
qed

text \<open>C11: the page of the black list shows its key set. Whatever is inserted and deleted with the
  two dialogs and in the rows, also while requests are on the way and also with addresses that
  the server refuses, whenever nothing is on the way the rows are exactly the keys of the node.\<close>

theorem acl_page_settles:
  assumes "browsed AccessList_event (committed_serves env conf files stringify (node_blocks env)) AccessList_answer
      (keeps_content (node_blocks env)) (acl_opened nd) c"
    and "settled c"
  shows "shown_blocks (shown c) = node_blocks env (site c)"
  using assms by (rule acls.settles [OF _ acl_opened_lawful])

theorem acl_page_settles_witness:
  "\<exists>c. browsed AccessList_event (committed_serves demo_server demo_conf (\<lambda>_. Status 404) demo_stringify (node_blocks demo_server)) AccessList_answer
      (keeps_content (node_blocks demo_server)) (acl_opened demo_node) c
    \<and> shown_blocks (shown c) = {String ''10.0.0.7/32''} \<and> node_blocks demo_server demo_node = {}"
proof -
  let ?serves = "committed_serves demo_server demo_conf (\<lambda>_. Status 404) demo_stringify (node_blocks demo_server)"
  let ?quiet = "keeps_content (node_blocks demo_server)"
  let ?B = "browsed AccessList_event ?serves AccessList_answer ?quiet (acl_opened demo_node)"
  have served: "?serves q nd (reply_of resp) nd'"
    if "ui_call demo_stringify (snd q) = Some call" "serve_api demo_server demo_conf (\<lambda>_. Status 404) call nd = Ret (resp, nd')"
    for q :: acl_request and call resp nd nd'
    using site_serves.answered [OF that] by (simp add: committed_serves_def committing_def demo_server_def)
  have reading: "?serves (FromList, Get ''/getAcl'') nd (reply_of resp) nd"
    if "serve_api demo_server demo_conf (\<lambda>_. Status 404) \<lparr>call_path = ''/getAcl'', call_body = [], call_query = (\<lambda>_. [])\<rparr> nd = Ret (resp, nd)"
    for nd resp using served [OF _ that] by simp
  have "?B \<lparr>shown = AccessList_page, asked = [(FromList, Get ''/getAcl'')], answers = [], site = demo_node\<rparr>"
    using browsed.opened [of AccessList_event ?serves AccessList_answer ?quiet "acl_opened demo_node"]
    by (simp add: acl_opened_def AccessList_mount_def)
  from acl_reads_list [OF this reading] obtain rows where
    loaded: "?B \<lparr>shown = AccessList_page\<lparr>al_rows := rows\<rparr>, asked = [], answers = [], site = demo_node\<rparr>" by blast
  let ?m = "AccessControlInsertModal_init\<lparr>in_ipAddress := ''10.0.0.7''\<rparr>"
  let ?post = "Post ''/acl'' [(''pattern'', Number 1), (''ipAddress'', String ''10.0.0.7/32'')]"
  let ?s = "AccessList_page\<lparr>al_rows := rows, al_insert := ?m\<lparr>in_confirmLoading := True\<rparr>\<rparr>"
  have typed: "?B \<lparr>shown = AccessList_page\<lparr>al_rows := rows, al_insert := ?m\<rparr>, asked = [], answers = [], site = demo_node\<rparr>"
    using browsed_act [OF loaded, of "TypeAddress ''10.0.0.7''"]
    by (simp add: AccessList_page_def AccessControlInsertModal_typeAddress_def)
  have posted: "?B \<lparr>shown = ?s, asked = [(FromInsert, ?post)], answers = [], site = demo_node\<rparr>"
    using browsed_act [OF typed, of ConfirmInsert]
    by (simp add: AccessControlInsertModal_onOk_def AccessControlInsertModal_init_def Let_def)
  let ?b = "demo_stringify [(''pattern'', Number 1), (''ipAddress'', String ''10.0.0.7/32'')]"
  let ?blk = "Cidr 10 0 0 7 32"
  have blk: "cidr_text ?blk = ''10.0.0.7/32''" by code_simp
  have "enableWrite demo_node" by (simp add: demo_node_def)
  from acl_codec_accepts [OF demo_codec this, of 1 "''10.0.0.7/32''"]
  have accepted: "accepts_acl demo_server ?b \<lparr>acl_Pattern = 1, IpAddress = ''10.0.0.7/32''\<rparr> demo_node" by simp
  have bl: "black_list (nd_gateway demo_node) = NewRadixTree" by (simp add: demo_node_def demo_served_def demo_gateway_def)
  have "acl_fresh (black_list (nd_gateway demo_node))" using acl.new_invar by (simp add: bl)
  then obtain nd1 t1 where
    nd1: "doHandleAcl demo_server ?b demo_node = Ret (ok, nd1)" "nd_gateway nd1 = (nd_gateway demo_node)\<lparr>black_list := t1\<rparr>"
    "Record t1 = (Record NewRadixTree)(''10.0.0.7/32'' \<mapsto> True)"
    by (rule leader_adds_block [OF accepted, of ?blk, rotated 3]) (simp_all add: blk bl del: cidr_text.simps)
  have sent: "?serves (FromInsert, ?post) demo_node (Reply (R_Marshal Ok)) nd1"
    using served [of "(FromInsert, ?post)" "\<lparr>call_path = ''/acl'', call_body = ?b, call_query = (\<lambda>_. [])\<rparr>" demo_node ok nd1] nd1(1)
    by (simp add: serve_api_def Let_def)
  let ?s1 = "?s\<lparr>al_insert := (al_insert ?s)\<lparr>in_ipAddress := [], in_visible := False, in_confirmLoading := False\<rparr>\<rparr>"
  have "AccessList_answer (FromInsert, ?post) (Reply (R_Marshal Ok)) ?s = (?s1, [(FromList, Get ''/getAcl'')])"
    by (simp add: AccessControlInsertModal_reply_def Let_def)
  from browsed_exchange [of AccessList_event ?serves AccessList_answer ?quiet, OF posted sent this]
  have "?B \<lparr>shown = ?s1, asked = [(FromList, Get ''/getAcl'')], answers = [], site = nd1\<rparr>" .
  from acl_reads_list [OF this reading] obtain rows1 where
    listed: "?B \<lparr>shown = ?s1\<lparr>al_rows := rows1\<rparr>, asked = [], answers = [], site = nd1\<rparr>" by blast
  let ?c = "\<lparr>shown = ?s1\<lparr>al_rows := rows1\<rparr>, asked = [], answers = [], site = nd1\<rparr>"
  have keys: "node_blocks demo_server nd1 = {String ''10.0.0.7/32''}" "node_blocks demo_server demo_node = {}"
    by (simp_all add: node_blocks_def nd1(2,3) bl NewRadixTree_def demo_server_def demo_env_def)
  have "shown_blocks (shown ?c) = node_blocks demo_server (site ?c)"
    using acl_page_settles [OF listed] by (simp add: settled_def)
  then show ?thesis using listed keys by (intro exI [of _ ?c]) simp
qed

end
