(* ===== verification/RatePage.thy ===== *)
theory RatePage
  imports PageProtocol WebUIProps
begin

text \<open>
  The pages of the limits and of the cluster as a whole: what they ask for when they are opened,
  and what their callbacks and clicks do.
\<close>

subsection \<open>The page of the limits\<close>

record rate_page =
  rt_panels :: "collapse_panel list"
  rt_dialog :: set_rate_modal

definition Rate_page :: rate_page where
  "Rate_page = \<lparr>rt_panels = [], rt_dialog = SetRateModal_init\<rparr>"

definition Rate_mount :: "ui_effect list" where
  "Rate_mount = [Get ''/methods'']"

datatype rate_origin = FromMethods | FromMethodInfo | FromLimiter

type_synonym rate_request = "rate_origin \<times> ui_effect"

text \<open>A click on a method shows the dialog, which asks for its limits.\<close>

datatype rate_event =
    ClickMethod js js
  | SelectType string
  | TypeVolumn string
  | TypeSpeed string
  | TypeTimeout string
  | CancelRate
  | ConfirmRate

fun Rate_event :: "rate_event \<Rightarrow> rate_page \<Rightarrow> rate_page \<times> rate_request list" where
  "Rate_event (ClickMethod pre meth) s =
     (let (m, es) = SetRateModal_showModal pre meth (rt_dialog s) in (s\<lparr>rt_dialog := m\<rparr>, map (Pair FromMethodInfo) es))"
| "Rate_event (SelectType v) s = (s\<lparr>rt_dialog := SetRateModal_select v (rt_dialog s)\<rparr>, [])"
| "Rate_event (TypeVolumn v) s = (s\<lparr>rt_dialog := SetRateModal_typeVolumn v (rt_dialog s)\<rparr>, [])"
| "Rate_event (TypeSpeed v) s = (s\<lparr>rt_dialog := SetRateModal_typeSpeed v (rt_dialog s)\<rparr>, [])"
| "Rate_event (TypeTimeout v) s = (s\<lparr>rt_dialog := SetRateModal_typeTimeout v (rt_dialog s)\<rparr>, [])"
| "Rate_event CancelRate s = (s\<lparr>rt_dialog := SetRateModal_onCancel (rt_dialog s)\<rparr>, [])"
| "Rate_event ConfirmRate s =
     (let (m, es) = SetRateModal_onOk (rt_dialog s) in (s\<lparr>rt_dialog := m\<rparr>, map (Pair FromLimiter) es))"

text \<open>The callbacks; none of them leads to another request.\<close>

definition Rate_methods :: "reply \<Rightarrow> rate_page \<Rightarrow> rate_page \<times> ui_effect list" where
  "Rate_methods r s =
     (case r of
        Failed \<Rightarrow> (s, [ConsoleLog])
      | Reply n \<Rightarrow>
         (case createCollapseElement n of
            None \<Rightarrow> (s, [Thrown])
          | Some ps \<Rightarrow> (s\<lparr>rt_panels := ps\<rparr>, [])))"

fun Rate_reply :: "rate_request \<Rightarrow> reply \<Rightarrow> rate_page \<Rightarrow> rate_page \<times> ui_effect list" where
  "Rate_reply (FromMethods, _) r s = Rate_methods r s"
| "Rate_reply (FromMethodInfo, _) r s =
     (let (m, es) = getMethodInfo_reply r (rt_dialog s) in (s\<lparr>rt_dialog := m\<rparr>, es))"
| "Rate_reply (FromLimiter, _) r s =
     (let (m, es) = setRate_reply r (rt_dialog s) in (s\<lparr>rt_dialog := m\<rparr>, es))"

subsection \<open>The page of the cluster\<close>

text \<open>The page keeps the list of the reply and draws it; the drawing reads the properties of each
  peer, which throws for \<open>undefined\<close> and \<open>null\<close>, and \<open>fillText\<close> converts what it gets to a text. Of
  more than nine peers none is read. A drawing that throws is \<open>None\<close>.\<close>

record raft_page =
  rf_peers :: js

definition Raft_page :: raft_page where
  "Raft_page = \<lparr>rf_peers = Array []\<rparr>"

definition Raft_mount :: "ui_effect list" where
  "Raft_mount = [Get ''/peers'']"

definition peer_of :: "js \<Rightarrow> peer option" where
  "peer_of v =
     (if field v ''serverId'' = None then None
      else Some \<lparr>serverId = js_text (get_or_undefined v ''serverId''),
                 serverAddress = js_text (get_or_undefined v ''serverAddress''),
                 peer_isLeader = truthy (get_or_undefined v ''isLeader'')\<rparr>)"

definition Raft_canvas :: "nat \<Rightarrow> nat \<Rightarrow> js \<Rightarrow> drawing list option" where
  "Raft_canvas w h r =
     (case field r ''length'' of
        None \<Rightarrow> None
      | Some len \<Rightarrow>
          let n = iterations len in
          if 9 < n then Some []
          else map_option (drawPeers w h) (those (map (\<lambda>i. peer_of (js_nth r i)) [0..<n])))"

text \<open>\<open>w\<close> and \<open>h\<close> are the size of the canvas.\<close>

definition Raft_reply :: "nat \<Rightarrow> nat \<Rightarrow> reply \<Rightarrow> raft_page \<Rightarrow> raft_page \<times> ui_effect list" where
  "Raft_reply w h r s =
     (case r of
        Failed \<Rightarrow> (s, [ConsoleLog])
      | Reply n \<Rightarrow>
         (case Option.bind (field n ''data'') (\<lambda>d. field d ''data'') of
            None \<Rightarrow> (s, [Thrown])
          | Some ps \<Rightarrow> (s\<lparr>rf_peers := ps\<rparr>, if Raft_canvas w h ps = None then [Thrown] else [])))"

end
