(* ===== verification/WebApp.thy ===== *)
theory WebApp
  imports Navigation FrontPage AclPage RatePage
begin

text \<open>
  The web interface as one application: the menu at the side, the routes of \<open>App\<close>, and the page
  that the current location shows, in front of the server. A click on a link mounts a fresh page
  unless the page is there already; the requests of the page that was left are still answered.
\<close>

subsection \<open>Locations\<close>

text \<open>The links of the menu, each with the key of its text.\<close>

definition Sidebar_links :: "(string \<times> string) list" where
  "Sidebar_links = [(''sideBar.index'', ''/''), (''sideBar.raft'', ''/cluster''), (''sideBar.rate'', ''/rate''), (''sideBar.acl'', ''/acl'')]"

text \<open>The location is the part of the address after the hash, with a slash in front.\<close>

definition hash_location :: "string \<Rightarrow> string" where
  "hash_location h = (if take 1 h = ''/'' then h else CHR ''/'' # h)"

definition page_of :: "string \<Rightarrow> page" where
  "page_of h = the (App_page (hash_location h))"

lemma App_page_total: "App_page (hash_location h) = Some (page_of h)"
  by (simp add: page_of_def App_page_def hash_location_def split: if_splits)

lemma Sidebar_pages: "map (\<lambda>(k, h). page_of h) Sidebar_links = [IndexPage, ClusterPage, RatePage, AclPage]"
  by (simp add: Sidebar_links_def page_of_def hash_location_def) code_simp

subsection \<open>The pages\<close>

datatype web_view = IndexView front_page | AclView acl_page | RateView rate_page | ClusterView raft_page

fun kind_of :: "web_view \<Rightarrow> page" where
  "kind_of (IndexView p) = IndexPage"
| "kind_of (AclView p) = AclPage"
| "kind_of (RateView p) = RatePage"
| "kind_of (ClusterView p) = ClusterPage"

datatype view_request = FrontReq front_request | AclReq acl_request | RateReq rate_request | ClusterReq ui_effect

fun effect_of :: "view_request \<Rightarrow> ui_effect" where
  "effect_of (FrontReq q) = snd q"
| "effect_of (AclReq q) = snd q"
| "effect_of (RateReq q) = snd q"
| "effect_of (ClusterReq e) = e"

datatype view_event = FrontEvent front_event | AclEvent acl_event | RateEvent rate_event

fun mount_page :: "page \<Rightarrow> web_view \<times> view_request list" where
  "mount_page IndexPage = (IndexView Index_page, map FrontReq (zip [FromInfo, FromTree] Index_mount))"
| "mount_page AclPage = (AclView AccessList_page, map AclReq (acl_effects FromList AccessList_mount))"
| "mount_page RatePage = (RateView Rate_page, map (RateReq \<circ> Pair FromMethods) Rate_mount)"
| "mount_page ClusterPage = (ClusterView Raft_page, map ClusterReq Raft_mount)"

definition App_mount :: "string \<Rightarrow> web_view \<times> view_request list" where
  "App_mount h = mount_page (page_of h)"

text \<open>The location still shows the page that is there.\<close>

definition App_stays :: "string \<Rightarrow> web_view \<Rightarrow> bool" where
  "App_stays h v \<longleftrightarrow> kind_of v = page_of h"

text \<open>An event of another page than the one in front cannot happen.\<close>

fun view_act :: "view_event \<Rightarrow> web_view \<Rightarrow> web_view \<times> view_request list" where
  "view_act (FrontEvent e) (IndexView p) = (let (p', qs) = Index_event e p in (IndexView p', map FrontReq qs))"
| "view_act (AclEvent e) (AclView p) = (let (p', qs) = AccessList_event e p in (AclView p', map AclReq qs))"
| "view_act (RateEvent e) (RateView p) = (let (p', qs) = Rate_event e p in (RateView p', map RateReq qs))"
| "view_act e v = (v, [])"

fun view_reply :: "nat \<Rightarrow> nat \<Rightarrow> view_request \<Rightarrow> reply \<Rightarrow> web_view \<Rightarrow> web_view \<times> view_request list" where
  "view_reply w h (FrontReq q) r (IndexView p) = (IndexView (fst (Index_reply q r p)), map FrontReq (snd (Index_reply q r p)))"
| "view_reply w h (AclReq q) r (AclView p) = (AclView (fst (AccessList_answer q r p)), map AclReq (snd (AccessList_answer q r p)))"
| "view_reply w h (RateReq q) r (RateView p) = (RateView (fst (Rate_reply q r p)), [])"
| "view_reply w h (ClusterReq e) r (ClusterView p) = (ClusterView (fst (Raft_reply w h r p)), [])"
| "view_reply w h q r v = (v, [])"

subsection \<open>The server behind all pages\<close>

definition node_content :: "('m, 'l, 'r) server_env \<Rightarrow> ('l, 'r) node \<Rightarrow> js set option \<times> js set" where
  "node_content env nd = (node_routes env nd, node_blocks env nd)"

definition view_serves ::
  "('m, 'l, 'r) server_env \<Rightarrow> CherylConfig \<Rightarrow> (string \<Rightarrow> api_response) \<Rightarrow> ((string \<times> js) list \<Rightarrow> bytes)
   \<Rightarrow> view_request \<Rightarrow> ('l, 'r) node \<Rightarrow> reply \<Rightarrow> ('l, 'r) node \<Rightarrow> bool" where
  "view_serves env conf files stringify q nd r nd' \<longleftrightarrow>
     committed_serves env conf files stringify (node_content env) ((), effect_of q) nd r nd'"

text \<open>What the pages of each kind show; those of the limits and of the cluster are not followed.\<close>

datatype shown_content = Routes "js set option" | Blocks "js set" | Unfollowed

fun page_content :: "('m, 'l, 'r) server_env \<Rightarrow> page \<Rightarrow> ('l, 'r) node \<Rightarrow> shown_content" where
  "page_content env IndexPage nd = Routes (node_routes env nd)"
| "page_content env AclPage nd = Blocks (node_blocks env nd)"
| "page_content env _ nd = Unfollowed"

fun view_display :: "web_view \<Rightarrow> shown_content" where
  "view_display (IndexView p) = Routes (shown_routes p)"
| "view_display (AclView p) = Blocks (shown_blocks p)"
| "view_display _ = Unfollowed"

fun view_legal :: "page \<Rightarrow> view_request \<Rightarrow> bool" where
  "view_legal IndexPage (FrontReq q) \<longleftrightarrow> front_legal q"
| "view_legal AclPage (AclReq q) \<longleftrightarrow> acl_legal q"
| "view_legal RatePage (RateReq q) \<longleftrightarrow> True"
| "view_legal ClusterPage (ClusterReq e) \<longleftrightarrow> True"
| "view_legal _ _ \<longleftrightarrow> False"

text \<open>The requests with which a page is filled, those that can change something, and the answers
  after which a page is filled again.\<close>

fun view_reads :: "view_request \<Rightarrow> bool" where
  "view_reads (FrontReq q) \<longleftrightarrow> front_reads q"
| "view_reads (AclReq q) \<longleftrightarrow> acl_reads q"
| "view_reads (RateReq q) \<longleftrightarrow> q = (FromMethods, Get ''/methods'')"
| "view_reads (ClusterReq e) \<longleftrightarrow> e = Get ''/peers''"

definition view_writes :: "view_request \<Rightarrow> bool" where
  "view_writes q \<longleftrightarrow> effect_of q \<notin> {Get ''/info'', Get ''/proxy'', Get ''/getAcl'', Get ''/methods'', Get ''/peers''}"

fun view_renews :: "view_request \<Rightarrow> reply \<Rightarrow> bool" where
  "view_renews (FrontReq q) r \<longleftrightarrow> front_renews q r"
| "view_renews (AclReq q) r \<longleftrightarrow> acl_renews q r"
| "view_renews _ r \<longleftrightarrow> False"

subsection \<open>The pages keep the contract\<close>

lemma view_serves_front:
  "view_serves env conf files stringify (FrontReq q) nd r nd' \<Longrightarrow> committed_serves env conf files stringify (node_routes env) q nd r nd'"
  unfolding view_serves_def by (erule committed_serves_weaken) (simp_all add: node_content_def)

lemma view_serves_acl:
  "view_serves env conf files stringify (AclReq q) nd r nd' \<Longrightarrow> committed_serves env conf files stringify (node_blocks env) q nd r nd'"
  unfolding view_serves_def by (erule committed_serves_weaken) (simp_all add: node_content_def)

lemma view_serves_harmless:
  assumes "view_serves env conf files stringify q nd r nd'" "\<not> view_writes q"
  shows "nd' = nd"
proof -
  have "site_serves env conf files stringify (node_content env) (effect_of q) nd r nd'"
    using assms(1) by (simp add: view_serves_def committed_serves_def)
  then show ?thesis
    using assms(2)
    by (elim site_servesE) (auto simp: view_writes_def serve_api_def doGetInfo_def doGetProxy_def
        doGetAccessControlList_def doGetMethods_def doGetRaftClusterInfo_def Let_def)
qed

lemma view_act_keeps:
  assumes "view_act e v = (v', qs)"
  shows "kind_of v' = kind_of v \<and> view_display v' = view_display v \<and> (\<forall>q \<in> set qs. view_legal (kind_of v) q)"
proof (cases "(e, v)" rule: view_act.cases)
  case (1 ev p)
  obtain p' rs where "Index_event ev p = (p', rs)" by (cases "Index_event ev p")
  then show ?thesis using assms 1 front.act_shows [of ev p p' rs] front.act_legal [of ev p p' rs] by auto
next
  case (2 ev p)
  obtain p' rs where "AccessList_event ev p = (p', rs)" by (cases "AccessList_event ev p")
  then show ?thesis using assms 2 acls.act_shows [of ev p p' rs] acls.act_legal [of ev p p' rs] by auto
next
  case (3 ev p)
  then show ?thesis using assms by (auto simp: Let_def split: prod.splits)
qed (use assms in auto)

lemma App_mount_reads:
  "App_mount h = (v, qs) \<Longrightarrow> (\<exists>q \<in> set qs. view_reads q) \<and> (\<forall>q \<in> set qs. view_legal (kind_of v) q)"
  by (cases "page_of h") (auto simp: App_mount_def Index_mount_def AccessList_mount_def Rate_mount_def Raft_mount_def
      front_reads_def acl_reads_def acl_legal_def)

text \<open>The cases of a legal request.\<close>

lemma view_legal_cases:
  assumes "view_legal (kind_of v) q"
  obtains (front) p f where "v = IndexView p" "q = FrontReq f" "front_legal f"
    | (acl) p f where "v = AclView p" "q = AclReq f" "acl_legal f"
    | (rate) p f where "v = RateView p" "q = RateReq f"
    | (cluster) p e where "v = ClusterView p" "q = ClusterReq e"
  using assms by (cases v; cases q) auto

lemma view_reads_harmless: "view_reads q \<Longrightarrow> \<not> view_writes q"
  by (cases q) (auto simp: view_writes_def front_reads_def acl_reads_def)

lemma view_reply_keeps:
  assumes "view_legal (kind_of v) q" "view_reply w h q a v = (v', qs)"
  shows "kind_of v' = kind_of v \<and> (\<forall>r \<in> set qs. view_legal (kind_of v) r \<and> \<not> view_writes r)"
  using assms(1)
proof (cases rule: view_legal_cases)
  case (front p f)
  have "front_legal x \<and> \<not> view_writes (FrontReq x)" if "x \<in> set (snd (Index_reply f a p))" for x
    using front.receive_reads [OF front(3), of a p "fst (Index_reply f a p)" "snd (Index_reply f a p)"] that
      view_reads_harmless [of "FrontReq x"] by simp
  then show ?thesis using assms(2) front by auto
next
  case (acl p f)
  have "acl_legal x \<and> \<not> view_writes (AclReq x)" if "x \<in> set (snd (AccessList_answer f a p))" for x
    using acls.receive_reads [OF acl(3), of a p "fst (AccessList_answer f a p)" "snd (AccessList_answer f a p)"] that
      view_reads_harmless [of "AclReq x"] by simp
  then show ?thesis using assms(2) acl by auto
qed (use assms(2) in auto)

lemma view_read_shows:
  assumes "view_reads q" "view_legal (kind_of v) q" "view_serves env conf files stringify q nd a nd'"
  shows "view_display (fst (view_reply w h q a v)) = page_content env (kind_of v) nd"
  using assms(2)
proof (cases rule: view_legal_cases)
  case (front p f)
  have serves: "committed_serves env conf files stringify (node_routes env) f nd a nd'" and read: "front_reads f"
    using view_serves_front [OF assms(3) [unfolded front(2)]] assms(1) by (simp_all add: front)
  show ?thesis
    using front.read_shows [OF read serves, of p "fst (Index_reply f a p)" "snd (Index_reply f a p)"] front.read_keeps [OF read serves]
    by (simp add: front)
next
  case (acl p f)
  have serves: "committed_serves env conf files stringify (node_blocks env) f nd a nd'" and read: "acl_reads f"
    using view_serves_acl [OF assms(3) [unfolded acl(2)]] assms(1) by (simp_all add: acl)
  show ?thesis
    using acls.read_shows [OF read serves, of p "fst (AccessList_answer f a p)" "snd (AccessList_answer f a p)"] acls.read_keeps [OF read serves]
    by (simp add: acl)
qed simp_all

lemma view_other_shows:
  assumes "view_legal (kind_of v) q" "\<not> view_reads q"
  shows "view_display (fst (view_reply w h q a v)) = view_display v"
  using assms(1)
proof (cases rule: view_legal_cases)
  case (front p f)
  then show ?thesis
    using assms(2) front.write_shows [of f a p "fst (Index_reply f a p)" "snd (Index_reply f a p)"] by simp
next
  case (acl p f)
  then show ?thesis
    using assms(2) acls.write_shows [of f a p "fst (AccessList_answer f a p)" "snd (AccessList_answer f a p)"] by simp
qed simp_all

lemma view_reply_cong:
  assumes "kind_of v = kind_of u" "view_display v = view_display u"
  shows "view_display (fst (view_reply w h q a v)) = view_display (fst (view_reply w h q a u))"
proof (cases v)
  case (IndexView p)
  then obtain r where u: "u = IndexView r" using assms(1) by (cases u) simp_all
  then show ?thesis using assms(2) front.receive_cong [of p r] by (cases q) (simp_all add: IndexView)
next
  case (AclView p)
  then obtain r where u: "u = AclView r" using assms(1) by (cases u) simp_all
  then show ?thesis using assms(2) acls.receive_cong [of p r] by (cases q) (simp_all add: AclView)
next
  case (RateView p)
  then show ?thesis using assms(1) by (cases u; cases q) simp_all
next
  case (ClusterView p)
  then show ?thesis using assms(1) by (cases u; cases q) simp_all
qed

lemma view_write_renews:
  assumes "view_legal k q" "view_writes q" "view_serves env conf files stringify q nd a nd'"
  shows "page_content env k nd' = page_content env k nd \<or> view_renews q a"
proof (cases k)
  case IndexPage
  then obtain f where f: "q = FrontReq f" "front_legal f" using assms(1) by (cases q) auto
  have "\<not> front_reads f" using assms(2) view_reads_harmless [of q] f(1) by auto
  from front.write_renews [OF f(2) this view_serves_front [OF assms(3) [unfolded f(1)]]] show ?thesis by (auto simp: IndexPage f(1))
next
  case AclPage
  then obtain f where f: "q = AclReq f" "acl_legal f" using assms(1) by (cases q) auto
  have "\<not> acl_reads f" using assms(2) view_reads_harmless [of q] f(1) by auto
  from acls.write_renews [OF f(2) this view_serves_acl [OF assms(3) [unfolded f(1)]]] show ?thesis by (auto simp: AclPage f(1))
qed simp_all

lemma view_renews_reads:
  assumes "view_renews q a" "view_legal (kind_of v) q"
  shows "\<exists>r \<in> set (snd (view_reply w h q a v)). view_reads r"
  using assms(2)
proof (cases rule: view_legal_cases)
  case (front p f)
  then show ?thesis
    using assms(1) front.renews_reads [of f a p "fst (Index_reply f a p)" "snd (Index_reply f a p)"] by auto
next
  case (acl p f)
  then show ?thesis
    using assms(1) acls.renews_reads [of f a p "fst (AccessList_answer f a p)" "snd (AccessList_answer f a p)"] by auto
qed (use assms(1) in auto)

interpretation web: navigated_views view_act App_stays App_mount "view_serves env conf files stringify" "view_reply w h"
    "keeps_content (node_content env)" kind_of "page_content env" view_display view_legal view_reads view_writes view_renews
  for env :: "('m, 'l, 'r) server_env" and conf files stringify w h
proof (unfold_locales, goal_cases)
  case (1 e p p' qs)
  then show ?case by (rule view_act_keeps)
next
  case (2 n p qs)
  then show ?case by (rule App_mount_reads)
next
  case (3 q s a s' k)
  then show ?case using view_serves_harmless [OF 3(2,1)] by simp
next
  case (4 q)
  then show ?case by (rule view_reads_harmless)
next
  case (5 q p s a s')
  then show ?case by (rule view_read_shows)
next
  case (6 p q a)
  then show ?case by (rule view_other_shows)
next
  case (7 p r q a)
  then show ?case by (rule view_reply_cong)
next
  case (8 k q s a s')
  then show ?case by (rule view_write_renews)
next
  case (9 q a p)
  then show ?case by (rule view_renews_reads)
next
  case (10 p q a p' qs)
  then show ?case by (rule view_reply_keeps)
next
  case (11 s s' k)
  then show ?case by (cases k) (auto simp: keeps_content_def node_content_def)
qed

subsection \<open>The page in front shows what the node has\<close>

definition app_opened :: "string \<Rightarrow> ('l, 'r) node \<Rightarrow> (web_view app, nat \<times> view_request, reply, ('l, 'r) node) browsing" where
  "app_opened loc nd = \<lparr>shown = \<lparr>earlier = [], front = fst (App_mount loc)\<rparr>, asked = map (Pair 0) (snd (App_mount loc)),
     answers = [], site = nd\<rparr>"

text \<open>C10: the web interface shows what the node has. The user may work with the pages and go from one
  to the other at any time, also while requests of the page that is left are on the way; whenever
  nothing is on the way, the tree of the front page has exactly the routes of the node, and the
  rows of the black list are exactly its keys, if messages stay in order, the raft library
  commits what the handlers write, and nobody else writes.\<close>

theorem web_app_settles:
  assumes "browsed (app_act view_act App_stays App_mount) (app_serves (view_serves env conf files stringify))
      (app_receive (view_reply w h)) (keeps_content (node_content env)) (app_opened loc nd) c"
    and "settled c"
  shows "case front (shown c) of
      IndexView p \<Rightarrow> shown_routes p = node_routes env (site c)
    | AclView p \<Rightarrow> shown_blocks p = node_blocks env (site c)
    | _ \<Rightarrow> True"
proof -
  obtain v qs where v: "App_mount loc = (v, qs)" by (cases "App_mount loc")
  have "view_display (front (shown c)) = page_content env (kind_of (front (shown c))) (site c)"
    by (rule web.app_settles [OF _ v assms(2)]) (use assms(1) in \<open>simp add: app_opened_def v\<close>)
  then show ?thesis by (cases "front (shown c)") simp_all
qed

theorem web_app_settles_witness:
  "\<exists>c p. browsed (app_act view_act App_stays App_mount) (app_serves (view_serves demo_server demo_conf (\<lambda>_. Status 404) demo_stringify))
      (app_receive (view_reply 800 600)) (keeps_content (node_content demo_server)) (app_opened ''/acl'' demo_node) c
    \<and> front (shown c) = IndexView p \<and> shown_routes p = Some {String ''/api''} \<and> length (earlier (shown c)) = 1"
proof -
  let ?act = "app_act view_act App_stays App_mount"
  let ?serves = "app_serves (view_serves demo_server demo_conf (\<lambda>_. Status 404) demo_stringify)"
  let ?receive = "app_receive (view_reply 800 600)" and ?quiet = "keeps_content (node_content demo_server)"
  let ?B = "browsed ?act ?serves ?receive ?quiet (app_opened ''/acl'' demo_node)"
  let ?list = "(0, AclReq (FromList, Get ''/getAcl''))" and ?info = "(1, FrontReq (FromInfo, Get ''/info''))"
    and ?tree = "(1, FrontReq (FromTree, Get ''/proxy''))"
  obtain l where l: "doGetAccessControlList demo_server demo_node = Ret (Json l, demo_node)"
    "\<And>rows. snd (getAclList_reply (Reply l) rows) = []"
    using doGetAccessControlList_rows [of demo_server demo_node] by blast
  obtain t where t: "doGetProxy demo_server demo_node = Ret (Json t, demo_node)"
    "\<And>s. getProxyInfo (Reply t) s = (s\<lparr>tree_data := Some (route_nodes demo_server demo_node)\<rparr>, [])"
    using doGetProxy_tree [of demo_server demo_node] by auto
  obtain i where i: "doGetInfo demo_server demo_conf demo_node = Ret (Json i, demo_node)" by (auto simp: doGetInfo_def Let_def)
  have served: "?serves r demo_node (reply_of resp) demo_node"
    if "ui_call demo_stringify (effect_of (snd r)) = Some call"
      "serve_api demo_server demo_conf (\<lambda>_. Status 404) call demo_node = Ret (resp, demo_node)" for r call resp
    using site_serves.answered [OF that]
    by (simp add: app_serves_def view_serves_def committed_serves_def committing_def demo_server_def)
  have sv: "?serves ?list demo_node (Reply l) demo_node" "?serves ?info demo_node (Reply i) demo_node"
    "?serves ?tree demo_node (Reply t) demo_node"
    using served [of ?list _ "Json l"] served [of ?info _ "Json i"] served [of ?tree _ "Json t"] l(1) i t(1)
    by (simp_all add: serve_api_def Let_def)
  let ?s0 = "\<lparr>earlier = [AclView AccessList_page], front = IndexView Index_page\<rparr>"
  have pages: "page_of ''/acl'' = AclPage" "page_of ''/'' = IndexPage" by code_simp+
  have opened: "app_opened ''/acl'' demo_node = \<lparr>shown = \<lparr>earlier = [], front = AclView AccessList_page\<rparr>, asked = [?list], answers = [], site = demo_node\<rparr>"
    by (simp add: app_opened_def App_mount_def pages AccessList_mount_def)
  have start: "?B \<lparr>shown = \<lparr>earlier = [], front = AclView AccessList_page\<rparr>, asked = [?list], answers = [], site = demo_node\<rparr>"
    unfolding opened by (rule browsed.opened)
  have left: "?act (Navigate ''/'') \<lparr>earlier = [], front = AclView AccessList_page\<rparr> = (?s0, [?info, ?tree])"
    by (simp add: app_act_def App_stays_def App_mount_def pages Index_mount_def)
  have gone: "?B \<lparr>shown = ?s0, asked = [?list, ?info, ?tree], answers = [], site = demo_node\<rparr>"
    using browsed_act [of ?act ?serves ?receive ?quiet, OF start left] by simp
  have 1: "?B \<lparr>shown = ?s0, asked = [?info, ?tree], answers = [(?list, Reply l)], site = demo_node\<rparr>"
    using browsed_serve [of ?act ?serves ?receive ?quiet, OF gone sv(1)] by simp
  obtain rows where rows: "?receive ?list (Reply l) ?s0
      = (\<lparr>earlier = [AclView (AccessList_page\<lparr>al_rows := rows\<rparr>)], front = IndexView Index_page\<rparr>, [])"
    using l(2) [of "al_rows AccessList_page"] by (cases "getAclList_reply (Reply l) (al_rows AccessList_page)") (auto simp: app_receive_def)
  let ?s1 = "\<lparr>earlier = [AclView (AccessList_page\<lparr>al_rows := rows\<rparr>)], front = IndexView Index_page\<rparr>"
  obtain i1 where "Index_reply (FromInfo, Get ''/info'') (Reply i) Index_page = (Index_page\<lparr>fp_index := i1\<rparr>, [])"
    using Index_info_reply by blast
  then have info: "?receive ?info (Reply i) ?s1 = (?s1\<lparr>front := IndexView (Index_page\<lparr>fp_index := i1\<rparr>)\<rparr>, [])"
    by (simp add: app_receive_def)
  let ?s2 = "?s1\<lparr>front := IndexView (Index_page\<lparr>fp_index := i1\<rparr>)\<rparr>"
  let ?p = "Index_page\<lparr>fp_index := i1\<lparr>tree_data := Some (route_nodes demo_server demo_node)\<rparr>\<rparr>"
  have tree: "?receive ?tree (Reply t) ?s2 = (?s2\<lparr>front := IndexView ?p\<rparr>, [])" by (simp add: app_receive_def t(2))
  have "?B \<lparr>shown = ?s1, asked = [?info, ?tree], answers = [], site = demo_node\<rparr>"
    using browsed_receive [of ?act ?serves ?receive ?quiet, OF 1 rows] by simp
  from browsed_two [of ?act ?serves ?receive ?quiet, OF this sv(2,3) info tree]
  have ended: "?B \<lparr>shown = ?s2\<lparr>front := IndexView ?p\<rparr>, asked = [], answers = [], site = demo_node\<rparr>" .
  have "shown_routes ?p = node_routes demo_server demo_node"
    using web_app_settles [OF ended] by (simp add: settled_def)
  moreover have "node_routes demo_server demo_node = Some {String ''/api''}"
    by (simp add: node_routes_def demo_server_def demo_env_def demo_node_def demo_served_def demo_gateway_def NewProxyMap_def)
  ultimately show ?thesis
    using ended by (intro exI [of _ "\<lparr>shown = ?s2\<lparr>front := IndexView ?p\<rparr>, asked = [], answers = [], site = demo_node\<rparr>"] exI [of _ ?p]) simp
qed

end
