(* ===== verification/Messages.thy ===== *)
theory Messages
  imports RatePage
begin

text \<open>
  The texts of the web interface (\<open>i18n/config\<close> in the bundle), the choice of the language in the
  bar at the top, and the keys that the components show. A text is a list of UTF-16 code units. The
  resources are nested objects whose paths are the keys, with a dot between their parts.
\<close>

definition units :: "string \<Rightarrow> nat list" where
  "units s = map of_char s"

definition resources_zh :: "(string \<times> nat list) list" where
  "resources_zh = [
     (''language'', [0x8bed, 0x8a00]),
     (''footer.detail'', [0x7248, 0x6743, 0x6240, 0x6709] @ units '' @ Cheryl''),
     (''sideBar.index'', [0x9996, 0x9875]),
     (''sideBar.raft'', [0x96c6, 0x7fa4]),
     (''sideBar.rate'', [0x9650, 0x6d41]),
     (''sideBar.acl'', [0x8bbf, 0x95ee, 0x63a7, 0x5236, 0x5217, 0x8868]),
     (''other.loading'', [0x52a0, 0x8f7d, 0x4e2d]),
     (''other.success'', [0x5220, 0x9664, 0x6210, 0x529f]),
     (''index.desc_title'', [0x8282, 0x70b9, 0x4fe1, 0x606f]),
     (''index.desc_node_name'', [0x8282, 0x70b9, 0x540d, 0x79f0]),
     (''index.desc_proxy_port'', [0x670d, 0x52a1, 0x7aef, 0x53e3]),
     (''index.desc_raft_address'', units ''Raft'' @ [0x5730, 0x5740]),
     (''index.desc_is_leader'', [0x89d2, 0x8272]),
     (''index.proxy_title'', [0x4ee3, 0x7406, 0x5730, 0x5740]),
     (''index.modal.add_proxy'', [0x6dfb, 0x52a0, 0x4ee3, 0x7406]),
     (''index.modal.pattern'', [0x5339, 0x914d, 0x524d, 0x7f00]),
     (''index.modal.balance'', [0x8d1f, 0x8f7d, 0x5747, 0x8861, 0x6a21, 0x5f0f]),
     (''index.modal.proxy_address'', [0x4ee3, 0x7406, 0x5730, 0x5740]),
     (''index.modal.hint'', units ''http://127.0.0.1:8080''),
     (''index.modal.add'', [0x6dfb, 0x52a0, 0x5730, 0x5740]),
     (''index.modal.round-robin'', [0x8f6e, 0x8be2, 0x6a21, 0x5f0f]),
     (''index.modal.success'', [0x6dfb, 0x52a0, 0x6210, 0x529f]),
     (''index.modal.add_host'', [0x6dfb, 0x52a0, 0x4ee3, 0x7406, 0x4e3b, 0x673a]),
     (''rate.modal.qps'', [0x6bcf, 0x79d2, 0x67e5, 0x8be2, 0x7387]),
     (''rate.modal.concurrent'', [0x6700, 0x5927, 0x5e76, 0x53d1, 0x6570]),
     (''rate.modal.type'', [0x7c7b, 0x578b]),
     (''rate.modal.volumn'', [0x521d, 0x59cb, 0x5bb9, 0x91cf]),
     (''rate.modal.speed'', [0x901f, 0x7387]),
     (''rate.modal.timeout'', [0x8d85, 0x65f6, 0x65f6, 0x95f4]),
     (''rate.info.type'', [0x9650, 0x6d41, 0x5668, 0x7c7b, 0x578b]),
     (''rate.info.volumn'', [0x4ee4, 0x724c, 0x6876, 0x521d, 0x59cb, 0x4ee4, 0x724c, 0x6570, 0x91cf]),
     (''rate.info.speed'', [0x6bcf, 0x79d2, 0x4ea7, 0x751f, 0x4ee4, 0x724c, 0x6570, 0x91cf]),
     (''rate.info.timeout'', [0x83b7, 0x53d6, 0x4ee4, 0x724c, 0x8d85, 0x65f6, 0x65f6, 0x95f4, 0xff0c, 0x5355, 0x4f4d, 0x6beb, 0x79d2]),
     (''acl.insert'', [0x6dfb, 0x52a0]),
     (''acl.delete'', [0x5220, 0x9664]),
     (''acl.ipAddress'', units ''ip'' @ [0x5730, 0x5740]),
     (''acl.action'', [0x64cd, 0x4f5c]),
     (''acl.confirm'', [0x8be5, 0x64cd, 0x4f5c, 0x4e0d, 0x53ef, 0x9006, 0xff0c, 0x662f, 0x5426, 0x7ee7, 0x7eed, 0xff1f]),
     (''acl.handle.success'', [0x5220, 0x9664, 0x6210, 0x529f]),
     (''acl.handle.error'', [0x5220, 0x9664, 0x5931, 0x8d25]),
     (''acl.modal.cidr'', [0x7f51, 0x6bb5]),
     (''acl.modal.mask'', [0x5b50, 0x7f51, 0x63a9, 0x7801]),
     (''acl.modal.success'', [0x64cd, 0x4f5c, 0x6210, 0x529f]),
     (''acl.modal.fail'', [0x64cd, 0x4f5c, 0x5931, 0x8d25]),
     (''bubble.delete_proxy'', [0x5220, 0x9664, 0x4ee3, 0x7406]),
     (''bubble.add_host'', [0x6dfb, 0x52a0, 0x4e3b, 0x673a]),
     (''bubble.load_balance'', [0x8d1f, 0x8f7d, 0x5747, 0x8861]),
     (''bubble.delete_host'', [0x5220, 0x9664, 0x4e3b, 0x673a]),
     (''bubble.close'', [0x5173, 0x95ed])]"

definition resources_en :: "(string \<times> string) list" where
  "resources_en = [
     (''language'', ''language''),
     (''footer.detail'', ''All rights reserved @ Cheryl''),
     (''sideBar.index'', ''Home''),
     (''sideBar.raft'', ''Cluster''),
     (''sideBar.rate'', ''Rate-Limiting''),
     (''sideBar.acl'', ''ACL(Access Control List)''),
     (''other.loading'', ''loading''),
     (''other.success'', ''delete successfully''),
     (''index.desc_title'', ''Node Info''),
     (''index.desc_node_name'', ''Node Name''),
     (''index.desc_proxy_port'', ''Server Port''),
     (''index.desc_raft_address'', ''Raft Address''),
     (''index.desc_is_leader'', ''Role''),
     (''index.proxy_title'', ''Agency Address ''),
     (''index.modal.add_proxy'', ''Add Proxy''),
     (''index.modal.pattern'', ''prefix''),
     (''index.modal.balance'', ''Load balancing mode''),
     (''index.modal.proxy_address'', ''proxy address''),
     (''index.modal.hint'', ''http://127.0.0.1:8080''),
     (''index.modal.add'', ''Add''),
     (''index.modal.round-robin'', ''round-robin''),
     (''index.modal.success'', ''add successfully''),
     (''index.modal.add_host'', ''add proxy host''),
     (''rate.modal.qps'', ''Query rate per second''),
     (''rate.modal.concurrent'', ''Maximum concurrency''),
     (''rate.modal.type'', ''type''),
     (''rate.modal.volumn'', ''initial capacity''),
     (''rate.modal.speed'', ''speed''),
     (''rate.modal.timeout'', ''time-out''),
     (''rate.info.type'', ''limiter type''),
     (''rate.info.volumn'', ''the number of Initial token in token bucket''),
     (''rate.info.speed'', ''number of tokens generated per second''),
     (''rate.info.timeout'', ''Get the token timeout in milliseconds''),
     (''acl.insert'', ''add''),
     (''acl.delete'', ''delete''),
     (''acl.ipAddress'', ''ip address''),
     (''acl.action'', ''operation''),
     (''acl.confirm'', ''This operation is irreversible. Do you want to continue?''),
     (''acl.handle.success'', ''delete successfully ''),
     (''acl.handle.error'', ''fail to delete''),
     (''acl.modal.cidr'', ''CIDR''),
     (''acl.modal.mask'', ''subnet mask''),
     (''acl.modal.success'', ''operate successfully''),
     (''acl.modal.fail'', ''fail to delete''),
     (''bubble.delete_proxy'', ''delete proxy''),
     (''bubble.add_host'', ''add host''),
     (''bubble.load_balance'', ''load balance''),
     (''bubble.delete_host'', ''delete host''),
     (''bubble.close'', ''close'')]"

definition resource :: "string \<Rightarrow> string \<Rightarrow> nat list option" where
  "resource lang key =
     (if lang = ''zh'' then map_of resources_zh key
      else if lang = ''en'' then map_option units (map_of resources_en key)
      else None)"

text \<open>A key without a text is shown itself.\<close>

definition translate :: "string \<Rightarrow> string \<Rightarrow> nat list" where
  "translate lang key = (case resource lang key of None \<Rightarrow> units key | Some t \<Rightarrow> t)"

text \<open>The language at the start, and the values and labels of the choice, which is passed to
  \<open>changeLanguage\<close> as it is.\<close>

definition init_language :: string where
  "init_language = ''zh''"

definition Topbar_languages :: "(string \<times> nat list) list" where
  "Topbar_languages = [(''zh'', [0x4e2d, 0x6587]), (''en'', units ''English'')]"

text \<open>The keys of each component, in the order in which it uses them.\<close>

definition component_keys :: "(string \<times> string list) list" where
  "component_keys = [
     (''Sidebar'', [''sideBar.index'', ''sideBar.raft'', ''sideBar.rate'', ''sideBar.acl'']),
     (''AddProxyModal'', [''index.modal.add_proxy'', ''index.modal.success'', ''index.modal.pattern'',
        ''index.modal.balance'', ''index.modal.round-robin'', ''index.modal.proxy_address'',
        ''index.modal.hint'', ''index.modal.add'']),
     (''AddHostModal'', [''index.modal.add_host'', ''index.modal.success'', ''index.proxy_title'']),
     (''BubbleDialog'', [''other.success'', ''bubble.delete_proxy'', ''bubble.add_host'',
        ''bubble.load_balance'', ''bubble.delete_host'', ''bubble.close'']),
     (''Index'', [''other.loading'', ''index.desc_title'', ''index.desc_node_name'',
        ''index.desc_proxy_port'', ''index.desc_raft_address'', ''index.desc_is_leader'',
        ''index.proxy_title'']),
     (''SetRateModal'', [''rate.info.type'', ''rate.modal.type'', ''rate.modal.qps'',
        ''rate.modal.concurrent'', ''rate.info.volumn'', ''rate.modal.volumn'', ''rate.info.speed'',
        ''rate.modal.speed'', ''rate.info.timeout'', ''rate.modal.timeout'']),
     (''Topbar'', [''language'']),
     (''AccessControlInsertModal'', [''acl.insert'', ''acl.modal.success'', ''acl.modal.fail'',
        ''acl.modal.cidr'', ''acl.ipAddress'', ''acl.modal.mask'']),
     (''AccessControlDeleteModal'', [''acl.delete'', ''acl.modal.success'', ''acl.modal.fail'',
        ''acl.ipAddress'']),
     (''AccessList'', [''acl.insert'', ''acl.delete'', ''acl.ipAddress'', ''acl.action'', ''acl.confirm'',
        ''acl.handle.success'', ''acl.handle.error'']),
     (''App'', [''footer.detail''])]"

text \<open>The keys in the messages of a handler.\<close>

fun text_keys :: "ui_text \<Rightarrow> string set" where
  "text_keys (Translated k) = {k}"
| "text_keys (Joined a b) = text_keys a \<union> text_keys b"
| "text_keys _ = {}"

fun message_keys :: "ui_effect \<Rightarrow> string set" where
  "message_keys (SuccessMessage t) = text_keys t"
| "message_keys (ErrorMessage t) = text_keys t"
| "message_keys _ = {}"

definition messages_of :: "'s \<times> ui_effect list \<Rightarrow> string set" where
  "messages_of r = (\<Union>e \<in> set (snd r). message_keys e)"

definition translated :: "string set" where
  "translated = dom (resource ''zh'') \<inter> dom (resource ''en'')"

lemma dom_resource: "dom (resource ''zh'') = dom (map_of resources_zh)" "dom (resource ''en'') = dom (map_of resources_en)"
  by (simp_all add: resource_def dom_def)

lemma translated_keys: "translated = set (map fst resources_zh)"
proof -
  have keys: "map fst resources_en = map fst resources_zh" by (simp add: resources_en_def resources_zh_def)
  have "dom (resource ''zh'') = set (map fst resources_zh)" "dom (resource ''en'') = set (map fst resources_en)"
    by (simp_all add: dom_resource dom_map_of_conv_image_fst)
  then show ?thesis by (simp only: translated_def keys Int_absorb)
qed

text \<open>Everything the interface says is there in both languages that can be chosen: the keys of the
  components, and those of every message that a callback shows, whatever the reply.\<close>

theorem every_text_translated:
  "set (concat (map snd component_keys)) \<subseteq> translated
    \<and> messages_of (AddProxyModal_reply r ap) \<union> messages_of (AddHostModal_step ev ah) \<union> messages_of (menu_reply r bd)
      \<union> messages_of (setRate_reply r sr) \<union> messages_of (AccessControlInsertModal_reply r ins)
      \<union> messages_of (AccessControlDeleteModal_reply r del) \<union> messages_of ((), AccessList_reply r) \<subseteq> translated
    \<and> init_language \<in> set (map fst Topbar_languages) \<and> set (map fst Topbar_languages) = {''zh'', ''en''}"
proof (intro conjI)
  have used: "set (concat (map snd component_keys)) \<subseteq> set (map fst resources_zh)"
    by (simp add: component_keys_def resources_zh_def)
  then show "set (concat (map snd component_keys)) \<subseteq> translated" by (simp only: translated_keys)
  show "init_language \<in> set (map fst Topbar_languages)" "set (map fst Topbar_languages) = {''zh'', ''en''}"
    by (simp_all add: init_language_def Topbar_languages_def)
  have said: "''index.modal.success'' \<in> translated" "''other.success'' \<in> translated" "''acl.modal.success'' \<in> translated"
    "''acl.modal.fail'' \<in> translated" "''acl.handle.success'' \<in> translated" "''acl.handle.error'' \<in> translated"
    by (simp_all add: translated_keys resources_zh_def)
  have "messages_of (AddHostModal_step ev ah) \<subseteq> translated"
    by (cases "(ev, ah)" rule: AddHostModal_step.cases) (auto simp: messages_of_def with_data_def said)
  moreover have "messages_of (AddProxyModal_reply r ap) \<subseteq> translated" "messages_of (menu_reply r bd) \<subseteq> translated"
    "messages_of (setRate_reply r sr) \<subseteq> translated" "messages_of (AccessControlInsertModal_reply r ins) \<subseteq> translated"
    "messages_of (AccessControlDeleteModal_reply r del) \<subseteq> translated" "messages_of ((), AccessList_reply r) \<subseteq> translated"
    by (cases r; auto simp: messages_of_def with_data_def said AddProxyModal_reply_def menu_reply_def setRate_reply_def
        AccessControlInsertModal_reply_def AccessControlDeleteModal_reply_def AccessList_reply_def split: if_splits)+
  ultimately show "messages_of (AddProxyModal_reply r ap) \<union> messages_of (AddHostModal_step ev ah) \<union> messages_of (menu_reply r bd)
      \<union> messages_of (setRate_reply r sr) \<union> messages_of (AccessControlInsertModal_reply r ins)
      \<union> messages_of (AccessControlDeleteModal_reply r del) \<union> messages_of ((), AccessList_reply r) \<subseteq> translated"
    by simp
qed

text \<open>What is in the wrong language or says the wrong thing: the messages of the limit dialog are
  always Chinese, and in English a failed insertion reads as a failed deletion.\<close>

lemma messages_astray:
  "setRate_reply (Reply (Object [(''code'', Number 200)])) s
     = (s\<lparr>sr_visible := False, sr_confirmLoading := False\<rparr>, [SuccessMessage (Fixed [0x4fee, 0x6539, 0x6210, 0x529f])])"
  "ErrorMessage (Translated ''acl.modal.fail'') \<in> set (snd (AccessControlInsertModal_reply (Reply (Object [(''code'', Number 500)])) m))"
  "translate ''en'' ''acl.modal.fail'' = units ''fail to delete''"
proof -
  show "setRate_reply (Reply (Object [(''code'', Number 200)])) s
     = (s\<lparr>sr_visible := False, sr_confirmLoading := False\<rparr>, [SuccessMessage (Fixed [0x4fee, 0x6539, 0x6210, 0x529f])])"
    by (simp add: setRate_reply_def with_data_def code_ok_def)
  show "ErrorMessage (Translated ''acl.modal.fail'') \<in> set (snd (AccessControlInsertModal_reply (Reply (Object [(''code'', Number 500)])) m))"
    by (simp add: AccessControlInsertModal_reply_def code_ok_def)
  show "translate ''en'' ''acl.modal.fail'' = units ''fail to delete''" by code_simp
qed

end
