(* ===== verification/Spec2Isabelle.thy ===== *)
theory Spec2Isabelle
  imports AclReuse RoundRobinRace Forwarding ClusterSteps Setup WebApp Messages
begin

text \<open>
  Cheryl is an API gateway written in Go that runs as a cluster: several nodes replicate the
  table of routes, the rate limits and the black list with a raft library, and every node
  serves client requests from its own copy. A web interface, handed out as a bundle of
  JavaScript, manages the cluster through an HTTP API. This development models the program as
  functions and step relations over explicit state, and proves what makes each part correct,
  together with the places where the code does something else than it means to.

  \<^bold>\<open>Parts and theories\<close>

  \<^item> \<open>Prelude\<close>: the outcomes of a Go call (returns, panics, ends the process, hangs) and their
    composition. \<open>GoStd\<close>: what the program uses of Go's standard library (splitting strings,
    numbers and their texts, IP networks, CRC-32, binary search, big-endian bytes), defined as
    the library documents it. \<open>NetUtils\<close>: \<open>utils/net.go\<close>, \<open>utils/fileUtils.go\<close>.
  \<^item> \<open>RadixTree\<close>: \<open>acl/radix_tree.go\<close> operation by operation over a store of nodes with the
    free list. \<open>PrefixTrie\<close> is its specification, \<open>RadixRefine\<close> the simulation between both,
    \<open>Acl\<close> the contract as a locale \<open>prefix_table\<close> with its interpretation on the model, and
    \<open>AclReuse\<close> what happens outside of the contract, when nodes of the free list are reused.
  \<^item> \<open>BalancerIface\<close>: the interface \<open>Balancer\<close> as the locale \<open>load_balancer\<close>; \<open>RoundRobin\<close>,
    \<open>ConsistenceHash\<close> and \<open>Balancer\<close> model the three files of \<open>balancer/\<close> and interpret it;
    \<open>RoundRobinRace\<close> interleaves concurrent calls as a step relation.
  \<^item> \<open>RateLimit\<close> (\<open>rate_limit/\<close>), \<open>FilterChain\<close> (\<open>filter/filter.go\<close>), \<open>Config\<close>
    (\<open>config/config.go\<close>, \<open>logger/log.go\<close>).
  \<^item> \<open>Gateway\<close>: \<open>http_proxy.go\<close>, \<open>proxyMap.go\<close> and \<open>health_check.go\<close> of \<open>reverse_proxy/\<close>. A
    gateway is the heap of proxies and maps, the router, the black list and the goroutines, each
    as the channel it waits on. \<open>GatewayInv\<close> holds the invariants, \<open>Router\<close> the pipeline of a
    client request (\<open>default_router.go\<close>, \<open>router.go\<close>).
  \<^item> \<open>Replication\<close>: log entries, the state machine and snapshots (\<open>cheryl/fsm.go\<close>,
    \<open>log_entry.go\<close>, \<open>snapshot.go\<close>); \<open>ReplicationInv\<close> and \<open>Restore\<close> hold its properties.
  \<^item> \<open>JsValue\<close> and \<open>WebUI\<close>: the application code of the web interface; \<open>WebUIProps\<close> what its
    dialogs guarantee by themselves.
  \<^item> \<open>Server\<close>: the management API (\<open>cheryl/http_server.go\<close>, \<open>R.go\<close>), the writer of the log and
    the loop over elections (\<open>raft.go\<close>); \<open>ServerInv\<close> what every handler keeps. \<open>Cluster\<close>
    compares the leader with its followers, \<open>Startup\<close> models \<open>main.go\<close>, \<open>Start\<close> and
    \<open>startRouter\<close> and the elections, \<open>Setup\<close> the raft node (\<open>cluster.go\<close>), \<open>UIServer\<close> puts the web
    interface and the API together, one request at a time.
  \<^item> \<open>PageProtocol\<close>: a page and its server as a transition system of user actions, requests and
    answers; the locale \<open>refreshing_view\<close> is the contract of a page that reads again what it shows
    after every acknowledged write. \<open>Browser\<close> is the server of the model in that system.
    \<open>FrontPage\<close> (\<open>Index\<close> with its dialogs and menu) and \<open>AclPage\<close> (\<open>AccessList\<close> with its dialogs)
    compose the components of \<open>WebUI\<close> to whole pages and interpret the locale; \<open>RatePage\<close> composes
    the pages \<open>Rate\<close> and \<open>Raft\<close>. \<open>Navigation\<close> adds several pages of which one is in front (locale
    \<open>navigated_views\<close>), and \<open>WebApp\<close> interprets it on \<open>App\<close> with all pages and the links of
    \<open>Sidebar\<close>. \<open>Messages\<close> holds the translations and the choice of the language (\<open>Topbar\<close>).
  \<^item> \<open>Replicas\<close>: the routing table as a replicated data type. The locale \<open>replicated_machine\<close>
    relates a machine with local steps to the specification of its log entries; it is
    interpreted on \<open>FSM_Apply\<close> with requests, health checks and balancer changes as local
    steps. \<open>Agreement\<close> draws the consequences for the leader and its followers, \<open>Snapshots\<close> those
    for logs and snapshots, with the black list as part of what is replicated. \<open>ClusterSteps\<close> is
    the whole cluster as a step relation over the committed log, the nodes and the persisted
    snapshots; the locale \<open>replicated_cluster\<close> extends \<open>replicated_machine\<close> with the laws of writes on
    a leader, snapshots and restarts, and is interpreted on the nodes of the model.
  \<^item> \<open>NodeSteps\<close>: the life of a node as the step relation \<open>node_step\<close>. The locale
    \<open>gateway_invariant\<close> asks an invariant of the gateway to survive the operations of the packages
    below and gives it for every reachable node; it is interpreted for the invariant \<open>healthy\<close>
    and, in \<open>Forwarding\<close>, for \<open>serving\<close>, which a request needs to find the host it was given.

  \<^bold>\<open>Interaction\<close>

  A client request passes \<open>DefaultRouter_ServeHTTP\<close>: the black list, the filters, the route, the
  limiter of the path, the balancer, the reverse proxy of the host. A management request passes
  \<open>serve_api\<close>: the handler checks the permission, changes the gateway of its own node and calls
  \<open>writeLogEntry\<close>; the entry is then applied by \<open>FSM_Apply\<close> on every node, the own one included.
  The web interface makes such requests (\<open>ui_effect\<close>, \<open>ui_call\<close>) and reads the JSON answers.

  \<^bold>\<open>What is shown\<close>

  \<^item> Black list: the pointer structure refines the trie, so a client is refused exactly when an
    added block covers its address; deletion is exact; with reused nodes both fail.
  \<^item> Balancers: either algorithm serves members only; round robin is fair, also under every
    interleaving no request leaves the list; the ring moves keys only to a new host, but a host
    that was added twice leaves keys without a host when it is removed.
  \<^item> Gateway: a new proxy is consistent, a tick of a health check keeps the balancer equal to the
    living hosts, \<open>RemoveProxy\<close> ends all goroutines of the proxy, requests go to listed hosts on
    the longest route.
  \<^item> Replication: applying the log and serving the API never hangs while \<open>watched\<close> holds, which
    both keep; the state machine implements the abstract specification \<open>spec_apply\<close> of the
    routes, so nodes that applied the same log agree, from the start of their processes and
    under every interleaving with local steps; leader and followers agree on the black list; a
    restore rebuilds the routes and the black list of the snapshot. A cluster of any size, in
    which nodes accept writes one at a time, follow, restart and read snapshots in any order, keeps the routes of the
    prefix of the log that each has applied. Where the leader's double
    application makes nodes differ, the difference is a theorem.
  \<^item> Start-up and life of a node: a node that serves requests satisfies all invariants, and keeps
    them whatever happens to it, so that no management request but those about the black list
    ever hangs it; as long as no host is removed, no request to a rotating balancer panics.
  \<^item> Snapshots: reading a persisted snapshot back gives the routes of the log that led to it, with
    the hosts of the configured locations; entries about single hosts are what is lost.
  \<^item> Web interface: what is posted is what the inputs show, and a proxy or host that is added or
    removed in it is added or removed on the leader and on its followers; blocking and
    unblocking an address and setting limits round-trip through the server. Whatever the user
    does on the pages and wherever he goes in between, whenever nothing is on the way the front
    page shows the routes of the node and the black list page its keys; without the user the
    messages come to an end. This needs messages in order: a late answer brings back what was
    shown before. Every key of a text is translated in both languages.

  \<^bold>\<open>Parameters\<close>

  Code outside of the repository is an argument: the token bucket of \<open>golang.org/x/time/rate\<close>
  (\<open>rate_pkg\<close>), the JSON and YAML codecs, the URL parser, the order in which Go iterates over a
  map (\<open>iter\<close>), the raft library (\<open>raft_Apply\<close>, \<open>raft_AddVoter\<close>, \<open>raft_Leader\<close>,
  \<open>raft_Servers\<close>, \<open>raft_lib\<close>), the file system, sockets and the HTTP client. Theorems that need something of them say so in
  a hypothesis (a decoder inverts its encoder, an iteration meets every key once, an entry is
  committed), and their witnesses use concrete functions (\<open>toy_rate\<close>, \<open>demo_env\<close>,
  \<open>demo_server\<close>).

  \<^bold>\<open>Bounds and fuel\<close>

  Loops that end are structural recursions. Loops over pointers that may not end
  (\<open>search_loop\<close> and \<open>prune\<close> of the tree, \<open>chain_loop\<close> of the filters) are partial functions into options: a
  loop that never ends has no result, and that the loops end on well-formed structures is proved.
  \<open>host_nodes\<close> of the web interface counts down the value of \<open>length\<close> that the loop reads, which
  is the number of its rounds. Words have the width of the code: 32-bit addresses and masks,
  64-bit counters and durations, 16-bit operation types.

  \<^bold>\<open>Not modelled\<close>

  \<^item> The bundle \<open>static/static/js/main.399ebeea.js\<close> is one minified line of React, antd, axios,
    react-router, i18next and the application. Only the components of the application and the
    list of fields of the form library are translated; how React renders them is not. The order of
    messages is a part of \<open>PageProtocol\<close>: requests are served, and answers delivered, in the order
    in which they were sent, and each is answered unless its handler ends the process or hangs;
    nobody else writes meanwhile.
  \<^item> \<open>Marshal\<close> and \<open>UnMarshal\<close> of the tree and of the proxy map, which nothing calls, and \<open>Release\<close>,
    which does nothing. The moment at which the raft library persists a snapshot: it is taken and
    written at once here, where the program hands out its live maps.
  \<^item> Log messages, except for the functions that end the process; \<open>Print\<close>; the timeouts of the
    HTTP server.
  \<^item> Data races on Go maps between goroutines, apart from those of \<open>RoundRobinRace\<close>: the other
    operations are taken one at a time.
  \<^item> Tests and the benchmark.
\<close>

end
